(* ===== verification/Prelude.thy ===== *)
theory Prelude
  imports Main "HOL-Library.Word" "HOL-Library.AList"
begin

text \<open>
  Shared vocabulary of the LinkLake development: machine integers and big-endian byte strings, the
  Rust \<open>Result\<close> type as a sum with its \<open>?\<close> operator, slices, hash maps as association lists, and the
  interfaces (locales) that several components implement: codecs, and machines whose operations
  never panic while an invariant holds.
\<close>

unbundle bit_operations_syntax

section \<open>Machine integers\<close>

type_synonym u8 = "8 word"
type_synonym u16 = "16 word"
type_synonym u32 = "32 word"
type_synonym u64 = "64 word"
type_synonym u128 = "128 word"
type_synonym bytes = "u8 list"

text \<open>
  A \<open>Uuid\<close> is sixteen bytes; it is kept as the 128-bit number those bytes spell in
  big-endian order, so \<open>is_nil\<close> is being zero and the order on UUIDs is the numeric one.
\<close>

type_synonym uuid = u128

definition is_nil :: "uuid \<Rightarrow> bool" where
  "is_nil u \<longleftrightarrow> u = 0"

text \<open>
  \<open>usize\<close> values are natural numbers below \<open>2 ^ 64\<close>; the saturating and checked operations
  write the bound out. \<open>Instant\<close> and \<open>Duration\<close> are nanosecond counts.
\<close>

type_synonym usize = nat
type_synonym instant = nat
type_synonym duration = nat

definition usize_max :: nat where
  "usize_max = 2 ^ 64 - 1"

definition u64_max :: nat where
  "u64_max = 2 ^ 64 - 1"

definition saturating_add :: "nat \<Rightarrow> nat \<Rightarrow> nat" where
  "saturating_add a b = min (a + b) usize_max"

definition saturating_mul :: "nat \<Rightarrow> nat \<Rightarrow> nat" where
  "saturating_mul a b = min (a * b) usize_max"

text \<open>Subtraction on \<open>nat\<close> stops at zero, which is Rust's \<open>saturating_sub\<close>.\<close>

definition saturating_sub :: "nat \<Rightarrow> nat \<Rightarrow> nat" where
  "saturating_sub a b = a - b"

definition checked_add :: "nat \<Rightarrow> nat \<Rightarrow> nat option" where
  "checked_add a b = (if a + b \<le> usize_max then Some (a + b) else None)"

text \<open>Plain \<open>-\<close> on unsigned integers panics (or wraps) below zero.\<close>

definition checked_sub :: "nat \<Rightarrow> nat \<Rightarrow> nat option" where
  "checked_sub a b = (if b \<le> a then Some (a - b) else None)"

definition div_ceil :: "nat \<Rightarrow> nat \<Rightarrow> nat" where
  "div_ceil a b = a div b + (if a mod b = 0 then 0 else 1)"

lemma saturating_add_exact [simp]: "a + b \<le> usize_max \<Longrightarrow> saturating_add a b = a + b"
  by (simp add: saturating_add_def)

lemma saturating_add_le_iff:
  "l < usize_max \<Longrightarrow> saturating_add a b \<le> l \<longleftrightarrow> a + b \<le> l"
  by (auto simp: saturating_add_def)

lemma saturating_add_le: "saturating_add a b \<le> a + b"
  by (simp add: saturating_add_def)

lemma div_ceil_le_iff: "0 < b \<Longrightarrow> div_ceil a b \<le> n \<longleftrightarrow> a \<le> n * b"
proof -
  assume b: "0 < b"
  have split: "a = a div b * b + a mod b" by simp
  show ?thesis
  proof (cases "a mod b = 0")
    case True
    with b split show ?thesis
      unfolding div_ceil_def by (simp add: div_le_mono) (metis b mult_le_cancel2 split add.right_neutral)
  next
    case False
    have "a \<le> n * b \<longleftrightarrow> a div b < n"
    proof
      assume "a \<le> n * b"
      with False b split show "a div b < n"
        by (metis add_diff_cancel_left' diff_is_0_eq le_less_linear less_mult_imp_div_less mod_mult_self2_is_0 mult.commute nat_less_le)
    next
      assume "a div b < n"
      then show "a \<le> n * b" using b by (simp add: div_less_iff_less_mult less_imp_le)
    qed
    with False show ?thesis by (simp add: div_ceil_def Suc_le_eq)
  qed
qed

section \<open>Results and the question-mark operator\<close>

text \<open>
  \<open>Result<T, E>\<close> is \<open>'e + 'a\<close>. A panic (a failed \<open>expect\<close>, an index out of range, an
  integer underflow) is \<open>None\<close> of an option around the result, so that the absence of panics
  can be stated.
\<close>

abbreviation Ok :: "'a \<Rightarrow> 'e + 'a" where "Ok \<equiv> Inr"
abbreviation Err :: "'e \<Rightarrow> 'e + 'a" where "Err \<equiv> Inl"

definition and_then :: "'e + 'a \<Rightarrow> ('a \<Rightarrow> 'e + 'b) \<Rightarrow> 'e + 'b" where
  "and_then r f = (case r of Inl e \<Rightarrow> Inl e | Inr x \<Rightarrow> f x)"

definition check :: "bool \<Rightarrow> 'e \<Rightarrow> 'e + unit" where
  "check b e = (if b then Inr () else Inl e)"

definition is_ok :: "'e + 'a \<Rightarrow> bool" where
  "is_ok r = (case r of Inl _ \<Rightarrow> False | Inr _ \<Rightarrow> True)"

definition map_err :: "('e \<Rightarrow> 'f) \<Rightarrow> 'e + 'a \<Rightarrow> 'f + 'a" where
  "map_err f r = (case r of Inl e \<Rightarrow> Inl (f e) | Inr x \<Rightarrow> Inr x)"

definition ok_or :: "'a option \<Rightarrow> 'e \<Rightarrow> 'e + 'a" where
  "ok_or x e = (case x of None \<Rightarrow> Inl e | Some y \<Rightarrow> Inr y)"

named_theorems result_simps \<open>rewriting of results built with the question-mark operator\<close>

lemma and_then_simps [simp, result_simps]:
  "and_then (Inl e) f = Inl e"
  "and_then (Inr x) f = f x"
  by (simp_all add: and_then_def)

lemma is_ok_simps [simp, result_simps]:
  "is_ok (Inl e) = False"
  "is_ok (Inr x) = True"
  by (simp_all add: is_ok_def)

lemma map_err_simps [simp, result_simps]:
  "map_err f (Inl e) = Inl (f e)"
  "map_err f (Inr x) = Inr x"
  by (simp_all add: map_err_def)

lemma ok_or_simps [simp, result_simps]:
  "ok_or None e = Inl e"
  "ok_or (Some x) e = Inr x"
  by (simp_all add: ok_or_def)

lemma and_then_ok_iff [result_simps]:
  "and_then r f = Inr y \<longleftrightarrow> (\<exists>x. r = Inr x \<and> f x = Inr y)"
  by (cases r) auto

lemma map_err_ok_iff [simp, result_simps]: "map_err f r = Inr y \<longleftrightarrow> r = Inr y"
  by (cases r) auto

lemma ok_or_ok_iff [simp, result_simps]: "ok_or x e = Inr y \<longleftrightarrow> x = Some y"
  by (cases x) auto

lemma check_ok_iff [simp, result_simps]: "check b e = Inr u \<longleftrightarrow> b"
  by (simp add: check_def)

lemma check_err_iff [simp, result_simps]: "check b e = Inl e' \<longleftrightarrow> \<not> b \<and> e' = e"
  by (auto simp: check_def)

lemma check_simps [simp]: "check True e = Inr ()" "check False e = Inl e"
  by (simp_all add: check_def)

lemma and_then_check: "and_then (check b e) f = (if b then f () else Inl e)"
  by (simp add: check_def)

text \<open>\<open>iter().map(f).collect::<Result<Vec<_>, _>>()\<close>: the first error wins.\<close>

fun map_result :: "('a \<Rightarrow> 'e + 'b) \<Rightarrow> 'a list \<Rightarrow> 'e + 'b list" where
  "map_result f [] = Inr []"
| "map_result f (x # xs) = and_then (f x) (\<lambda>y. and_then (map_result f xs) (\<lambda>ys. Inr (y # ys)))"

lemma map_result_ok_iff:
  "map_result f xs = Inr ys \<longleftrightarrow> list_all2 (\<lambda>x y. f x = Inr y) xs ys"
  by (induction xs arbitrary: ys) (auto simp: and_then_ok_iff list_all2_Cons1)

lemma map_result_all_ok:
  "(\<And>x. x \<in> set xs \<Longrightarrow> f x = Inr (g x)) \<Longrightarrow> map_result f xs = Inr (map g xs)"
  by (induction xs) auto

lemma map_result_in_set:
  "map_result f xs = Inr ys \<Longrightarrow> y \<in> set ys \<Longrightarrow> \<exists>x \<in> set xs. f x = Inr y"
  by (induction xs arbitrary: ys) (auto simp: and_then_ok_iff)

lemma map_result_set:
  "map_result f xs = Inr ys \<Longrightarrow> y \<in> set ys \<longleftrightarrow> (\<exists>x \<in> set xs. f x = Inr y)"
  by (induction xs arbitrary: ys) (auto simp: and_then_ok_iff)

lemma map_result_length: "map_result f xs = Inr ys \<Longrightarrow> length ys = length xs"
  by (auto simp: map_result_ok_iff dest: list_all2_lengthD)

section \<open>Big-endian bytes\<close>

fun be_encode :: "nat \<Rightarrow> nat \<Rightarrow> bytes" where
  "be_encode 0 v = []"
| "be_encode (Suc n) v = be_encode n (v div 256) @ [of_nat (v mod 256)]"

definition be_decode :: "bytes \<Rightarrow> nat" where
  "be_decode bs = foldl (\<lambda>acc b. acc * 256 + unat b) 0 bs"

definition to_be_bytes :: "'a::len word \<Rightarrow> bytes" where
  "to_be_bytes w = be_encode (LENGTH('a) div 8) (unat w)"

definition from_be_bytes :: "bytes \<Rightarrow> 'a::len word" where
  "from_be_bytes bs = of_nat (be_decode bs)"

lemma length_be_encode [simp]: "length (be_encode n v) = n"
  by (induction n arbitrary: v) auto

lemma be_decode_Nil [simp]: "be_decode [] = 0"
  by (simp add: be_decode_def)

lemma be_decode_snoc [simp]: "be_decode (bs @ [b]) = be_decode bs * 256 + unat b"
  by (simp add: be_decode_def)

lemma unat_of_nat_byte: "unat (of_nat (v mod 256) :: u8) = v mod 256"
  by (simp add: unat_of_nat)

lemma be_decode_encode: "be_decode (be_encode n v) = v mod 256 ^ n"
proof (induction n arbitrary: v)
  case 0
  then show ?case by simp
next
  case (Suc n)
  have "be_decode (be_encode (Suc n) v) = (v div 256 mod 256 ^ n) * 256 + v mod 256"
    by (simp add: Suc.IH unat_of_nat_byte del: unat_of_nat)
  also have "\<dots> = v mod (256 * 256 ^ n)"
    by (simp add: mod_mult2_eq)
  finally show ?case by simp
qed

lemma be_decode_less: "be_decode bs < 256 ^ length bs"
proof (induction bs rule: rev_induct)
  case Nil
  then show ?case by simp
next
  case (snoc b bs)
  have "unat b < 256" using unsigned_less [of b] by simp
  with snoc show ?case by simp
qed

lemma be_encode_decode: "be_encode (length bs) (be_decode bs) = bs"
proof (induction bs rule: rev_induct)
  case Nil
  then show ?case by simp
next
  case (snoc b bs)
  have b: "unat b < 256" using unsigned_less [of b] by simp
  then have "(be_decode bs * 256 + unat b) div 256 = be_decode bs"
    and "(be_decode bs * 256 + unat b) mod 256 = unat b" by simp_all
  with snoc show ?case by simp
qed

lemma length_to_be_bytes [simp]: "length (to_be_bytes (w :: 'a::len word)) = LENGTH('a) div 8"
  by (simp add: to_be_bytes_def)

lemma from_to_be_bytes:
  fixes w :: "'a::len word"
  assumes "8 dvd LENGTH('a)"
  shows "from_be_bytes (to_be_bytes w) = w"
proof -
  obtain k where k: "LENGTH('a) = 8 * k" using assms by (auto elim: dvdE)
  have "(256::nat) ^ k = 2 ^ LENGTH('a)" by (simp add: k power_mult)
  then have "unat w mod 256 ^ k = unat w" using unsigned_less [of w] by simp
  then show ?thesis by (simp add: from_be_bytes_def to_be_bytes_def be_decode_encode k)
qed

lemma to_from_be_bytes:
  assumes "8 dvd LENGTH('a::len)" and "length bs = LENGTH('a) div 8"
  shows "to_be_bytes (from_be_bytes bs :: 'a word) = bs"
proof -
  obtain k where k: "LENGTH('a) = 8 * k" using assms(1) by (auto elim: dvdE)
  have len: "length bs = k" using assms(2) k by simp
  have "be_decode bs < 2 ^ LENGTH('a)"
    using be_decode_less [of bs] by (simp add: k len power_mult)
  then have "unat (from_be_bytes bs :: 'a word) = be_decode bs"
    by (simp add: from_be_bytes_def unat_of_nat)
  then show ?thesis using be_encode_decode [of bs] by (simp add: to_be_bytes_def k len)
qed

lemma be_bytes_roundtrips [simp]:
  "from_be_bytes (to_be_bytes (a :: u16)) = a"
  "from_be_bytes (to_be_bytes (b :: u32)) = b"
  "from_be_bytes (to_be_bytes (c :: u64)) = c"
  "from_be_bytes (to_be_bytes (d :: u128)) = d"
  by (rule from_to_be_bytes, simp)+

lemma unat_of_nat_small: "n < 2 ^ LENGTH('a::len) \<Longrightarrow> unat (of_nat n :: 'a word) = n"
  by (simp add: unsigned_of_nat take_bit_nat_eq_self)

lemma to_be_bytes_of_slice [simp]:
  "length bs = 2 \<Longrightarrow> to_be_bytes (from_be_bytes bs :: u16) = bs"
  "length bs = 4 \<Longrightarrow> to_be_bytes (from_be_bytes bs :: u32) = bs"
  "length bs = 8 \<Longrightarrow> to_be_bytes (from_be_bytes bs :: u64) = bs"
  "length bs = 16 \<Longrightarrow> to_be_bytes (from_be_bytes bs :: u128) = bs"
  by (rule to_from_be_bytes; simp)+

lemma u16_bytes_cases: obtains a b where "to_be_bytes (w :: u16) = [a, b]" and "from_be_bytes [a, b] = w"
proof -
  have "length (to_be_bytes w) = Suc (Suc 0)" by simp
  then obtain a b where ab: "to_be_bytes w = [a, b]"
    by (simp only: length_Suc_conv length_0_conv) blast
  moreover have "from_be_bytes [a, b] = w" using be_bytes_roundtrips(1) [of w] by (simp only: ab)
  ultimately show thesis by (rule that)
qed

section \<open>Slices and chunks\<close>

text \<open>\<open>&bs[a..b]\<close>, used by the sources after a length check.\<close>

definition slice :: "nat \<Rightarrow> nat \<Rightarrow> 'a list \<Rightarrow> 'a list" where
  "slice a b xs = take (b - a) (drop a xs)"

lemma length_slice [simp]: "length (slice a b xs) = min (b - a) (length xs - a)"
  by (simp add: slice_def min.commute)

lemma slice_drop: "a \<le> b \<Longrightarrow> slice a b xs @ drop b xs = drop a xs"
  by (simp add: slice_def) (metis append_take_drop_id drop_drop le_add_diff_inverse2)

lemma slice_two: "Suc a < length xs \<Longrightarrow> slice a (a + 2) xs = [xs ! a, xs ! Suc a]"
  by (simp add: slice_def numeral_2_eq_2 Cons_nth_drop_Suc [symmetric] Suc_lessD)

lemma slice_one: "a < length xs \<Longrightarrow> slice a (Suc a) xs = [xs ! a]"
  by (simp add: slice_def Cons_nth_drop_Suc [symmetric])

text \<open>\<open>slice::chunks(n)\<close> for a positive \<open>n\<close> (zero panics in Rust; the sources never pass it).\<close>

function chunks :: "nat \<Rightarrow> 'a list \<Rightarrow> 'a list list" where
  "chunks n xs = (if n = 0 \<or> xs = [] then [] else take n xs # chunks n (drop n xs))"
  by pat_completeness auto
termination
  by (relation "measure (\<lambda>(n, xs). length xs)") auto

declare chunks.simps [simp del]

lemma chunks_Nil [simp]: "chunks n [] = []"
  by (subst chunks.simps) simp

lemma chunks_step: "0 < n \<Longrightarrow> xs \<noteq> [] \<Longrightarrow> chunks n xs = take n xs # chunks n (drop n xs)"
  by (subst chunks.simps) simp

lemma concat_chunks: "0 < n \<Longrightarrow> concat (chunks n xs) = xs"
proof (induction n xs rule: chunks.induct)
  case (1 n xs)
  then show ?case by (cases "xs = []") (simp_all add: chunks_step)
qed

lemma chunks_bounds:
  "0 < n \<Longrightarrow> c \<in> set (chunks n xs) \<Longrightarrow> c \<noteq> [] \<and> length c \<le> n"
proof (induction n xs rule: chunks.induct)
  case (1 n xs)
  then show ?case by (cases "xs = []") (auto simp: chunks_step)
qed

lemma length_chunks: "0 < n \<Longrightarrow> length (chunks n xs) = div_ceil (length xs) n"
proof (induction n xs rule: chunks.induct)
  case (1 n xs)
  show ?case
  proof (cases "xs = []")
    case True
    then show ?thesis by (simp add: div_ceil_def)
  next
    case False
    with "1.prems" have len: "length (chunks n xs) = Suc (div_ceil (length xs - n) n)"
      using "1.IH" by (simp add: chunks_step)
    show ?thesis
    proof (cases "length xs < n")
      case True
      then show ?thesis using False by (simp add: len div_ceil_def)
    next
      case ge: False
      with "1.prems" have "length xs div n = Suc ((length xs - n) div n)"
        and "length xs mod n = (length xs - n) mod n"
        by (simp_all add: le_div_geq le_mod_geq)
      then show ?thesis by (simp add: len div_ceil_def)
    qed
  qed
qed

section \<open>Network addresses\<close>

text \<open>\<open>std::net\<close> addresses by the number their octets spell; \<open>octets()\<close> is \<^const>\<open>to_be_bytes\<close>.\<close>

datatype ip_addr = V4 u32 | V6 u128

record socket_addr =
  sa_ip :: ip_addr
  sa_port :: u16

section \<open>Hash maps and queues\<close>

text \<open>
  A \<open>HashMap\<close> is an association list with distinct keys: \<open>get\<close> is \<^const>\<open>map_of\<close>,
  \<open>insert\<close> and \<open>remove\<close> are the library's \<^const>\<open>AList.update\<close> and \<^const>\<open>AList.delete\<close>,
  and \<open>len\<close> is the list's length. Rust leaves the iteration order open; the model takes the
  list's order, and the facts below depend on the entries only.
\<close>

type_synonym ('k, 'v) hashmap = "('k \<times> 'v) list"

abbreviation hm_get :: "('k, 'v) hashmap \<Rightarrow> 'k \<Rightarrow> 'v option" where
  "hm_get \<equiv> map_of"

abbreviation hm_insert :: "'k \<Rightarrow> 'v \<Rightarrow> ('k, 'v) hashmap \<Rightarrow> ('k, 'v) hashmap" where
  "hm_insert \<equiv> AList.update"

abbreviation hm_remove :: "'k \<Rightarrow> ('k, 'v) hashmap \<Rightarrow> ('k, 'v) hashmap" where
  "hm_remove \<equiv> AList.delete"

abbreviation hm_distinct :: "('k, 'v) hashmap \<Rightarrow> bool" where
  "hm_distinct m \<equiv> distinct (map fst m)"

named_theorems hm_simps \<open>lookups, sizes and sums of updated hash maps\<close>

lemma hm_get_insert [simp, hm_simps]:
  "map_of (AList.update k v m) k' = (if k' = k then Some v else map_of m k')"
  by (simp add: update_conv')

lemma hm_get_remove [simp, hm_simps]:
  "map_of (AList.delete k m) k' = (if k' = k then None else map_of m k')"
  by (simp add: delete_conv')

lemma hm_insert_new [hm_simps]: "map_of m k = None \<Longrightarrow> AList.update k v m = m @ [(k, v)]"
  by (induction m) auto

lemma hm_distinct_remove [simp, intro]: "hm_distinct m \<Longrightarrow> hm_distinct (AList.delete k m)"
  by (rule distinct_delete)

lemma hm_distinct_insert [simp, intro]: "hm_distinct m \<Longrightarrow> hm_distinct (AList.update k v m)"
  by (rule distinct_update)

lemma hm_remove_absent [hm_simps]: "map_of m k = None \<Longrightarrow> AList.delete k m = m"
  by (induction m) (auto simp: AList.delete_eq)

lemma hm_in_iff: "hm_distinct m \<Longrightarrow> (k, v) \<in> set m \<longleftrightarrow> map_of m k = Some v"
  by (metis map_of_SomeD map_of_is_SomeI)

lemma hm_insert_subset: "e \<in> set (AList.update k v m) \<Longrightarrow> e = (k, v) \<or> e \<in> set m"
  by (induction m) (auto split: if_splits)

text \<open>An entry present in the map contributes exactly once to any sum over the map.\<close>

lemma hm_sum_remove [hm_simps]:
  fixes f :: "'k \<times> 'v \<Rightarrow> nat"
  assumes "hm_distinct m" and "map_of m k = Some v"
  shows "sum_list (map f m) = sum_list (map f (AList.delete k m)) + f (k, v)"
  using assms
proof (induction m)
  case Nil
  then show ?case by simp
next
  case (Cons e m)
  obtain k' v' where e: "e = (k', v')" by (cases e)
  show ?case
  proof (cases "k' = k")
    case True
    with Cons.prems e have "map_of m k = None" "v' = v"
      by (auto simp: map_of_eq_None_iff)
    then have "AList.delete k (e # m) = m"
      using e True hm_remove_absent [of m k] by (simp add: AList.delete_eq)
    then show ?thesis using e True \<open>v' = v\<close> by simp
  next
    case False
    with Cons e show ?thesis by (simp add: AList.delete_eq)
  qed
qed

lemma hm_length_remove [hm_simps]:
  assumes "hm_distinct m" and "map_of m k = Some v"
  shows "length m = Suc (length (AList.delete k m))"
  using hm_sum_remove [OF assms, of "\<lambda>_. 1"] by (simp add: sum_list_triv)

lemma hm_sum_update [hm_simps]:
  fixes f :: "'k \<times> 'v \<Rightarrow> nat"
  assumes "hm_distinct m" and "map_of m k = Some v"
  shows "sum_list (map f (AList.update k w m)) + f (k, v) = sum_list (map f m) + f (k, w)"
  using assms
proof (induction m)
  case Nil
  then show ?case by simp
next
  case (Cons e m)
  obtain k' v' where e: "e = (k', v')" by (cases e)
  show ?case
  proof (cases "k' = k")
    case True
    with Cons.prems e show ?thesis by simp
  next
    case False
    with Cons e show ?thesis by simp
  qed
qed

lemma hm_length_update [hm_simps]:
  "map_of m k = Some v \<Longrightarrow> length (AList.update k w m) = length m"
  by (induction m) auto

section \<open>Walking around a ring\<close>

lemma mod_shift_onto:
  assumes "r < (m::nat)"
  shows "\<exists>x < m. (b + x) mod m = r"
proof (cases "b mod m \<le> r")
  case True
  have "(b + (r - b mod m)) mod m = (b mod m + (r - b mod m)) mod m" by (simp add: mod_add_left_eq)
  with True assms show ?thesis by (intro exI [of _ "r - b mod m"]) auto
next
  case False
  then have "b mod m < m" using assms by simp
  have "(b + (r + m - b mod m)) mod m = (b mod m + (r + m - b mod m)) mod m" by (simp add: mod_add_left_eq)
  also have "\<dots> = (r + m) mod m" using \<open>b mod m < m\<close> by simp
  finally show ?thesis using False assms \<open>b mod m < m\<close>
    by (intro exI [of _ "r + m - b mod m"]) auto
qed

section \<open>Interfaces\<close>

text \<open>
  A codec: what the encoder produces, the decoder reads back. A canonical codec accepts
  only what the encoder would have written.
\<close>

locale codec =
  fixes enc :: "'a \<Rightarrow> 'e + 'b"
    and dec :: "'b \<Rightarrow> 'f + 'a"
  assumes dec_enc: "enc x = Inr y \<Longrightarrow> dec y = Inr x"
begin

lemma enc_inj: "enc x = Inr y \<Longrightarrow> enc x' = Inr y \<Longrightarrow> x = x'"
  by (metis dec_enc sum.inject(2))

lemma dec_all: "map_result enc xs = Inr ys \<Longrightarrow> map_result dec ys = Inr xs"
proof -
  assume "map_result enc xs = Inr ys"
  then have "list_all2 (\<lambda>x y. enc x = Inr y) xs ys" by (simp add: map_result_ok_iff)
  then have "list_all2 (\<lambda>y x. dec y = Inr x) ys xs"
    by (simp add: list_all2_conv_all_nth dec_enc)
  then show ?thesis by (simp add: map_result_ok_iff)
qed

end

locale canonical_codec = codec +
  assumes enc_dec: "dec y = Inr x \<Longrightarrow> enc x = Inr y"
begin

lemma dec_inj: "dec y = Inr x \<Longrightarrow> dec y' = Inr x \<Longrightarrow> y = y'"
  by (metis enc_dec sum.inject(2))

lemma dec_iff_enc: "dec y = Inr x \<longleftrightarrow> enc x = Inr y"
  using enc_dec dec_enc by blast

end

text \<open>
  A guarded machine: every operation from a state that satisfies the invariant returns
  (\<open>None\<close> would be a panic) and leaves a state that satisfies it. Whole runs then neither
  panic nor leave the invariant.
\<close>

fun run_machine :: "('i \<Rightarrow> 's \<Rightarrow> ('s \<times> 'o) option) \<Rightarrow> 'i list \<Rightarrow> 's \<Rightarrow> ('s \<times> 'o list) option" where
  "run_machine step [] s = Some (s, [])"
| "run_machine step (i # is) s =
     (case step i s of None \<Rightarrow> None
      | Some (s', x) \<Rightarrow> map_option (\<lambda>(t, xs). (t, x # xs)) (run_machine step is s'))"

locale guarded_machine =
  fixes inv :: "'s \<Rightarrow> bool"
    and step :: "'i \<Rightarrow> 's \<Rightarrow> ('s \<times> 'o) option"
  assumes step_safe: "inv s \<Longrightarrow> \<exists>s' x. step i s = Some (s', x) \<and> inv s'"
begin

lemma run_safe: "inv s \<Longrightarrow> \<exists>t xs. run_machine step is s = Some (t, xs) \<and> inv t \<and> length xs = length is"
proof (induction "is" arbitrary: s)
  case Nil
  then show ?case by simp
next
  case (Cons i "is")
  then obtain s' x where "step i s = Some (s', x)" "inv s'" using step_safe by blast
  moreover from this Cons.IH obtain t xs
    where "run_machine step is s' = Some (t, xs)" "inv t" "length xs = length is" by blast
  ultimately show ?case by simp
qed

lemma run_inv: "inv s \<Longrightarrow> run_machine step is s = Some (t, xs) \<Longrightarrow> inv t"
  using run_safe [of s "is"] by auto

end

text \<open>A machine whose steps never go back in some order of the states.\<close>

locale monotone_machine = guarded_machine +
  fixes le :: "'a \<Rightarrow> 'a \<Rightarrow> bool"
  assumes le_refl: "le s s"
    and le_trans: "le s t \<Longrightarrow> le t u \<Longrightarrow> le s u"
    and step_le: "inv s \<Longrightarrow> step i s = Some (t, x) \<Longrightarrow> le s t"
begin

lemma run_le: "inv s \<Longrightarrow> run_machine step is s = Some (t, xs) \<Longrightarrow> le s t"
proof (induction "is" arbitrary: s xs)
  case Nil
  then show ?case by (simp add: le_refl)
next
  case (Cons i "is")
  from step_safe [OF Cons.prems(1), of i] obtain s' x where s': "step i s = Some (s', x)" "inv s'" by blast
  with Cons.prems(2) obtain ys where "run_machine step is s' = Some (t, ys)"
    by (auto split: option.splits)
  from Cons.IH [OF s'(2) this] step_le [OF Cons.prems(1) s'(1)] show ?case by (rule le_trans [rotated])
qed

end

end
