(* ===== verification/Udp_Protocol.thy ===== *)
theory Udp_Protocol
  imports Prelude
begin

text \<open>
  The LLUD datagram format of \<open>crates/linklake-core/src/udp_protocol.rs\<close>: the fragment record,
  its validation, the 40-byte header codec and the splitting of one UDP datagram into frames
  that fit a QUIC datagram.
\<close>

section \<open>Data\<close>

definition UDP_DATAGRAM_MAGIC :: bytes where
  "UDP_DATAGRAM_MAGIC = [0x4C, 0x4C, 0x55, 0x44]"

definition UDP_DATAGRAM_VERSION :: u8 where
  "UDP_DATAGRAM_VERSION = 1"

definition UDP_DATAGRAM_HEADER_BYTES :: nat where
  "UDP_DATAGRAM_HEADER_BYTES = 40"

definition MAX_UDP_DATAGRAM_BYTES :: nat where
  "MAX_UDP_DATAGRAM_BYTES = 65507"

definition MAX_UDP_FRAGMENTS :: u16 where
  "MAX_UDP_FRAGMENTS = 64"

datatype udp_direction = PublicToTarget | TargetToPublic

datatype udp_protocol_error =
    FrameTooShort usize
  | InvalidMagic
  | UnsupportedVersion u8
  | InvalidDirection u8
  | UnsupportedFlags u16
  | NilSessionId
  | InvalidFragmentCount u16
  | InvalidFragmentIndex u16 u16
  | DatagramTooLarge usize
  | InvalidFragmentLength
  | FrameLimitTooSmall
  | TooManyFragments

definition direction_try_from :: "u8 \<Rightarrow> udp_protocol_error + udp_direction" where
  "direction_try_from v =
     (if v = 1 then Ok PublicToTarget
      else if v = 2 then Ok TargetToPublic
      else Err (InvalidDirection v))"

definition direction_as_u8 :: "udp_direction \<Rightarrow> u8" where
  "direction_as_u8 d = (case d of PublicToTarget \<Rightarrow> 1 | TargetToPublic \<Rightarrow> 2)"

record udp_fragment =
  uf_direction :: udp_direction
  uf_session_id :: uuid
  uf_datagram_id :: u64
  uf_fragment_index :: u16
  uf_fragment_count :: u16
  uf_original_length :: u32
  uf_payload :: bytes

section \<open>Validation\<close>

definition validate_fragment :: "udp_fragment \<Rightarrow> udp_protocol_error + unit" where
  "validate_fragment f =
     (if is_nil (uf_session_id f) then Err NilSessionId
      else if uf_fragment_count f = 0 \<or> uf_fragment_count f > MAX_UDP_FRAGMENTS
        then Err (InvalidFragmentCount (uf_fragment_count f))
      else if uf_fragment_index f \<ge> uf_fragment_count f
        then Err (InvalidFragmentIndex (uf_fragment_index f) (uf_fragment_count f))
      else let original_length = unat (uf_original_length f) in
        if original_length > MAX_UDP_DATAGRAM_BYTES then Err (DatagramTooLarge original_length)
        else if original_length = 0 then
          (if uf_fragment_count f \<noteq> 1 \<or> uf_fragment_index f \<noteq> 0 \<or> uf_payload f \<noteq> []
           then Err InvalidFragmentLength else Ok ())
        else if uf_payload f = [] \<or> length (uf_payload f) > original_length
          then Err InvalidFragmentLength
        else if uf_fragment_count f = 1 \<and> length (uf_payload f) \<noteq> original_length
          then Err InvalidFragmentLength
        else if uf_fragment_count f > 1 \<and> length (uf_payload f) = original_length
          then Err InvalidFragmentLength
        else Ok ())"

section \<open>The frame codec\<close>

definition udp_encode :: "udp_fragment \<Rightarrow> udp_protocol_error + bytes" where
  "udp_encode f =
     and_then (validate_fragment f) (\<lambda>_.
       Ok (UDP_DATAGRAM_MAGIC @ [UDP_DATAGRAM_VERSION] @ [direction_as_u8 (uf_direction f)]
           @ to_be_bytes (0 :: u16) @ to_be_bytes (uf_session_id f)
           @ to_be_bytes (uf_datagram_id f) @ to_be_bytes (uf_fragment_index f)
           @ to_be_bytes (uf_fragment_count f) @ to_be_bytes (uf_original_length f)
           @ uf_payload f))"

definition udp_decode :: "bytes \<Rightarrow> udp_protocol_error + udp_fragment" where
  "udp_decode encoded =
     (if length encoded < UDP_DATAGRAM_HEADER_BYTES then Err (FrameTooShort (length encoded))
      else if slice 0 4 encoded \<noteq> UDP_DATAGRAM_MAGIC then Err InvalidMagic
      else if encoded ! 4 \<noteq> UDP_DATAGRAM_VERSION then Err (UnsupportedVersion (encoded ! 4))
      else and_then (direction_try_from (encoded ! 5)) (\<lambda>direction.
        let flags = from_be_bytes [encoded ! 6, encoded ! 7] :: u16 in
        if flags \<noteq> 0 then Err (UnsupportedFlags flags)
        else let fragment =
          \<lparr>uf_direction = direction,
           uf_session_id = from_be_bytes (slice 8 24 encoded),
           uf_datagram_id = from_be_bytes (slice 24 32 encoded),
           uf_fragment_index = from_be_bytes [encoded ! 32, encoded ! 33],
           uf_fragment_count = from_be_bytes [encoded ! 34, encoded ! 35],
           uf_original_length = from_be_bytes (slice 36 40 encoded),
           uf_payload = drop UDP_DATAGRAM_HEADER_BYTES encoded\<rparr>
        in and_then (validate_fragment fragment) (\<lambda>_. Ok fragment)))"

section \<open>Splitting a datagram into frames\<close>

definition chunk_fragment ::
  "udp_direction \<Rightarrow> uuid \<Rightarrow> u64 \<Rightarrow> nat \<Rightarrow> u16 \<Rightarrow> nat \<Rightarrow> bytes \<Rightarrow> udp_fragment" where
  "chunk_fragment direction session_id datagram_id index fragment_count original_length chunk =
     \<lparr>uf_direction = direction, uf_session_id = session_id, uf_datagram_id = datagram_id,
      uf_fragment_index = of_nat index, uf_fragment_count = fragment_count,
      uf_original_length = of_nat original_length, uf_payload = chunk\<rparr>"

definition datagram_fragments ::
  "udp_direction \<Rightarrow> uuid \<Rightarrow> u64 \<Rightarrow> u16 \<Rightarrow> bytes list \<Rightarrow> nat \<Rightarrow> udp_fragment list" where
  "datagram_fragments direction session_id datagram_id fragment_count cs original_length =
     map (\<lambda>(index, chunk). chunk_fragment direction session_id datagram_id index fragment_count original_length chunk)
       (enumerate 0 cs)"

definition fragment_datagram ::
  "udp_direction \<Rightarrow> uuid \<Rightarrow> u64 \<Rightarrow> bytes \<Rightarrow> usize \<Rightarrow> udp_protocol_error + bytes list" where
  "fragment_datagram direction session_id datagram_id payload max_frame_bytes =
     (if is_nil session_id then Err NilSessionId
      else if length payload > MAX_UDP_DATAGRAM_BYTES then Err (DatagramTooLarge (length payload))
      else if max_frame_bytes \<le> UDP_DATAGRAM_HEADER_BYTES then Err FrameLimitTooSmall
      else let max_fragment_payload = max_frame_bytes - UDP_DATAGRAM_HEADER_BYTES;
               count = (if payload = [] then 1 else div_ceil (length payload) max_fragment_payload)
      in if count > unat MAX_UDP_FRAGMENTS then Err TooManyFragments
      else let fragment_count = of_nat count :: u16 in
        if payload = [] then
          and_then (udp_encode (chunk_fragment direction session_id datagram_id 0 1 0 []))
            (\<lambda>frame. Ok [frame])
        else map_result udp_encode
          (datagram_fragments direction session_id datagram_id fragment_count
            (chunks max_fragment_payload payload) (length payload)))"

section \<open>Facts about valid fragments\<close>

named_theorems udp_defs \<open>constants of the LLUD format\<close>

lemmas [udp_defs] = UDP_DATAGRAM_MAGIC_def UDP_DATAGRAM_VERSION_def UDP_DATAGRAM_HEADER_BYTES_def
  MAX_UDP_DATAGRAM_BYTES_def MAX_UDP_FRAGMENTS_def

lemma direction_roundtrip [simp]: "direction_try_from (direction_as_u8 d) = Ok d"
  by (cases d) (simp_all add: direction_try_from_def direction_as_u8_def)

lemma direction_try_from_ok: "direction_try_from b = Ok d \<Longrightarrow> direction_as_u8 d = b"
  by (auto simp: direction_try_from_def direction_as_u8_def split: if_splits)

text \<open>The validity of a fragment as one condition over the naturals.\<close>

definition fragment_ok :: "udp_fragment \<Rightarrow> bool" where
  "fragment_ok f \<longleftrightarrow>
     uf_session_id f \<noteq> 0 \<and>
     0 < unat (uf_fragment_count f) \<and> unat (uf_fragment_count f) \<le> 64 \<and>
     unat (uf_fragment_index f) < unat (uf_fragment_count f) \<and>
     unat (uf_original_length f) \<le> 65507 \<and>
     length (uf_payload f) \<le> unat (uf_original_length f) \<and>
     (unat (uf_original_length f) = 0 \<longrightarrow> unat (uf_fragment_count f) = 1) \<and>
     (unat (uf_original_length f) > 0 \<longrightarrow> uf_payload f \<noteq> []) \<and>
     (unat (uf_fragment_count f) = 1 \<longleftrightarrow> length (uf_payload f) = unat (uf_original_length f))"

lemma u16_unat_simps:
  fixes c :: u16
  shows "c = 0 \<longleftrightarrow> unat c = 0" "c = 1 \<longleftrightarrow> unat c = 1" "c > 1 \<longleftrightarrow> unat c > 1"
    "c > 64 \<longleftrightarrow> unat c > 64"
proof -
  show "c = 0 \<longleftrightarrow> unat c = 0" by (simp add: unat_eq_0)
  have one: "unat (1 :: u16) = 1" and n64: "unat (64 :: u16) = 64" by simp_all
  show "c = 1 \<longleftrightarrow> unat c = 1" using one by (metis word_unat_eq_iff)
  show "c > 1 \<longleftrightarrow> unat c > 1" using one by (simp add: word_less_nat_alt)
  show "c > 64 \<longleftrightarrow> unat c > 64" using n64 by (simp add: word_less_nat_alt)
qed

lemma validate_fragment_ok_iff: "validate_fragment f = Ok () \<longleftrightarrow> fragment_ok f"
proof -
  have idx: "uf_fragment_index f \<ge> uf_fragment_count f \<longleftrightarrow>
      unat (uf_fragment_index f) \<ge> unat (uf_fragment_count f)"
    by (simp add: word_le_nat_alt)
  have idx0: "unat (uf_fragment_index f) < 1 \<longleftrightarrow> uf_fragment_index f = 0"
    by (simp add: unat_eq_0)
  show ?thesis
    unfolding validate_fragment_def fragment_ok_def is_nil_def Let_def MAX_UDP_FRAGMENTS_def
      MAX_UDP_DATAGRAM_BYTES_def u16_unat_simps idx
    using idx0 by (auto simp: u16_unat_simps)
qed

lemma udp_encode_ok_iff:
  "udp_encode f = Ok bs \<longleftrightarrow>
     fragment_ok f \<and>
     bs = UDP_DATAGRAM_MAGIC @ [UDP_DATAGRAM_VERSION] @ [direction_as_u8 (uf_direction f)]
           @ to_be_bytes (0 :: u16) @ to_be_bytes (uf_session_id f)
           @ to_be_bytes (uf_datagram_id f) @ to_be_bytes (uf_fragment_index f)
           @ to_be_bytes (uf_fragment_count f) @ to_be_bytes (uf_original_length f)
           @ uf_payload f"
  by (auto simp: udp_encode_def and_then_ok_iff validate_fragment_ok_iff)

lemma udp_encode_length: "udp_encode f = Ok bs \<Longrightarrow> length bs = 40 + length (uf_payload f)"
  by (simp add: udp_encode_ok_iff udp_defs)

section \<open>The codec is a bijection between valid fragments and accepted frames\<close>

lemma udp_decode_encode:
  assumes "udp_encode f = Ok bs"
  shows "udp_decode bs = Ok f"
proof -
  from assms have ok: "validate_fragment f = Ok ()"
    by (simp add: udp_encode_ok_iff validate_fragment_ok_iff)
  obtain i0 i1 where i: "to_be_bytes (uf_fragment_index f) = [i0, i1]"
    and idx: "from_be_bytes [i0, i1] = uf_fragment_index f" by (rule u16_bytes_cases)
  obtain c0 c1 where c: "to_be_bytes (uf_fragment_count f) = [c0, c1]"
    and cnt: "from_be_bytes [c0, c1] = uf_fragment_count f" by (rule u16_bytes_cases)
  have z: "to_be_bytes (0 :: u16) = [0, 0]" by code_simp
  have flags: "from_be_bytes [0, 0] = (0 :: u16)" by code_simp
  show ?thesis
    using assms ok idx cnt flags
    by (cases f) (auto simp: Let_def udp_encode_ok_iff udp_decode_def slice_def i c z udp_defs nth_append result_simps)
qed

lemma header_layout:
  assumes "40 \<le> length bs"
  shows "bs = slice 0 4 bs @ [bs ! 4] @ [bs ! 5] @ [bs ! 6, bs ! 7] @ slice 8 24 bs @ slice 24 32 bs
    @ [bs ! 32, bs ! 33] @ [bs ! 34, bs ! 35] @ slice 36 40 bs @ drop 40 bs"
proof -
  have "bs = slice 0 4 bs @ slice 4 5 bs @ slice 5 6 bs @ slice 6 8 bs @ slice 8 24 bs
      @ slice 24 32 bs @ slice 32 34 bs @ slice 34 36 bs @ slice 36 40 bs @ drop 40 bs"
    by (simp add: slice_drop)
  with assms show ?thesis
    using slice_one [of 4 bs] slice_one [of 5 bs] slice_two [of 6 bs] slice_two [of 32 bs]
      slice_two [of 34 bs]
    by simp
qed

lemma udp_encode_decode:
  assumes "udp_decode bs = Ok f"
  shows "udp_encode f = Ok bs"
proof -
  have len: "40 \<le> length bs" and magic: "slice 0 4 bs = UDP_DATAGRAM_MAGIC"
    and version: "bs ! 4 = UDP_DATAGRAM_VERSION"
    and dir: "direction_try_from (bs ! 5) = Ok (uf_direction f)"
    and flags: "from_be_bytes [bs ! 6, bs ! 7] = (0 :: u16)"
    and sid: "uf_session_id f = from_be_bytes (slice 8 24 bs)"
    and did: "uf_datagram_id f = from_be_bytes (slice 24 32 bs)"
    and idx: "uf_fragment_index f = from_be_bytes [bs ! 32, bs ! 33]"
    and cnt: "uf_fragment_count f = from_be_bytes [bs ! 34, bs ! 35]"
    and orig: "uf_original_length f = from_be_bytes (slice 36 40 bs)"
    and payload: "uf_payload f = drop 40 bs"
    and ok: "validate_fragment f = Ok ()"
    using assms
    by (auto simp: udp_decode_def Let_def and_then_ok_iff UDP_DATAGRAM_HEADER_BYTES_def split: if_splits)
  have "to_be_bytes (0 :: u16) = [bs ! 6, bs ! 7]"
    using arg_cong [OF flags, of to_be_bytes, symmetric] by simp
  moreover have "direction_as_u8 (uf_direction f) = bs ! 5" using dir by (rule direction_try_from_ok)
  ultimately show ?thesis
    using header_layout [OF len] len ok
    by (simp add: udp_encode_ok_iff validate_fragment_ok_iff [symmetric] magic version sid did idx cnt
        orig payload)
qed

interpretation udp_codec: canonical_codec udp_encode udp_decode
  by unfold_locales (fact udp_decode_encode, fact udp_encode_decode)

text \<open>
  C1. The LLUD header codec is exact in both directions: a frame decodes to a fragment if and
  only if encoding that fragment gives the frame, byte for byte. Decoding therefore accepts no
  second spelling of a fragment and encoding loses no field, for every fragment that passes
  validation and no other.
\<close>

theorem udp_frame_codec_exact: "udp_decode bs = Ok f \<longleftrightarrow> udp_encode f = Ok bs"
  by (rule udp_codec.dec_iff_enc)

section \<open>Splitting is complete, bounded and lossless\<close>

lemma enumerate_0_nth: "i < length xs \<Longrightarrow> enumerate 0 xs ! i = (i, xs ! i)"
  by (simp add: nth_enumerate_eq)

lemma length_datagram_fragments [simp]: "length (datagram_fragments d s i n cs l) = length cs"
  by (simp add: datagram_fragments_def)

lemma datagram_fragments_nth:
  "j < length cs \<Longrightarrow> datagram_fragments d s i n cs l ! j = chunk_fragment d s i j n l (cs ! j)"
  by (simp add: datagram_fragments_def enumerate_0_nth)

lemma datagram_fragments_payloads: "map uf_payload (datagram_fragments d s i n cs l) = cs"
  by (rule nth_equalityI) (simp_all add: datagram_fragments_nth chunk_fragment_def)

lemma piece_of_concat:
  assumes "c \<in> set cs" and "\<And>c. c \<in> set cs \<Longrightarrow> c \<noteq> []"
  shows "length c \<le> length (concat cs) \<and> (length cs = 1 \<longleftrightarrow> length c = length (concat cs))"
proof -
  from assms(1) obtain xs ys where cs: "cs = xs @ c # ys" by (auto simp: in_set_conv_decomp)
  have "length (concat zs) = 0 \<longleftrightarrow> zs = []" if "set zs \<subseteq> set cs" for zs
    using that assms(2) by (cases zs) auto
  from this [of xs] this [of ys] show ?thesis by (auto simp: cs)
qed

text \<open>The fragments of one datagram, as \<^const>\<open>fragment_datagram\<close> builds them before encoding.\<close>

definition split_datagram ::
  "udp_direction \<Rightarrow> uuid \<Rightarrow> u64 \<Rightarrow> bytes \<Rightarrow> nat \<Rightarrow> udp_fragment list" where
  "split_datagram direction session_id datagram_id payload k =
     (let cs = (if payload = [] then [[]] else chunks k payload) in
      datagram_fragments direction session_id datagram_id (of_nat (length cs)) cs (length payload))"

lemma split_datagram_ok:
  assumes "s \<noteq> 0" and "length payload \<le> 65507" and "0 < k" and "length payload \<le> 64 * k"
    and "f \<in> set (split_datagram d s i payload k)"
  shows "fragment_ok f"
proof (cases "payload = []")
  case True
  with assms show ?thesis
    by (auto simp: split_datagram_def datagram_fragments_def chunk_fragment_def fragment_ok_def)
next
  case False
  let ?cs = "chunks k payload"
  have n: "length ?cs \<le> 64" "0 < length ?cs"
    using assms(3,4) False
    by (auto simp: length_chunks div_ceil_le_iff chunks_step mult.commute)
  from assms(5) False obtain j where j: "j < length ?cs"
    and f: "f = chunk_fragment d s i j (of_nat (length ?cs)) (length payload) (?cs ! j)"
    by (auto simp: split_datagram_def Let_def in_set_conv_nth datagram_fragments_nth)
  have "unat (of_nat (length ?cs) :: u16) = length ?cs" "unat (of_nat j :: u16) = j"
    "unat (of_nat (length payload) :: u32) = length payload"
    using n j assms(2) by (auto intro!: unat_of_nat_small)
  moreover have mem: "?cs ! j \<in> set ?cs" using j by simp
  moreover have "length (?cs ! j) \<le> length payload \<and>
      (length ?cs = 1 \<longleftrightarrow> length (?cs ! j) = length payload)"
    using piece_of_concat [OF mem] chunks_bounds [OF assms(3), of _ payload]
    unfolding concat_chunks [OF assms(3)] by blast
  ultimately show ?thesis
    using n j assms(1-3) False chunks_bounds [of k "?cs ! j" payload]
    by (simp add: f chunk_fragment_def fragment_ok_def)
qed

lemma fragment_datagram_conv:
  "fragment_datagram d s i payload m =
     (if s = 0 then Err NilSessionId
      else if 65507 < length payload then Err (DatagramTooLarge (length payload))
      else if m \<le> 40 then Err FrameLimitTooSmall
      else if 64 * (m - 40) < length payload then Err TooManyFragments
      else map_result udp_encode (split_datagram d s i payload (m - 40)))"
proof -
  consider "m \<le> 40 \<or> payload = []" | "40 < m" "payload \<noteq> []" by fastforce
  then show ?thesis
  proof cases
    case 1
    then show ?thesis
      by (auto simp: fragment_datagram_def udp_defs is_nil_def split_datagram_def
          datagram_fragments_def Let_def split: sum.splits)
  next
    case 2
    then have "64 < div_ceil (length payload) (m - 40) \<longleftrightarrow> 64 * (m - 40) < length payload"
      using div_ceil_le_iff [of "m - 40" "length payload" 64] by (auto simp: not_le [symmetric])
    with 2 show ?thesis
      by (simp add: fragment_datagram_def udp_defs is_nil_def split_datagram_def Let_def length_chunks)
  qed
qed

lemma fragment_datagram_is_ok:
  assumes "s \<noteq> 0" "length payload \<le> 65507" "40 < m" "length payload \<le> 64 * (m - 40)"
  shows "is_ok (fragment_datagram d s i payload m)"
proof -
  have "udp_encode f = Ok (projr (udp_encode f))"
    if "f \<in> set (split_datagram d s i payload (m - 40))" for f
  proof -
    have "fragment_ok f" using assms by (intro split_datagram_ok [OF _ _ _ _ that]) auto
    then show ?thesis by (simp add: udp_encode_def validate_fragment_ok_iff [symmetric])
  qed
  then have "map_result udp_encode (split_datagram d s i payload (m - 40)) =
      Ok (map (projr \<circ> udp_encode) (split_datagram d s i payload (m - 40)))"
    by (intro map_result_all_ok) simp
  with assms show ?thesis by (simp add: fragment_datagram_conv)
qed

text \<open>
  C2. \<open>fragment_datagram\<close> succeeds exactly when the session id is not nil, the payload is a
  legal UDP datagram, the frame limit leaves room for payload bytes after the 40-byte header
  and 64 frames of that size hold the payload.
\<close>

theorem fragment_datagram_succeeds_iff:
  "is_ok (fragment_datagram d s i payload m) \<longleftrightarrow>
     s \<noteq> 0 \<and> length payload \<le> 65507 \<and> 40 < m \<and> length payload \<le> 64 * (m - 40)"
  using fragment_datagram_is_ok [of s payload m d i] by (auto simp: fragment_datagram_conv)

lemma split_datagram_payloads:
  "0 < k \<Longrightarrow> concat (map uf_payload (split_datagram d s i payload k)) = payload"
  by (auto simp: split_datagram_def Let_def datagram_fragments_payloads concat_chunks)

lemma split_datagram_length:
  "0 < k \<Longrightarrow> length (split_datagram d s i payload k) = max 1 (div_ceil (length payload) k)"
  using length_chunks [of k payload] chunks_step [of k payload]
  by (auto simp: split_datagram_def Let_def div_ceil_def max_def)

lemma split_datagram_piece:
  "0 < k \<Longrightarrow> f \<in> set (split_datagram d s i payload k) \<Longrightarrow> length (uf_payload f) \<le> k"
proof -
  assume k: "0 < k" and "f \<in> set (split_datagram d s i payload k)"
  then have "uf_payload f \<in> set (map uf_payload (split_datagram d s i payload k))" by simp
  with k show ?thesis
    by (auto simp: split_datagram_def Let_def datagram_fragments_payloads dest: chunks_bounds
        split: if_splits)
qed

text \<open>
  C3. What \<open>fragment_datagram\<close> sends is lossless and fits the carrier: every frame is within
  the frame limit, there are at most 64 of them (and at least one, also for an empty datagram),
  and decoding the frames one by one gives fragments whose payloads concatenate to the datagram.
\<close>

theorem fragment_datagram_lossless:
  assumes "fragment_datagram d s i payload m = Ok frames"
  shows "(\<exists>fs. map_result udp_decode frames = Ok fs \<and> concat (map uf_payload fs) = payload) \<and>
    (\<forall>frame \<in> set frames. length frame \<le> m) \<and> 1 \<le> length frames \<and> length frames \<le> 64"
proof -
  let ?fs = "split_datagram d s i payload (m - 40)"
  from assms have m: "40 < m" "length payload \<le> 64 * (m - 40)"
    and enc: "map_result udp_encode ?fs = Ok frames"
    by (auto simp: fragment_datagram_conv split: if_splits)
  have "length frame \<le> m" if "frame \<in> set frames" for frame
  proof -
    from enc that obtain f where "f \<in> set ?fs" "udp_encode f = Ok frame"
      by (blast dest: map_result_in_set)
    then show ?thesis using split_datagram_piece [of "m - 40" f d s i payload] m
      by (auto dest: udp_encode_length)
  qed
  moreover have "length frames = max 1 (div_ceil (length payload) (m - 40))"
    using map_result_length [OF enc] m by (simp add: split_datagram_length)
  moreover have "div_ceil (length payload) (m - 40) \<le> 64"
    using m by (simp add: div_ceil_le_iff mult.commute)
  ultimately show ?thesis
    using udp_codec.dec_all [OF enc] split_datagram_payloads [of "m - 40" d s i payload] m by auto
qed

theorem fragment_datagram_lossless_witness:
  "\<exists>frames fs. fragment_datagram PublicToTarget 7 9 [1, 2, 3, 4, 5] 42 = Ok frames \<and>
     map_result udp_decode frames = Ok fs \<and> concat (map uf_payload fs) = [1, 2, 3, 4, 5] \<and>
     (\<forall>frame \<in> set frames. length frame \<le> 42)"
proof -
  have "is_ok (fragment_datagram PublicToTarget 7 9 [1, 2, 3, 4, 5] 42)"
    by (rule fragment_datagram_is_ok) simp_all
  then obtain frames where "fragment_datagram PublicToTarget 7 9 [1, 2, 3, 4, 5] 42 = Ok frames"
    by (cases "fragment_datagram PublicToTarget 7 9 [1, 2, 3, 4, 5] 42") auto
  with fragment_datagram_lossless [OF this] show ?thesis by blast
qed

end
