(* ===== verification/Udp_Reassembly.thy ===== *)
theory Udp_Reassembly
  imports Udp_Protocol "HOL-Library.Monad_Syntax"
begin

text \<open>
  The bounded reassembly of LLUD fragments of \<open>crates/linklake-core/src/udp_reassembly.rs\<close>. The
  reassembler is a record with the fields of \<open>UdpReassembler\<close>; its methods take and return it.
  A method that could panic (an index out of range, a checked addition or subtraction that
  overflows, an \<open>expect\<close>) returns \<^const>\<open>None\<close> there.
\<close>

section \<open>Data\<close>

definition UDP_REASSEMBLY_TIMEOUT :: duration where
  "UDP_REASSEMBLY_TIMEOUT = 2 * 10 ^ 9"

definition REASSEMBLY_CLEANUP_INTERVAL :: duration where
  "REASSEMBLY_CLEANUP_INTERVAL = 100 * 10 ^ 6"

record udp_reassembly_config =
  rc_timeout :: duration
  rc_completed_retention :: duration
  rc_max_buffered_bytes :: usize
  rc_max_incomplete_per_session :: usize
  rc_max_incomplete_datagrams :: usize
  rc_max_completed_datagrams :: usize

definition default_reassembly_config :: udp_reassembly_config where
  "default_reassembly_config =
     \<lparr>rc_timeout = UDP_REASSEMBLY_TIMEOUT,
      rc_completed_retention = UDP_REASSEMBLY_TIMEOUT,
      rc_max_buffered_bytes = 8 * 1024 * 1024,
      rc_max_incomplete_per_session = 4,
      rc_max_incomplete_datagrams = 4096,
      rc_max_completed_datagrams = 4096\<rparr>"

record datagram_key =
  dk_direction :: udp_direction
  dk_session_id :: uuid
  dk_datagram_id :: u64

definition key_of_fragment :: "udp_fragment \<Rightarrow> datagram_key" where
  "key_of_fragment f =
     \<lparr>dk_direction = uf_direction f, dk_session_id = uf_session_id f, dk_datagram_id = uf_datagram_id f\<rparr>"

record partial_datagram =
  pd_started_at :: instant
  pd_original_length :: usize
  pd_fragment_count :: u16
  pd_fragments :: "bytes option list"
  pd_received_fragments :: usize
  pd_received_bytes :: usize

datatype udp_reassembly_outcome = Pending | Duplicate | Complete bytes

record udp_reassembly_expiration =
  ex_incomplete_datagrams :: usize
  ex_buffered_bytes :: usize
  ex_completed_datagrams :: usize

definition default_expiration :: udp_reassembly_expiration where
  "default_expiration =
     \<lparr>ex_incomplete_datagrams = 0, ex_buffered_bytes = 0, ex_completed_datagrams = 0\<rparr>"

datatype udp_reassembly_error =
    InvalidFragment udp_protocol_error
  | InvalidConfiguration
  | MemoryLimit
  | IncompleteDatagramLimit
  | SessionIncompleteLimit
  | MetadataMismatch
  | ConflictingFragment
  | DeclaredLengthExceeded
  | CompletedLengthMismatch

record udp_reassembler =
  ra_config :: udp_reassembly_config
  ra_partials :: "(datagram_key, partial_datagram) hashmap"
  ra_incomplete_by_session :: "(uuid, usize) hashmap"
  ra_completed :: "(datagram_key, instant) hashmap"
  ra_completed_order :: "(datagram_key \<times> instant) list"
  ra_buffered_bytes :: usize
  ra_next_cleanup_at :: "instant option"

definition reassembler_new :: "udp_reassembly_config \<Rightarrow> udp_reassembly_error + udp_reassembler" where
  "reassembler_new config =
     (if rc_max_buffered_bytes config = 0 \<or> rc_max_incomplete_per_session config = 0
         \<or> rc_max_incomplete_datagrams config = 0 \<or> rc_max_completed_datagrams config = 0
      then Err InvalidConfiguration
      else Ok \<lparr>ra_config = config, ra_partials = [], ra_incomplete_by_session = [],
        ra_completed = [], ra_completed_order = [], ra_buffered_bytes = 0,
        ra_next_cleanup_at = None\<rparr>)"

section \<open>Helpers of the reassembler\<close>

definition elapsed_at_least :: "instant \<Rightarrow> instant \<Rightarrow> duration \<Rightarrow> bool" where
  "elapsed_at_least now earlier duration \<longleftrightarrow>
     (case checked_sub now earlier of Some d \<Rightarrow> d | None \<Rightarrow> 0) \<ge> duration"

definition remove_partial ::
  "datagram_key \<Rightarrow> udp_reassembler \<Rightarrow> (udp_reassembler \<times> partial_datagram option) option" where
  "remove_partial key r =
     (case hm_get (ra_partials r) key of
        None \<Rightarrow> Some (r, None)
      | Some partial \<Rightarrow>
          (let r = r\<lparr>ra_partials := hm_remove key (ra_partials r),
                     ra_buffered_bytes := saturating_sub (ra_buffered_bytes r) (pd_original_length partial)\<rparr>;
               session = dk_session_id key
           in case hm_get (ra_incomplete_by_session r) session of
                None \<Rightarrow> Some (r, Some partial)
              | Some count \<Rightarrow>
                  do {
                    count \<leftarrow> checked_sub count 1;
                    Some (r\<lparr>ra_incomplete_by_session :=
                        (if count = 0 then hm_remove session (ra_incomplete_by_session r)
                         else hm_insert session count (ra_incomplete_by_session r))\<rparr>, Some partial)
                  }))"

fun evict_loop ::
  "(datagram_key, instant) hashmap \<Rightarrow> (datagram_key \<times> instant) list
     \<Rightarrow> (datagram_key, instant) hashmap \<times> (datagram_key \<times> instant) list" where
  "evict_loop completed [] = (completed, [])"
| "evict_loop completed ((key, completed_at) # order) =
     (if hm_get completed key = Some completed_at then (hm_remove key completed, order)
      else evict_loop completed order)"

definition evict_oldest_completed :: "udp_reassembler \<Rightarrow> udp_reassembler" where
  "evict_oldest_completed r =
     (let (completed, order) = evict_loop (ra_completed r) (ra_completed_order r) in
      r\<lparr>ra_completed := completed, ra_completed_order := order\<rparr>)"

definition compact_completed_order :: "udp_reassembler \<Rightarrow> udp_reassembler" where
  "compact_completed_order r =
     r\<lparr>ra_completed_order :=
        filter (\<lambda>(key, completed_at). hm_get (ra_completed r) key = Some completed_at)
          (ra_completed_order r)\<rparr>"

definition remember_completed :: "datagram_key \<Rightarrow> instant \<Rightarrow> udp_reassembler \<Rightarrow> udp_reassembler" where
  "remember_completed key now r =
     (let limit = rc_max_completed_datagrams (ra_config r);
          r = (if length (ra_completed r) \<ge> limit then evict_oldest_completed r else r);
          r = r\<lparr>ra_completed := hm_insert key now (ra_completed r),
                ra_completed_order := ra_completed_order r @ [(key, now)]\<rparr>
      in if length (ra_completed_order r) > saturating_mul limit 2
         then compact_completed_order r else r)"

definition insert_partial ::
  "datagram_key \<Rightarrow> udp_fragment \<Rightarrow> instant \<Rightarrow> udp_reassembler
     \<Rightarrow> (udp_reassembler \<times> (udp_reassembly_error + unit)) option" where
  "insert_partial key fragment now r =
     (let config = ra_config r;
          session = uf_session_id fragment;
          per_session = (case hm_get (ra_incomplete_by_session r) session of Some n \<Rightarrow> n | None \<Rightarrow> 0);
          reserved_bytes = unat (uf_original_length fragment)
      in if length (ra_partials r) \<ge> rc_max_incomplete_datagrams config
           then Some (r, Err IncompleteDatagramLimit)
         else if per_session \<ge> rc_max_incomplete_per_session config
           then Some (r, Err SessionIncompleteLimit)
         else if saturating_add (ra_buffered_bytes r) reserved_bytes > rc_max_buffered_bytes config
           then Some (r, Err MemoryLimit)
         else let partial =
             \<lparr>pd_started_at = now, pd_original_length = reserved_bytes,
              pd_fragment_count = uf_fragment_count fragment,
              pd_fragments = replicate (unat (uf_fragment_count fragment)) None,
              pd_received_fragments = 0, pd_received_bytes = 0\<rparr>
           in do {
             buffered \<leftarrow> checked_add (ra_buffered_bytes r) reserved_bytes;
             count \<leftarrow> checked_add per_session 1;
             Some (r\<lparr>ra_partials := hm_insert key partial (ra_partials r),
                     ra_buffered_bytes := buffered,
                     ra_incomplete_by_session :=
                       hm_insert session count (ra_incomplete_by_session r)\<rparr>, Ok ())
           })"

section \<open>Expiry and session teardown\<close>

fun remove_partials ::
  "datagram_key list \<Rightarrow> udp_reassembler \<Rightarrow> udp_reassembly_expiration
     \<Rightarrow> (udp_reassembler \<times> udp_reassembly_expiration) option" where
  "remove_partials [] r expiration = Some (r, expiration)"
| "remove_partials (key # keys) r expiration =
     do {
       (r, removed) \<leftarrow> remove_partial key r;
       remove_partials keys r
         (case removed of
            None \<Rightarrow> expiration
          | Some partial \<Rightarrow>
              expiration\<lparr>ex_incomplete_datagrams := ex_incomplete_datagrams expiration + 1,
                         ex_buffered_bytes := ex_buffered_bytes expiration + pd_original_length partial\<rparr>)
     }"

fun expire_completed ::
  "instant \<Rightarrow> duration \<Rightarrow> (datagram_key, instant) hashmap \<Rightarrow> (datagram_key \<times> instant) list \<Rightarrow> nat
     \<Rightarrow> (datagram_key, instant) hashmap \<times> (datagram_key \<times> instant) list \<times> nat" where
  "expire_completed now retention completed [] n = (completed, [], n)"
| "expire_completed now retention completed ((key, completed_at) # order) n =
     (let is_current = hm_get completed key = Some completed_at in
      if is_current \<and> \<not> elapsed_at_least now completed_at retention
      then (completed, (key, completed_at) # order, n)
      else if is_current then expire_completed now retention (hm_remove key completed) order (n + 1)
      else expire_completed now retention completed order n)"

definition expire ::
  "instant \<Rightarrow> udp_reassembler \<Rightarrow> (udp_reassembler \<times> udp_reassembly_expiration) option" where
  "expire now r =
     (if (case ra_next_cleanup_at r of Some deadline \<Rightarrow> now < deadline | None \<Rightarrow> False)
      then Some (r, default_expiration)
      else let r = r\<lparr>ra_next_cleanup_at := Some (now + REASSEMBLY_CLEANUP_INTERVAL)\<rparr>;
               expired_partial_keys = map fst (filter (\<lambda>(key, partial).
                 elapsed_at_least now (pd_started_at partial) (rc_timeout (ra_config r))) (ra_partials r))
        in do {
          (r, expiration) \<leftarrow> remove_partials expired_partial_keys r default_expiration;
          let (completed, order, n) = expire_completed now (rc_completed_retention (ra_config r))
                (ra_completed r) (ra_completed_order r) (ex_completed_datagrams expiration);
          Some (r\<lparr>ra_completed := completed, ra_completed_order := order\<rparr>,
                expiration\<lparr>ex_completed_datagrams := n\<rparr>)
        })"

fun discard_completed ::
  "datagram_key list \<Rightarrow> (datagram_key, instant) hashmap \<Rightarrow> nat \<Rightarrow> (datagram_key, instant) hashmap \<times> nat" where
  "discard_completed [] completed n = (completed, n)"
| "discard_completed (key # keys) completed n =
     (if hm_get completed key \<noteq> None then discard_completed keys (hm_remove key completed) (n + 1)
      else discard_completed keys completed n)"

definition discard_session ::
  "uuid \<Rightarrow> udp_reassembler \<Rightarrow> (udp_reassembler \<times> udp_reassembly_expiration) option" where
  "discard_session session_id r =
     (let partial_keys = filter (\<lambda>key. dk_session_id key = session_id) (map fst (ra_partials r)) in
      do {
        (r, expiration) \<leftarrow> remove_partials partial_keys r default_expiration;
        let completed_keys = filter (\<lambda>key. dk_session_id key = session_id) (map fst (ra_completed r));
        let (completed, n) =
          discard_completed completed_keys (ra_completed r) (ex_completed_datagrams expiration);
        Some (r\<lparr>ra_completed := completed\<rparr>, expiration\<lparr>ex_completed_datagrams := n\<rparr>)
      })"

section \<open>Accepting a fragment\<close>

text \<open>
  The block of \<open>push\<close> that updates the partial datagram in place: a failure that drops it, a
  duplicate, or the updated record and whether it is now complete.
\<close>

datatype slot_result =
    SlotFailure udp_reassembly_error
  | SlotDuplicate
  | SlotStored partial_datagram bool

definition store_fragment :: "udp_fragment \<Rightarrow> partial_datagram \<Rightarrow> slot_result option" where
  "store_fragment fragment partial =
     (let index = unat (uf_fragment_index fragment); payload = uf_payload fragment in
      if pd_original_length partial \<noteq> unat (uf_original_length fragment)
         \<or> pd_fragment_count partial \<noteq> uf_fragment_count fragment
      then Some (SlotFailure MetadataMismatch)
      else if length (pd_fragments partial) \<le> index then None
      else case pd_fragments partial ! index of
        Some existing \<Rightarrow>
          Some (if existing = payload then SlotDuplicate else SlotFailure ConflictingFragment)
      | None \<Rightarrow> do {
          bytes \<leftarrow> checked_add (pd_received_bytes partial) (length payload);
          if bytes > pd_original_length partial then Some (SlotFailure DeclaredLengthExceeded)
          else do {
            received \<leftarrow> checked_add (pd_received_fragments partial) 1;
            Some (SlotStored (partial\<lparr>pd_received_bytes := bytes,
                               pd_received_fragments := received,
                               pd_fragments := (pd_fragments partial)[index := Some payload]\<rparr>)
                    (received = unat (pd_fragment_count partial)))
          }
        })"

fun collect_fragments :: "bytes option list \<Rightarrow> bytes option" where
  "collect_fragments [] = Some []"
| "collect_fragments (slot # slots) =
     do { fragment \<leftarrow> slot; rest \<leftarrow> collect_fragments slots; Some (fragment @ rest) }"

definition finish_datagram ::
  "datagram_key \<Rightarrow> instant \<Rightarrow> udp_reassembler
     \<Rightarrow> (udp_reassembler \<times> (udp_reassembly_error + udp_reassembly_outcome)) option" where
  "finish_datagram key now r =
     do {
       (r, removed) \<leftarrow> remove_partial key r;
       partial \<leftarrow> removed;
       if pd_received_bytes partial \<noteq> pd_original_length partial
       then Some (r, Err CompletedLengthMismatch)
       else do {
         payload \<leftarrow> collect_fragments (pd_fragments partial);
         if length payload \<noteq> pd_original_length partial then Some (r, Err CompletedLengthMismatch)
         else Some (remember_completed key now r, Ok (Complete payload))
       }
     }"

definition push_into_partial ::
  "datagram_key \<Rightarrow> udp_fragment \<Rightarrow> instant \<Rightarrow> udp_reassembler
     \<Rightarrow> (udp_reassembler \<times> (udp_reassembly_error + udp_reassembly_outcome)) option" where
  "push_into_partial key fragment now r =
     do {
       partial \<leftarrow> hm_get (ra_partials r) key;
       result \<leftarrow> store_fragment fragment partial;
       case result of
         SlotFailure error \<Rightarrow> do { (r, _) \<leftarrow> remove_partial key r; Some (r, Err error) }
       | SlotDuplicate \<Rightarrow> Some (r, Ok Duplicate)
       | SlotStored partial complete \<Rightarrow>
           (let r = r\<lparr>ra_partials := hm_insert key partial (ra_partials r)\<rparr> in
            if complete then finish_datagram key now r else Some (r, Ok Pending))
     }"

definition push ::
  "udp_fragment \<Rightarrow> instant \<Rightarrow> udp_reassembler
     \<Rightarrow> (udp_reassembler \<times> (udp_reassembly_error + udp_reassembly_outcome)) option" where
  "push fragment now r =
     (case validate_fragment fragment of
        Inl e \<Rightarrow> Some (r, Err (InvalidFragment e))
      | Inr _ \<Rightarrow> do {
          (r, _) \<leftarrow> expire now r;
          let key = key_of_fragment fragment;
          if hm_get (ra_completed r) key \<noteq> None then Some (r, Ok Duplicate)
          else if uf_original_length fragment = 0
          then Some (remember_completed key now r, Ok (Complete []))
          else if hm_get (ra_partials r) key = None then do {
            (r, inserted) \<leftarrow> insert_partial key fragment now r;
            case inserted of
              Inl e \<Rightarrow> Some (r, Err e)
            | Inr _ \<Rightarrow> push_into_partial key fragment now r
          }
          else push_into_partial key fragment now r
        })"

section \<open>The invariant\<close>

definition slot_bytes :: "bytes option list \<Rightarrow> nat" where
  "slot_bytes slots = sum_list (map (\<lambda>slot. case slot of None \<Rightarrow> 0 | Some b \<Rightarrow> length b) slots)"

definition slots_filled :: "bytes option list \<Rightarrow> nat" where
  "slots_filled slots = sum_list (map (\<lambda>slot. case slot of None \<Rightarrow> 0 | Some b \<Rightarrow> 1) slots)"

definition partial_wf :: "partial_datagram \<Rightarrow> bool" where
  "partial_wf p \<longleftrightarrow>
     length (pd_fragments p) = unat (pd_fragment_count p) \<and>
     unat (pd_fragment_count p) \<le> 64 \<and> 0 < pd_original_length p \<and> pd_original_length p \<le> 65507 \<and>
     pd_received_fragments p = slots_filled (pd_fragments p) \<and>
     pd_received_bytes p = slot_bytes (pd_fragments p) \<and>
     pd_received_bytes p \<le> pd_original_length p"

definition session_partials :: "uuid \<Rightarrow> (datagram_key, partial_datagram) hashmap \<Rightarrow> nat" where
  "session_partials s ps = sum_list (map (\<lambda>(key, _). if dk_session_id key = s then 1 else 0) ps)"

definition reserved_total :: "(datagram_key, partial_datagram) hashmap \<Rightarrow> nat" where
  "reserved_total ps = sum_list (map (\<lambda>(_, p). pd_original_length p) ps)"

definition config_ok :: "udp_reassembly_config \<Rightarrow> bool" where
  "config_ok c \<longleftrightarrow>
     0 < rc_max_buffered_bytes c \<and> rc_max_buffered_bytes c < usize_max \<and>
     0 < rc_max_incomplete_per_session c \<and> rc_max_incomplete_per_session c \<le> usize_max \<and>
     0 < rc_max_incomplete_datagrams c \<and> 0 < rc_max_completed_datagrams c"

text \<open>
  The accounting of the partial datagrams, and of the record of completed ones: the counters
  are the sums they stand for and every limit of the configuration holds.
\<close>

definition partials_accounted :: "udp_reassembler \<Rightarrow> bool" where
  "partials_accounted r \<longleftrightarrow>
     config_ok (ra_config r) \<and>
     hm_distinct (ra_partials r) \<and> hm_distinct (ra_incomplete_by_session r) \<and>
     ra_buffered_bytes r = reserved_total (ra_partials r) \<and>
     ra_buffered_bytes r \<le> rc_max_buffered_bytes (ra_config r) \<and>
     length (ra_partials r) \<le> rc_max_incomplete_datagrams (ra_config r) \<and>
     (\<forall>s. hm_get (ra_incomplete_by_session r) s =
        (if session_partials s (ra_partials r) = 0 then None else Some (session_partials s (ra_partials r)))) \<and>
     (\<forall>s. session_partials s (ra_partials r) \<le> rc_max_incomplete_per_session (ra_config r))"

definition completed_accounted :: "udp_reassembler \<Rightarrow> bool" where
  "completed_accounted r \<longleftrightarrow>
     hm_distinct (ra_completed r) \<and>
     set (ra_completed r) \<subseteq> set (ra_completed_order r) \<and>
     length (ra_completed r) \<le> rc_max_completed_datagrams (ra_config r)"

definition partials_wf :: "datagram_key set \<Rightarrow> udp_reassembler \<Rightarrow> bool" where
  "partials_wf except r \<longleftrightarrow>
     (\<forall>key p. hm_get (ra_partials r) key = Some p \<longrightarrow>
        partial_wf p \<and> (key \<notin> except \<longrightarrow> pd_received_fragments p < unat (pd_fragment_count p)))"

definition reassembler_inv :: "udp_reassembler \<Rightarrow> bool" where
  "reassembler_inv r \<longleftrightarrow> partials_accounted r \<and> completed_accounted r \<and> partials_wf {} r"

section \<open>Removing partial datagrams\<close>

lemma session_partials_remove:
  assumes "hm_distinct ps" and "hm_get ps key = Some p"
  shows "session_partials s ps =
    session_partials s (hm_remove key ps) + (if dk_session_id key = s then 1 else 0)"
  using hm_sum_remove [OF assms, of "\<lambda>(key, _). if dk_session_id key = s then 1 else 0"]
  by (simp add: session_partials_def)

lemma reserved_total_remove:
  assumes "hm_distinct ps" and "hm_get ps key = Some p"
  shows "reserved_total ps = reserved_total (hm_remove key ps) + pd_original_length p"
  using hm_sum_remove [OF assms, of "\<lambda>(_, p). pd_original_length p"]
  by (simp add: reserved_total_def)

lemma session_partials_append:
  "session_partials s (ps @ [(key, p)]) = session_partials s ps + (if dk_session_id key = s then 1 else 0)"
  by (simp add: session_partials_def)

lemma reserved_total_append: "reserved_total (ps @ [(key, p)]) = reserved_total ps + pd_original_length p"
  by (simp add: reserved_total_def)

text \<open>What the operations on partial datagrams leave alone.\<close>

definition same_completed :: "udp_reassembler \<Rightarrow> udp_reassembler \<Rightarrow> bool" where
  "same_completed r r' \<longleftrightarrow>
     ra_config r' = ra_config r \<and> ra_completed r' = ra_completed r \<and>
     ra_completed_order r' = ra_completed_order r"

lemma same_completed_refl [simp]: "same_completed r r"
  by (simp add: same_completed_def)

lemma same_completed_trans: "same_completed r s \<Longrightarrow> same_completed s t \<Longrightarrow> same_completed r t"
  by (simp add: same_completed_def)

lemma same_completed_accounted: "same_completed r r' \<Longrightarrow> completed_accounted r' = completed_accounted r"
  by (simp add: same_completed_def completed_accounted_def)

lemma remove_partial_spec:
  assumes acc: "partials_accounted r"
  obtains r' where "remove_partial key r = Some (r', hm_get (ra_partials r) key)"
    and "partials_accounted r'" and "same_completed r r'"
    and "ra_partials r' = hm_remove key (ra_partials r)"
proof (cases "hm_get (ra_partials r) key")
  case None
  with acc that show ?thesis by (simp add: remove_partial_def hm_remove_absent)
next
  case (Some p)
  have d: "hm_distinct (ra_partials r)" using acc by (simp add: partials_accounted_def)
  let ?s = "dk_session_id key" and ?ps = "hm_remove key (ra_partials r)"
  let ?sessions = "if session_partials ?s ?ps = 0 then hm_remove ?s (ra_incomplete_by_session r)
    else hm_insert ?s (session_partials ?s ?ps) (ra_incomplete_by_session r)"
  let ?r = "r\<lparr>ra_partials := ?ps, ra_buffered_bytes := reserved_total ?ps,
    ra_incomplete_by_session := ?sessions\<rparr>"
  note sess = session_partials_remove [OF d Some] and res = reserved_total_remove [OF d Some]
  have "remove_partial key r = Some (?r, Some p)"
    using acc Some sess [of ?s] res
    by (simp add: remove_partial_def partials_accounted_def checked_sub_def saturating_sub_def Let_def)
  moreover have "partials_accounted ?r"
  proof -
    have "length (ra_partials r) = Suc (length ?ps)" by (rule hm_length_remove [OF d Some])
    moreover have "session_partials s ?ps \<le> rc_max_incomplete_per_session (ra_config r)" for s
      using acc sess [of s] unfolding partials_accounted_def by (metis add_leD1)
    ultimately show ?thesis
      using acc res sess unfolding partials_accounted_def by auto
  qed
  ultimately show ?thesis using Some by (intro that [of ?r]) (simp_all add: same_completed_def)
qed

lemma remove_partials_spec:
  assumes "partials_accounted r"
  obtains r' e' where "remove_partials keys r e = Some (r', e')"
    and "partials_accounted r'" and "same_completed r r'"
    and "\<And>k. hm_get (ra_partials r') k = (if k \<in> set keys then None else hm_get (ra_partials r) k)"
  using assms
proof (induction keys arbitrary: r e thesis)
  case Nil
  then show ?case by simp
next
  case (Cons key keys)
  obtain r1 where r1: "remove_partial key r = Some (r1, hm_get (ra_partials r) key)"
    "partials_accounted r1" "same_completed r r1" "ra_partials r1 = hm_remove key (ra_partials r)"
    using remove_partial_spec [OF Cons.prems(2)] by blast
  define e1 where "e1 = (case hm_get (ra_partials r) key of None \<Rightarrow> e | Some partial \<Rightarrow>
    e\<lparr>ex_incomplete_datagrams := ex_incomplete_datagrams e + 1,
      ex_buffered_bytes := ex_buffered_bytes e + pd_original_length partial\<rparr>)"
  obtain r2 e2 where r2: "remove_partials keys r1 e1 = Some (r2, e2)" "partials_accounted r2"
    "same_completed r1 r2"
    "\<And>k. hm_get (ra_partials r2) k = (if k \<in> set keys then None else hm_get (ra_partials r1) k)"
    using Cons.IH [OF _ r1(2)] by blast
  show ?case
  proof (rule Cons.prems(1))
    show "remove_partials (key # keys) r e = Some (r2, e2)"
      using r1 r2 by (simp add: e1_def [symmetric])
  qed (use r1 r2 same_completed_trans in auto)
qed

section \<open>The record of completed datagrams\<close>

lemma hm_remove_subset: "set (hm_remove k m) \<subseteq> set m"
  by (auto simp: AList.delete_eq)

lemma hm_remove_drops: "(k, v) \<notin> set (hm_remove k m)"
  by (auto simp: AList.delete_eq)

text \<open>An entry can leave the queue once the map no longer holds it under that instant.\<close>

lemma completed_pop:
  assumes "hm_distinct completed" and "set completed \<subseteq> set ((key, t) # order)"
    and "hm_get completed key \<noteq> Some t"
  shows "set completed \<subseteq> set order"
proof -
  have "(key, t) \<notin> set completed" using assms(1,3) by (simp only: hm_in_iff not_False_eq_True)
  with assms(2) show ?thesis by auto
qed

lemma completed_remove_pop:
  assumes "set completed \<subseteq> set ((key, t) # order)"
  shows "set (hm_remove key completed) \<subseteq> set order"
proof
  fix e assume e: "e \<in> set (hm_remove key completed)"
  then have "e \<in> set ((key, t) # order)" using assms hm_remove_subset by (metis subsetD)
  moreover have "e \<noteq> (key, t)" using e hm_remove_drops by metis
  ultimately show "e \<in> set order" by simp
qed

lemma hm_remove_keeps:
  "hm_distinct m \<Longrightarrow> hm_get m k = Some v \<Longrightarrow> e \<in> set m \<Longrightarrow> e \<noteq> (k, v) \<Longrightarrow> e \<in> set (hm_remove k m)"
  by (cases e) (auto simp: AList.delete_eq dest: eq_key_imp_eq_value)

lemma expire_completed_spec:
  assumes "hm_distinct completed" and "set completed \<subseteq> set order"
    and "expire_completed now retention completed order n = (completed', order', n')"
  shows "hm_distinct completed' \<and> set completed' \<subseteq> set order' \<and> set completed' \<subseteq> set completed \<and>
    n' + length completed' = n + length completed \<and> n \<le> n' \<and>
    set completed \<inter> {(k, t). \<not> elapsed_at_least now t retention} \<subseteq> set completed'"
  using assms
proof (induction order arbitrary: completed n)
  case Nil
  then show ?case by auto
next
  case (Cons e order)
  obtain key t where e: "e = (key, t)" by (cases e)
  consider (keep) "hm_get completed key = Some t" "\<not> elapsed_at_least now t retention"
    | (drop) "hm_get completed key = Some t" "elapsed_at_least now t retention"
    | (stale) "hm_get completed key \<noteq> Some t" by blast
  then show ?case
  proof cases
    case keep
    then have "completed' = completed" "order' = e # order" "n' = n"
      using Cons.prems(3) by (simp_all add: e)
    with Cons.prems(1,2) show ?thesis by blast
  next
    case drop
    then have run: "expire_completed now retention (hm_remove key completed) order (n + 1) =
        (completed', order', n')" using Cons.prems(3) by (simp add: e)
    have "set (hm_remove key completed) \<subseteq> set order"
      using Cons.prems(2) by (intro completed_remove_pop) (simp add: e)
    note ih = Cons.IH [OF hm_distinct_remove [OF Cons.prems(1)] this run]
    moreover have "set completed \<inter> {(k, t). \<not> elapsed_at_least now t retention} \<subseteq>
        set (hm_remove key completed)"
      using hm_remove_keeps [OF Cons.prems(1) drop(1)] drop(2) by auto
    moreover have "n' + length completed' = n + length completed \<and> n \<le> n'"
      using ih hm_length_remove [OF Cons.prems(1) drop(1)] by linarith
    ultimately show ?thesis using hm_remove_subset [of key completed] by blast
  next
    case stale
    then have run: "expire_completed now retention completed order n = (completed', order', n')"
      using Cons.prems(3) by (simp add: e)
    have "set completed \<subseteq> set order"
      using completed_pop [OF Cons.prems(1) _ stale] Cons.prems(2) by (simp add: e)
    from Cons.IH [OF Cons.prems(1) this run] show ?thesis .
  qed
qed

lemma evict_loop_spec:
  assumes "hm_distinct completed" and "set completed \<subseteq> set order" and "completed \<noteq> []"
    and "evict_loop completed order = (completed', order')"
  shows "hm_distinct completed' \<and> set completed' \<subseteq> set order' \<and> set order' \<subseteq> set order \<and>
    set completed' \<subseteq> set completed \<and> length completed = Suc (length completed') \<and>
    (distinct order \<longrightarrow> distinct order')"
  using assms
proof (induction order)
  case Nil
  from Nil(2,3) show ?case by simp
next
  case (Cons e order)
  obtain key t where e: "e = (key, t)" by (cases e)
  show ?case
  proof (cases "hm_get completed key = Some t")
    case True
    then have eqs: "completed' = hm_remove key completed" "order' = order"
      using Cons.prems(4) by (simp_all add: e)
    have "set (hm_remove key completed) \<subseteq> set order"
      using Cons.prems(2) by (intro completed_remove_pop) (simp add: e)
    moreover have "distinct (e # order) \<longrightarrow> distinct order" "set order \<subseteq> set (e # order)" by auto
    ultimately show ?thesis
      using hm_length_remove [OF Cons.prems(1) True] hm_remove_subset [of key completed]
        hm_distinct_remove [OF Cons.prems(1)] unfolding eqs by blast
  next
    case False
    then have run: "evict_loop completed order = (completed', order')" using Cons.prems(4) by (simp add: e)
    have sub: "set completed \<subseteq> set order"
      using completed_pop [OF Cons.prems(1) _ False] Cons.prems(2) by (simp add: e)
    show ?thesis using Cons.IH [OF Cons.prems(1) sub Cons.prems(3) run] by auto
  qed
qed

text \<open>Remembering a completed datagram never holds more than the configured number of them.\<close>

lemma remember_completed_spec:
  assumes acc: "completed_accounted r" and limit: "0 < rc_max_completed_datagrams (ra_config r)"
    and new: "hm_get (ra_completed r) key = None"
  shows "completed_accounted (remember_completed key now r) \<and>
    hm_get (ra_completed (remember_completed key now r)) key = Some now \<and>
    fst ` set (ra_completed (remember_completed key now r)) \<subseteq> insert key (fst ` set (ra_completed r))"
proof -
  let ?max = "rc_max_completed_datagrams (ra_config r)"
  define r1 where "r1 = (if length (ra_completed r) \<ge> ?max then evict_oldest_completed r else r)"
  have r1: "hm_distinct (ra_completed r1)" "set (ra_completed r1) \<subseteq> set (ra_completed_order r1)"
    "length (ra_completed r1) < ?max" "set (ra_completed r1) \<subseteq> set (ra_completed r)"
    "ra_config r1 = ra_config r"
  proof -
    obtain c o' where ev: "evict_loop (ra_completed r) (ra_completed_order r) = (c, o')" by fastforce
    have "length (ra_completed r) \<ge> ?max \<Longrightarrow> ra_completed r \<noteq> []" using limit by auto
    with evict_loop_spec [OF _ _ _ ev] acc
    show "hm_distinct (ra_completed r1)" "set (ra_completed r1) \<subseteq> set (ra_completed_order r1)"
      "length (ra_completed r1) < ?max" "set (ra_completed r1) \<subseteq> set (ra_completed r)"
      "ra_config r1 = ra_config r"
      by (auto simp: r1_def evict_oldest_completed_def ev completed_accounted_def)
  qed
  have new1: "hm_get (ra_completed r1) key = None"
    using r1(4) new by (metis map_of_SomeD not_Some_eq subsetD weak_map_of_SomeI)
  define r2 where "r2 = r1\<lparr>ra_completed := hm_insert key now (ra_completed r1),
    ra_completed_order := ra_completed_order r1 @ [(key, now)]\<rparr>"
  have "completed_accounted r2" using r1 new1
    by (auto simp: r2_def completed_accounted_def hm_insert_new)
  moreover have "completed_accounted (compact_completed_order r2)" if "completed_accounted r2"
    using that by (auto simp: completed_accounted_def compact_completed_order_def)
  moreover have "remember_completed key now r =
      (if length (ra_completed_order r2) > saturating_mul ?max 2 then compact_completed_order r2 else r2)"
    by (simp add: remember_completed_def r1_def r2_def Let_def)
  moreover have "hm_get (ra_completed r2) key = Some now" by (simp add: r2_def)
  moreover have "fst ` set (ra_completed r2) \<subseteq> insert key (fst ` set (ra_completed r))"
    using r1(4) new1 by (auto simp: r2_def hm_insert_new)
  ultimately show ?thesis by (simp add: compact_completed_order_def)
qed

section \<open>Every operation keeps the invariant\<close>

lemma partials_wf_le:
  "partials_wf except r \<Longrightarrow> map_of (ra_partials r') \<subseteq>\<^sub>m map_of (ra_partials r) \<Longrightarrow> partials_wf except r'"
  unfolding partials_wf_def map_le_def by (metis domIff option.distinct(1))

lemma expire_spec:
  assumes inv: "reassembler_inv r"
  obtains r' e where "expire now r = Some (r', e)" and "reassembler_inv r'"
    and "ra_config r' = ra_config r"
    and "map_of (ra_partials r') \<subseteq>\<^sub>m map_of (ra_partials r)"
    and "set (ra_completed r') \<subseteq> set (ra_completed r)"
    and "\<And>k p. hm_get (ra_partials r) k = Some p \<Longrightarrow>
      \<not> elapsed_at_least now (pd_started_at p) (rc_timeout (ra_config r)) \<Longrightarrow>
      hm_get (ra_partials r') k = Some p"
    and "\<And>k t. (k, t) \<in> set (ra_completed r) \<Longrightarrow>
      \<not> elapsed_at_least now t (rc_completed_retention (ra_config r)) \<Longrightarrow> (k, t) \<in> set (ra_completed r')"
proof (cases "case ra_next_cleanup_at r of Some deadline \<Rightarrow> now < deadline | None \<Rightarrow> False")
  case True
  with inv that [of r] show ?thesis by (simp add: expire_def)
next
  case False
  define r0 where "r0 = r\<lparr>ra_next_cleanup_at := Some (now + REASSEMBLY_CLEANUP_INTERVAL)\<rparr>"
  define keys where "keys = map fst (filter (\<lambda>(key, partial).
    elapsed_at_least now (pd_started_at partial) (rc_timeout (ra_config r))) (ra_partials r))"
  have r0: "partials_accounted r0" and d: "hm_distinct (ra_partials r)"
    using inv by (auto simp: r0_def reassembler_inv_def partials_accounted_def)
  obtain r1 e where r1: "remove_partials keys r0 default_expiration = Some (r1, e)"
    "partials_accounted r1" "same_completed r0 r1"
    "\<And>k. hm_get (ra_partials r1) k = (if k \<in> set keys then None else hm_get (ra_partials r0) k)"
    using remove_partials_spec [OF r0] by blast
  have same: "ra_config r1 = ra_config r" "ra_completed r1 = ra_completed r"
    "ra_completed_order r1 = ra_completed_order r"
    using r1(3) by (simp_all add: same_completed_def r0_def)
  obtain c o' n where ex: "expire_completed now (rc_completed_retention (ra_config r)) (ra_completed r)
      (ra_completed_order r) (ex_completed_datagrams e) = (c, o', n)" by (metis surj_pair)
  define r2 where "r2 = r1\<lparr>ra_completed := c, ra_completed_order := o'\<rparr>"
  have c: "hm_distinct (ra_completed r)" "set (ra_completed r) \<subseteq> set (ra_completed_order r)"
    "length (ra_completed r) \<le> rc_max_completed_datagrams (ra_config r)"
    using inv by (simp_all add: reassembler_inv_def completed_accounted_def)
  note spec = expire_completed_spec [OF c(1,2) ex]
  have le: "map_of (ra_partials r2) \<subseteq>\<^sub>m map_of (ra_partials r)"
    by (auto simp: r2_def map_le_def r1(4) r0_def split: if_splits)
  have kept: "hm_get (ra_partials r2) k = Some p"
    if "hm_get (ra_partials r) k = Some p"
      and "\<not> elapsed_at_least now (pd_started_at p) (rc_timeout (ra_config r))" for k p
  proof -
    have "k \<notin> set keys" using that d by (auto simp: keys_def dest: eq_key_imp_eq_value)
    with that show ?thesis by (simp add: r2_def r1(4) r0_def)
  qed
  have "completed_accounted r2"
    using spec c(3) by (auto simp: completed_accounted_def r2_def same)
  moreover have "partials_accounted r2" using r1(2) by (simp add: r2_def partials_accounted_def)
  moreover have "partials_wf {} r2"
    using inv partials_wf_le [OF _ le] by (simp add: reassembler_inv_def)
  ultimately have "reassembler_inv r2" by (simp add: reassembler_inv_def)
  moreover have "expire now r = Some (r2, e\<lparr>ex_completed_datagrams := n\<rparr>)"
    using False r1(1) ex by (simp add: expire_def Let_def r0_def keys_def r2_def same)
  moreover have "(k, t) \<in> set (ra_completed r2)" if "(k, t) \<in> set (ra_completed r)"
      "\<not> elapsed_at_least now t (rc_completed_retention (ra_config r))" for k t
    using spec that by (auto simp: r2_def)
  ultimately show ?thesis
    using le kept spec by (intro that [of r2]) (auto simp: r2_def same)
qed

lemma discard_completed_spec:
  assumes "hm_distinct completed" and "discard_completed keys completed n = (completed', n')"
  shows "hm_distinct completed' \<and> set completed' \<subseteq> set completed \<and>
    n' + length completed' = n + length completed \<and> n \<le> n' \<and>
    (\<forall>k. hm_get completed' k = (if k \<in> set keys then None else hm_get completed k))"
  using assms
proof (induction keys arbitrary: completed n)
  case Nil
  then show ?case by simp
next
  case (Cons key keys)
  show ?case
  proof (cases "hm_get completed key")
    case None
    with Cons.prems have "discard_completed keys completed n = (completed', n')" by simp
    with Cons.IH [OF Cons.prems(1) this] None show ?thesis by auto
  next
    case (Some t)
    with Cons.prems have "discard_completed keys (hm_remove key completed) (n + 1) = (completed', n')"
      by simp
    note ih = Cons.IH [OF hm_distinct_remove [OF Cons.prems(1)] this]
    moreover have "n' + length completed' = n + length completed \<and> n \<le> n'"
      using ih hm_length_remove [OF Cons.prems(1) Some] by linarith
    ultimately show ?thesis
      using hm_remove_subset [of key completed] by auto
  qed
qed

lemma discard_session_spec:
  assumes inv: "reassembler_inv r"
  obtains r' e where "discard_session s r = Some (r', e)" and "reassembler_inv r'"
    and "ra_config r' = ra_config r"
    and "\<And>k. hm_get (ra_partials r') k = (if dk_session_id k = s then None else hm_get (ra_partials r) k)"
    and "\<And>k. hm_get (ra_completed r') k = (if dk_session_id k = s then None else hm_get (ra_completed r) k)"
proof -
  define keys where "keys = filter (\<lambda>key. dk_session_id key = s) (map fst (ra_partials r))"
  have acc: "partials_accounted r" and c: "completed_accounted r" using inv by (simp_all add: reassembler_inv_def)
  obtain r1 e where r1: "remove_partials keys r default_expiration = Some (r1, e)"
    "partials_accounted r1" "same_completed r r1"
    "\<And>k. hm_get (ra_partials r1) k = (if k \<in> set keys then None else hm_get (ra_partials r) k)"
    using remove_partials_spec [OF acc] by blast
  have same: "ra_config r1 = ra_config r" "ra_completed r1 = ra_completed r"
    "ra_completed_order r1 = ra_completed_order r" using r1(3) by (simp_all add: same_completed_def)
  define ckeys where "ckeys = filter (\<lambda>key. dk_session_id key = s) (map fst (ra_completed r))"
  obtain c' n where dc: "discard_completed ckeys (ra_completed r) (ex_completed_datagrams e) = (c', n)"
    by fastforce
  define r2 where "r2 = r1\<lparr>ra_completed := c'\<rparr>"
  have d: "hm_distinct (ra_completed r)" using c by (simp add: completed_accounted_def)
  note spec = discard_completed_spec [OF d dc]
  have p: "hm_get (ra_partials r2) k = (if dk_session_id k = s then None else hm_get (ra_partials r) k)" for k
    by (auto simp: r2_def r1(4) keys_def map_of_eq_None_iff)
  have "hm_get (ra_completed r2) k = (if dk_session_id k = s then None else hm_get (ra_completed r) k)" for k
    using spec by (auto simp: r2_def ckeys_def map_of_eq_None_iff)
  moreover have "completed_accounted r2"
    using spec c by (auto simp: completed_accounted_def r2_def same)
  moreover have "partials_accounted r2" using r1(2) by (simp add: r2_def partials_accounted_def)
  moreover have le: "map_of (ra_partials r2) \<subseteq>\<^sub>m map_of (ra_partials r)"
    by (auto simp: map_le_def p split: if_splits)
  moreover have "partials_wf {} r2"
    using inv partials_wf_le [OF _ le] by (simp add: reassembler_inv_def)
  moreover have "discard_session s r = Some (r2, e\<lparr>ex_completed_datagrams := n\<rparr>)"
    using r1(1) dc by (simp add: discard_session_def Let_def keys_def ckeys_def r2_def same)
  ultimately show ?thesis using p by (intro that [of r2]) (simp_all add: reassembler_inv_def r2_def same)
qed

lemma slot_bytes_update:
  assumes "i < length slots" and "slots ! i = None"
  shows "slot_bytes (slots[i := Some b]) = slot_bytes slots + length b"
    and "slots_filled (slots[i := Some b]) = Suc (slots_filled slots)"
proof -
  obtain xs ys where s: "slots = xs @ None # ys" and i: "length xs = i"
    using id_take_nth_drop [OF assms(1)] assms
    by (intro that [of "take i slots" "drop (Suc i) slots"]) simp_all
  have u: "slots[i := Some b] = xs @ Some b # ys" by (simp add: s list_update_append i)
  show "slot_bytes (slots[i := Some b]) = slot_bytes slots + length b"
    unfolding u by (simp add: s slot_bytes_def)
  show "slots_filled (slots[i := Some b]) = Suc (slots_filled slots)"
    unfolding u by (simp add: s slots_filled_def)
qed

lemma slots_filled_le: "slots_filled slots \<le> length slots"
  unfolding slots_filled_def by (induction slots) (auto split: option.splits)

lemma slots_filled_all:
  "slots_filled slots = length slots \<longleftrightarrow> None \<notin> set slots"
proof (induction slots)
  case Nil
  then show ?case by (simp add: slots_filled_def)
next
  case (Cons a slots)
  then show ?case using slots_filled_le [of slots]
    by (cases a) (auto simp: slots_filled_def)
qed

lemma collect_fragments_all:
  "None \<notin> set slots \<Longrightarrow> collect_fragments slots = Some (concat (map the slots)) \<and>
     slot_bytes slots = length (concat (map the slots))"
proof (induction slots)
  case Nil
  then show ?case by (simp add: slot_bytes_def)
next
  case (Cons a slots)
  then show ?case by (cases a) (auto simp: slot_bytes_def)
qed

text \<open>A fragment against a well-formed partial datagram never panics, and what is stored is well formed.\<close>

lemma store_fragment_spec:
  assumes ok: "fragment_ok f" and wf: "partial_wf p"
    and open_p: "pd_received_fragments p < unat (pd_fragment_count p)"
  shows "(\<exists>e. store_fragment f p = Some (SlotFailure e)) \<or> store_fragment f p = Some SlotDuplicate \<or>
    (\<exists>q. store_fragment f p = Some (SlotStored q (pd_received_fragments q = unat (pd_fragment_count q)))
       \<and> partial_wf q \<and> pd_original_length q = pd_original_length p)"
proof -
  let ?i = "unat (uf_fragment_index f)"
  have usize: "65507 + 65507 \<le> usize_max" "64 + 1 \<le> usize_max" by (simp_all add: usize_max_def)
  have len: "length (uf_payload f) \<le> 65507" using ok by (simp add: fragment_ok_def)
  have bytes: "checked_add (pd_received_bytes p) (length (uf_payload f)) =
      Some (pd_received_bytes p + length (uf_payload f))"
    using wf len usize by (auto simp: partial_wf_def checked_add_def)
  have count: "checked_add (pd_received_fragments p) 1 = Some (pd_received_fragments p + 1)"
    using wf open_p usize by (auto simp: partial_wf_def checked_add_def)
  have "?i < length (pd_fragments p)" if "pd_fragment_count p = uf_fragment_count f"
    using wf ok that by (simp add: partial_wf_def fragment_ok_def)
  moreover have "partial_wf (p\<lparr>pd_received_bytes := pd_received_bytes p + length (uf_payload f),
      pd_received_fragments := pd_received_fragments p + 1,
      pd_fragments := (pd_fragments p)[?i := Some (uf_payload f)]\<rparr>)"
    if "?i < length (pd_fragments p)" "pd_fragments p ! ?i = None"
      "pd_received_bytes p + length (uf_payload f) \<le> pd_original_length p"
    using wf that slot_bytes_update [OF that(1,2)] by (simp add: partial_wf_def)
  ultimately show ?thesis
    using bytes count by (auto simp: store_fragment_def Let_def not_le split: option.splits)
qed

lemma hm_insert_keys: "hm_get m k = Some v \<Longrightarrow> map fst (hm_insert k w m) = map fst m"
  by (induction m) auto

lemma replace_partial_accounted:
  assumes acc: "partials_accounted r" and p: "hm_get (ra_partials r) key = Some p"
    and len: "pd_original_length q = pd_original_length p"
  shows "partials_accounted (r\<lparr>ra_partials := hm_insert key q (ra_partials r)\<rparr>)"
proof -
  have d: "hm_distinct (ra_partials r)" using acc by (simp add: partials_accounted_def)
  have "session_partials s (hm_insert key q (ra_partials r)) = session_partials s (ra_partials r)" for s
    using hm_sum_update [OF d p, of "\<lambda>(key, _). if dk_session_id key = s then 1 else 0" q]
    by (simp add: session_partials_def)
  moreover have "reserved_total (hm_insert key q (ra_partials r)) = reserved_total (ra_partials r)"
    using hm_sum_update [OF d p, of "\<lambda>(_, p). pd_original_length p" q] len
    by (simp add: reserved_total_def)
  ultimately show ?thesis
    using acc hm_length_update [OF p] unfolding partials_accounted_def by simp
qed

text \<open>Storing into an existing entry: the effect on the invariant.\<close>

lemma replace_partial_inv:
  assumes inv: "reassembler_inv r" and p: "hm_get (ra_partials r) key = Some p"
    and q: "partial_wf q" "pd_original_length q = pd_original_length p"
  shows "let r' = r\<lparr>ra_partials := hm_insert key q (ra_partials r)\<rparr> in
    partials_accounted r' \<and> completed_accounted r' \<and> partials_wf {key} r' \<and>
    (pd_received_fragments q < unat (pd_fragment_count q) \<longrightarrow> reassembler_inv r')"
  using inv q replace_partial_accounted [OF _ p q(2)]
  by (auto simp: Let_def reassembler_inv_def completed_accounted_def partials_wf_def)

lemma remember_completed_frame [simp]:
  "ra_partials (remember_completed key now r) = ra_partials r"
  "ra_config (remember_completed key now r) = ra_config r"
  "ra_buffered_bytes (remember_completed key now r) = ra_buffered_bytes r"
  "ra_incomplete_by_session (remember_completed key now r) = ra_incomplete_by_session r"
  by (simp_all add: remember_completed_def evict_oldest_completed_def compact_completed_order_def Let_def
      split: prod.split)

lemma remember_completed_inv:
  assumes inv: "reassembler_inv r" and new: "hm_get (ra_completed r) key = None"
  shows "reassembler_inv (remember_completed key now r)"
proof -
  have "0 < rc_max_completed_datagrams (ra_config r)"
    using inv by (simp add: reassembler_inv_def partials_accounted_def config_ok_def)
  with inv new remember_completed_spec [of r key now] show ?thesis
    by (simp add: reassembler_inv_def partials_accounted_def partials_wf_def)
qed

lemma finish_datagram_spec:
  assumes acc: "partials_accounted r" "completed_accounted r" "partials_wf {key} r"
    and q: "hm_get (ra_partials r) key = Some q" "pd_received_fragments q = unat (pd_fragment_count q)"
    and new: "hm_get (ra_completed r) key = None"
  obtains r' where "finish_datagram key now r = Some (r',
      if slot_bytes (pd_fragments q) = pd_original_length q
      then Ok (Complete (concat (map the (pd_fragments q)))) else Err CompletedLengthMismatch)"
    and "reassembler_inv r'" and "ra_config r' = ra_config r"
    and "ra_partials r' = hm_remove key (ra_partials r)"
    and "slot_bytes (pd_fragments q) = pd_original_length q \<Longrightarrow> hm_get (ra_completed r') key = Some now"
    and "fst ` set (ra_completed r') \<subseteq> insert key (fst ` set (ra_completed r))"
proof -
  obtain r1 where r1: "remove_partial key r = Some (r1, hm_get (ra_partials r) key)"
    "partials_accounted r1" "same_completed r r1" "ra_partials r1 = hm_remove key (ra_partials r)"
    using remove_partial_spec [OF acc(1)] by blast
  have wf: "partial_wf q" using acc(3) q(1) by (simp add: partials_wf_def)
  then have all: "None \<notin> set (pd_fragments q)"
    using q(2) by (simp add: partial_wf_def slots_filled_all [symmetric])
  have c1: "completed_accounted r1" "hm_get (ra_completed r1) key = None" "ra_config r1 = ra_config r"
    "ra_completed r1 = ra_completed r"
    using r1(3) acc(2) new same_completed_accounted [OF r1(3)] by (simp_all add: same_completed_def)
  have wf1: "partials_wf {} r1" using acc(3) by (auto simp: partials_wf_def r1(4))
  have inv1: "reassembler_inv r1" using r1(2) c1 wf1 by (simp add: reassembler_inv_def)
  have limit: "0 < rc_max_completed_datagrams (ra_config r1)"
    using r1(2) by (simp add: partials_accounted_def config_ok_def)
  have coll: "collect_fragments (pd_fragments q) = Some (concat (map the (pd_fragments q)))"
    "slot_bytes (pd_fragments q) = length (concat (map the (pd_fragments q)))"
    using collect_fragments_all [OF all] by simp_all
  have bytes: "pd_received_bytes q = slot_bytes (pd_fragments q)" using wf by (simp add: partial_wf_def)
  show ?thesis
  proof (cases "slot_bytes (pd_fragments q) = pd_original_length q")
    case True
    then have "finish_datagram key now r = Some (remember_completed key now r1,
        Ok (Complete (concat (map the (pd_fragments q)))))"
      using coll r1(1) q(1) by (simp add: finish_datagram_def bytes)
    with True show ?thesis
      using remember_completed_inv [OF inv1 c1(2)] remember_completed_spec [OF c1(1) limit c1(2), of now] c1(3,4) r1(4)
      by (intro that [of "remember_completed key now r1"]) simp_all
  next
    case False
    then have "finish_datagram key now r = Some (r1, Err CompletedLengthMismatch)"
      using r1(1) q(1) by (simp add: finish_datagram_def bytes)
    with False show ?thesis using inv1 c1(3,4) r1(4) by (intro that [of r1]) auto
  qed
qed

lemma push_into_partial_spec:
  assumes inv: "reassembler_inv r" and ok: "fragment_ok f"
    and p: "hm_get (ra_partials r) key = Some p" and new: "hm_get (ra_completed r) key = None"
  obtains r' x where "push_into_partial key f now r = Some (r', x)" and "reassembler_inv r'"
    and "ra_config r' = ra_config r"
    and "\<And>k. k \<noteq> key \<Longrightarrow> hm_get (ra_partials r') k = hm_get (ra_partials r) k"
    and "fst ` set (ra_completed r') \<subseteq> insert key (fst ` set (ra_completed r))"
proof -
  have wf: "partial_wf p" "pd_received_fragments p < unat (pd_fragment_count p)"
    and acc: "partials_accounted r"
    using inv p by (auto simp: reassembler_inv_def partials_wf_def)
  from store_fragment_spec [OF ok wf] consider
      (fail) e where "store_fragment f p = Some (SlotFailure e)"
    | (dup) "store_fragment f p = Some SlotDuplicate"
    | (stored) q where "store_fragment f p = Some (SlotStored q
          (pd_received_fragments q = unat (pd_fragment_count q)))"
        "partial_wf q" "pd_original_length q = pd_original_length p" by blast
  then show ?thesis
  proof cases
    case fail
    obtain r1 where r1: "remove_partial key r = Some (r1, Some p)" "partials_accounted r1"
      "same_completed r r1" "ra_partials r1 = hm_remove key (ra_partials r)"
      using remove_partial_spec [OF acc] p by metis
    then have "reassembler_inv r1"
      using inv same_completed_accounted [OF r1(3)] by (auto simp: reassembler_inv_def partials_wf_def)
    with r1 p fail show ?thesis
      by (intro that [of r1 "Err e"]) (auto simp: push_into_partial_def same_completed_def)
  next
    case dup
    with inv p show ?thesis by (intro that [of r "Ok Duplicate"]) (auto simp: push_into_partial_def)
  next
    case stored
    let ?r = "r\<lparr>ra_partials := hm_insert key q (ra_partials r)\<rparr>"
    note upd = replace_partial_inv [OF inv p stored(2,3), unfolded Let_def]
    show ?thesis
    proof (cases "pd_received_fragments q = unat (pd_fragment_count q)")
      case True
      obtain r' x where fin: "finish_datagram key now ?r = Some (r', x)" "reassembler_inv r'"
        "ra_config r' = ra_config ?r" "ra_partials r' = hm_remove key (ra_partials ?r)"
        "fst ` set (ra_completed r') \<subseteq> insert key (fst ` set (ra_completed ?r))"
      proof (rule finish_datagram_spec [of ?r key q now])
        show "partials_accounted ?r" "completed_accounted ?r" "partials_wf {key} ?r" using upd by blast+
      qed (use True new in simp_all)
      have "push_into_partial key f now r = Some (r', x)"
        using stored(1) True p fin(1) by (simp add: push_into_partial_def)
      with fin show ?thesis by (intro that [of r' x]) simp_all
    next
      case False
      have "pd_received_fragments q \<le> unat (pd_fragment_count q)"
        using stored(2) slots_filled_le [of "pd_fragments q"] by (simp add: partial_wf_def)
      with False upd stored p show ?thesis
        by (intro that [of ?r "Ok Pending"]) (auto simp: push_into_partial_def)
    qed
  qed
qed

definition fresh_partial :: "udp_fragment \<Rightarrow> instant \<Rightarrow> partial_datagram" where
  "fresh_partial f now =
     \<lparr>pd_started_at = now, pd_original_length = unat (uf_original_length f),
      pd_fragment_count = uf_fragment_count f,
      pd_fragments = replicate (unat (uf_fragment_count f)) None,
      pd_received_fragments = 0, pd_received_bytes = 0\<rparr>"

lemma slots_replicate [simp]:
  "slot_bytes (replicate n None) = 0" "slots_filled (replicate n None) = 0"
  by (simp_all add: slot_bytes_def slots_filled_def sum_list_replicate)

lemma fresh_partial_wf:
  "fragment_ok f \<Longrightarrow> uf_original_length f \<noteq> 0 \<Longrightarrow>
     partial_wf (fresh_partial f now) \<and> 0 < unat (uf_fragment_count f)"
  by (auto simp: fresh_partial_def partial_wf_def fragment_ok_def unat_gt_0)

lemma insert_partial_spec:
  assumes inv: "reassembler_inv r" and ok: "fragment_ok f" "uf_original_length f \<noteq> 0"
    and new: "hm_get (ra_partials r) (key_of_fragment f) = None"
  obtains (refused) e where "insert_partial (key_of_fragment f) f now r = Some (r, Err e)"
  | (inserted) r' where "insert_partial (key_of_fragment f) f now r = Some (r', Ok ())"
    and "reassembler_inv r'" and "same_completed r r'"
    and "ra_partials r' = hm_insert (key_of_fragment f) (fresh_partial f now) (ra_partials r)"
proof -
  let ?key = "key_of_fragment f" and ?c = "ra_config r" and ?p = "fresh_partial f now"
  let ?s = "uf_session_id f"
  let ?n = "session_partials ?s (ra_partials r)"
  have acc: "partials_accounted r" using inv by (simp add: reassembler_inv_def)
  have sess: "(case hm_get (ra_incomplete_by_session r) ?s of Some n \<Rightarrow> n | None \<Rightarrow> 0) = ?n"
    using acc by (simp add: partials_accounted_def)
  define r' where "r' = r\<lparr>ra_partials := hm_insert ?key ?p (ra_partials r),
    ra_buffered_bytes := ra_buffered_bytes r + unat (uf_original_length f),
    ra_incomplete_by_session := hm_insert ?s (?n + 1) (ra_incomplete_by_session r)\<rparr>"
  show thesis
  proof (cases "rc_max_incomplete_datagrams ?c \<le> length (ra_partials r) \<or>
      rc_max_incomplete_per_session ?c \<le> ?n \<or>
      rc_max_buffered_bytes ?c < saturating_add (ra_buffered_bytes r) (unat (uf_original_length f))")
    case True
    then have "\<exists>e. insert_partial ?key f now r = Some (r, Err e)"
      unfolding insert_partial_def Let_def sess by auto
    then show ?thesis using refused by blast
  next
    case False
    then have lim: "length (ra_partials r) < rc_max_incomplete_datagrams ?c"
      "?n < rc_max_incomplete_per_session ?c"
      "ra_buffered_bytes r + unat (uf_original_length f) \<le> rc_max_buffered_bytes ?c"
      using acc saturating_add_le_iff [of "rc_max_buffered_bytes ?c"]
      by (auto simp: partials_accounted_def config_ok_def not_le not_less)
    have usize: "rc_max_buffered_bytes ?c < usize_max" "rc_max_incomplete_per_session ?c \<le> usize_max"
      using acc by (auto simp: partials_accounted_def config_ok_def)
    have "insert_partial ?key f now r = Some (r', Ok ())"
      using False lim usize unfolding insert_partial_def Let_def sess
      by (simp add: checked_add_def r'_def fresh_partial_def)
    moreover have "partials_accounted r'"
      using acc lim new unfolding partials_accounted_def
      by (auto simp: r'_def hm_insert_new session_partials_append reserved_total_append key_of_fragment_def
          fresh_partial_def map_of_eq_None_iff)
    moreover have "partials_wf {} r'"
      using inv fresh_partial_wf [OF ok, of now]
      by (auto simp: reassembler_inv_def partials_wf_def r'_def fresh_partial_def)
    moreover have "same_completed r r'" by (simp add: same_completed_def r'_def)
    ultimately show ?thesis
      using inv same_completed_accounted [of r r'] inserted [of r']
      by (simp add: reassembler_inv_def r'_def)
  qed
qed

text \<open>
  A valid fragment is accepted or refused without a panic, the invariant holds afterwards and
  no other datagram that is still within its timeout is affected.
\<close>

lemma push_spec:
  assumes inv: "reassembler_inv r"
  obtains r' x where "push f now r = Some (r', x)" and "reassembler_inv r'"
    and "ra_config r' = ra_config r"
    and "\<And>k p. k \<noteq> key_of_fragment f \<Longrightarrow> hm_get (ra_partials r) k = Some p \<Longrightarrow>
      \<not> elapsed_at_least now (pd_started_at p) (rc_timeout (ra_config r)) \<Longrightarrow>
      hm_get (ra_partials r') k = Some p"
    and "fst ` set (ra_completed r') \<subseteq> insert (key_of_fragment f) (fst ` set (ra_completed r))"
proof (cases "fragment_ok f")
  case False
  then obtain e where "validate_fragment f = Err e"
    using validate_fragment_ok_iff [of f] by (cases "validate_fragment f") auto
  with inv show ?thesis by (intro that [of r "Err (InvalidFragment e)"]) (auto simp: push_def)
next
  case ok: True
  let ?key = "key_of_fragment f"
  obtain r1 e where r1: "expire now r = Some (r1, e)" "reassembler_inv r1" "ra_config r1 = ra_config r"
    "\<And>k p. hm_get (ra_partials r) k = Some p \<Longrightarrow>
      \<not> elapsed_at_least now (pd_started_at p) (rc_timeout (ra_config r)) \<Longrightarrow>
      hm_get (ra_partials r1) k = Some p" and sub: "set (ra_completed r1) \<subseteq> set (ra_completed r)"
    using expire_spec [OF inv, of now] by metis
  have v: "validate_fragment f = Ok ()" using ok by (simp add: validate_fragment_ok_iff)
  consider (seen) "hm_get (ra_completed r1) ?key \<noteq> None"
    | (empty) "hm_get (ra_completed r1) ?key = None" "uf_original_length f = 0"
    | (old) p where "hm_get (ra_completed r1) ?key = None" "uf_original_length f \<noteq> 0"
        "hm_get (ra_partials r1) ?key = Some p"
    | (new) "hm_get (ra_completed r1) ?key = None" "uf_original_length f \<noteq> 0"
        "hm_get (ra_partials r1) ?key = None" by blast
  then show ?thesis
  proof cases
    case seen
    then show ?thesis using v r1 sub by (intro that [of r1 "Ok Duplicate"]) (auto simp: push_def Let_def)
  next
    case empty
    moreover have "completed_accounted r1" "0 < rc_max_completed_datagrams (ra_config r1)"
      using r1(2) by (simp_all add: reassembler_inv_def partials_accounted_def config_ok_def)
    ultimately show ?thesis
      using v r1 sub remember_completed_inv [OF r1(2), of ?key now] remember_completed_spec [of r1 ?key now]
      by (intro that [of "remember_completed ?key now r1" "Ok (Complete [])"])
        (simp_all add: push_def Let_def, blast)
  next
    case old
    obtain r2 x where "push_into_partial ?key f now r1 = Some (r2, x)" "reassembler_inv r2"
      "ra_config r2 = ra_config r1"
      "\<And>k. k \<noteq> ?key \<Longrightarrow> hm_get (ra_partials r2) k = hm_get (ra_partials r1) k"
      "fst ` set (ra_completed r2) \<subseteq> insert ?key (fst ` set (ra_completed r1))"
      using push_into_partial_spec [OF r1(2) ok old(3,1)] by metis
    with old v r1 sub show ?thesis
      by (intro that [of r2 x]) (simp_all add: push_def Let_def, blast)
  next
    case new
    show ?thesis
    proof (cases rule: insert_partial_spec [OF r1(2) ok new(2,3), of now])
      case (1 e)
      with new v r1 sub show ?thesis by (intro that [of r1 "Err e"]) (auto simp: push_def Let_def)
    next
      case (2 r2)
      have c2: "hm_get (ra_completed r2) ?key = None" "ra_config r2 = ra_config r1"
        "ra_completed r2 = ra_completed r1"
        using 2(3) new(1) by (simp_all add: same_completed_def)
      obtain r3 x where "push_into_partial ?key f now r2 = Some (r3, x)" "reassembler_inv r3"
        "ra_config r3 = ra_config r2"
        "\<And>k. k \<noteq> ?key \<Longrightarrow> hm_get (ra_partials r3) k = hm_get (ra_partials r2) k"
        "fst ` set (ra_completed r3) \<subseteq> insert ?key (fst ` set (ra_completed r2))"
        using push_into_partial_spec [OF 2(2) ok _ c2(1)] 2(4) by (metis hm_get_insert)
      with 2 c2 new v r1 sub show ?thesis
        by (intro that [of r3 x]) (simp_all add: push_def Let_def, blast)
    qed
  qed
qed

section \<open>Runs of the reassembler\<close>

text \<open>The public operations of a reassembler, as one machine.\<close>

datatype udp_op =
    OpPush udp_fragment instant
  | OpExpire instant
  | OpDiscardSession uuid

datatype udp_op_result =
    PushResult "udp_reassembly_error + udp_reassembly_outcome"
  | ExpirationResult udp_reassembly_expiration

fun udp_step :: "udp_op \<Rightarrow> udp_reassembler \<Rightarrow> (udp_reassembler \<times> udp_op_result) option" where
  "udp_step (OpPush f now) r = map_option (\<lambda>(r, x). (r, PushResult x)) (push f now r)"
| "udp_step (OpExpire now) r = map_option (\<lambda>(r, x). (r, ExpirationResult x)) (expire now r)"
| "udp_step (OpDiscardSession s) r = map_option (\<lambda>(r, x). (r, ExpirationResult x)) (discard_session s r)"

lemma udp_step_safe:
  assumes "reassembler_inv r \<and> ra_config r = c"
  shows "\<exists>r' x. udp_step i r = Some (r', x) \<and> reassembler_inv r' \<and> ra_config r' = c"
proof (cases i)
  case (OpPush f now)
  with assms push_spec [of r f now] show ?thesis by auto metis
next
  case (OpExpire now)
  with assms expire_spec [of r now] show ?thesis by auto metis
next
  case (OpDiscardSession s)
  with assms discard_session_spec [of r s] show ?thesis by auto metis
qed

interpretation udp_machine: guarded_machine "\<lambda>r. reassembler_inv r \<and> ra_config r = c" udp_step for c
  by unfold_locales (rule udp_step_safe)

lemma reassembler_new_inv:
  assumes "reassembler_new c = Ok r" and "rc_max_buffered_bytes c < usize_max"
    and "rc_max_incomplete_per_session c \<le> usize_max"
  shows "reassembler_inv r \<and> ra_config r = c"
  using assms
  by (auto simp: reassembler_new_def reassembler_inv_def partials_accounted_def completed_accounted_def
      partials_wf_def config_ok_def reserved_total_def session_partials_def split: if_splits)

text \<open>
  C4. However fragments, clock ticks and session closures arrive, a UDP reassembler never
  panics and never exceeds a limit of its configuration: the byte counter is exactly the sum of
  the declared lengths of the datagrams in assembly, and the bytes, the datagrams in assembly,
  those of each single session and the remembered completed datagrams stay within their limits.
\<close>

theorem reassembler_runs_within_limits:
  assumes "reassembler_new c = Ok r0" and "rc_max_buffered_bytes c < usize_max"
    and "rc_max_incomplete_per_session c \<le> usize_max"
  shows "\<exists>r outs. run_machine udp_step ops r0 = Some (r, outs) \<and> length outs = length ops \<and>
    ra_buffered_bytes r = reserved_total (ra_partials r) \<and>
    ra_buffered_bytes r \<le> rc_max_buffered_bytes c \<and>
    length (ra_partials r) \<le> rc_max_incomplete_datagrams c \<and>
    (\<forall>s. session_partials s (ra_partials r) \<le> rc_max_incomplete_per_session c) \<and>
    length (ra_completed r) \<le> rc_max_completed_datagrams c"
proof -
  from udp_machine.run_safe [OF reassembler_new_inv [OF assms], of ops]
  obtain r outs where "run_machine udp_step ops r0 = Some (r, outs)" "length outs = length ops"
    "reassembler_inv r" "ra_config r = c" by blast
  then show ?thesis
    by (auto simp: reassembler_inv_def partials_accounted_def completed_accounted_def)
qed

definition sample_fragment :: "u16 \<Rightarrow> u8 \<Rightarrow> udp_fragment" where
  "sample_fragment i b =
     \<lparr>uf_direction = PublicToTarget, uf_session_id = 7, uf_datagram_id = 9, uf_fragment_index = i,
      uf_fragment_count = 2, uf_original_length = 2, uf_payload = [b]\<rparr>"

definition sample_reassembler :: udp_reassembler where
  "sample_reassembler =
     \<lparr>ra_config = default_reassembly_config, ra_partials = [], ra_incomplete_by_session = [],
      ra_completed = [], ra_completed_order = [], ra_buffered_bytes = 0, ra_next_cleanup_at = None\<rparr>"

lemma sample_reassembler_new: "reassembler_new default_reassembly_config = Ok sample_reassembler"
  by (simp add: reassembler_new_def default_reassembly_config_def sample_reassembler_def)

theorem reassembler_runs_within_limits_witness:
  "\<exists>r outs. run_machine udp_step [OpPush (sample_fragment 0 1) 0, OpExpire 5, OpDiscardSession 7]
      sample_reassembler = Some (r, outs) \<and> length outs = 3 \<and>
    ra_buffered_bytes r \<le> 8 * 1024 * 1024"
proof -
  have "rc_max_buffered_bytes default_reassembly_config < usize_max"
    "rc_max_incomplete_per_session default_reassembly_config \<le> usize_max"
    by (simp_all add: default_reassembly_config_def usize_max_def)
  from reassembler_runs_within_limits [OF sample_reassembler_new this,
      of "[OpPush (sample_fragment 0 1) 0, OpExpire 5, OpDiscardSession 7]"]
  show ?thesis by (auto simp: default_reassembly_config_def)
qed

end
