(* ===== verification/Udp_Delivery.thy ===== *)
theory Udp_Delivery
  imports Udp_Reassembly
begin

text \<open>
  End-to-end delivery of the UDP data plane: the fragments that \<open>fragment_datagram\<close> made, pushed
  into a \<open>UdpReassembler\<close> in any order, with repetitions and interleaved with other traffic,
  give the datagram back exactly once.
\<close>

section \<open>Datagrams in assembly\<close>

text \<open>The genuine fragment number \<open>j\<close> of the datagram \<open>key\<close> whose payload is cut into \<open>cs\<close>.\<close>

definition piece :: "datagram_key \<Rightarrow> bytes list \<Rightarrow> nat \<Rightarrow> udp_fragment" where
  "piece key cs j =
     chunk_fragment (dk_direction key) (dk_session_id key) (dk_datagram_id key) j
       (of_nat (length cs)) (length (concat cs)) (cs ! j)"

definition slots_of :: "bytes list \<Rightarrow> nat set \<Rightarrow> bytes option list" where
  "slots_of cs I = map (\<lambda>j. if j \<in> I then Some (cs ! j) else None) [0..<length cs]"

definition assembling ::
  "datagram_key \<Rightarrow> bytes list \<Rightarrow> instant \<Rightarrow> nat set \<Rightarrow> udp_reassembler \<Rightarrow> bool" where
  "assembling key cs start I r \<longleftrightarrow>
     reassembler_inv r \<and> hm_get (ra_completed r) key = None \<and>
     (\<exists>p. hm_get (ra_partials r) key = Some p \<and> pd_started_at p = start \<and>
        pd_original_length p = length (concat cs) \<and> pd_fragment_count p = of_nat (length cs) \<and>
        pd_fragments p = slots_of cs I)"

definition cut_ok :: "datagram_key \<Rightarrow> bytes list \<Rightarrow> bool" where
  "cut_ok key cs \<longleftrightarrow> dk_session_id key \<noteq> 0 \<and> cs \<noteq> [] \<and> length cs \<le> 64 \<and>
     length (concat cs) \<le> 65507 \<and> (\<forall>c \<in> set cs. c \<noteq> [])"

lemma key_of_piece [simp]: "key_of_fragment (piece key cs j) = key"
  by (simp add: key_of_fragment_def piece_def chunk_fragment_def)

lemma piece_fields:
  assumes "cut_ok key cs" and "j < length cs"
  shows "unat (uf_fragment_index (piece key cs j)) = j"
    and "uf_fragment_count (piece key cs j) = of_nat (length cs)"
    and "unat (uf_fragment_count (piece key cs j)) = length cs"
    and "unat (uf_original_length (piece key cs j)) = length (concat cs)"
    and "uf_payload (piece key cs j) = cs ! j"
    and "uf_session_id (piece key cs j) = dk_session_id key"
  using assms by (auto simp: cut_ok_def piece_def chunk_fragment_def intro!: unat_of_nat_small)

lemma piece_ok:
  assumes "cut_ok key cs" and "j < length cs"
  shows "fragment_ok (piece key cs j)" and "uf_original_length (piece key cs j) \<noteq> 0"
proof -
  have mem: "cs ! j \<in> set cs" using assms(2) by simp
  have "cs ! j \<noteq> []" using assms mem by (auto simp: cut_ok_def)
  moreover have "length (cs ! j) \<le> length (concat cs) \<and>
      (length cs = 1 \<longleftrightarrow> length (cs ! j) = length (concat cs))"
    using assms(1) by (intro piece_of_concat [OF mem]) (auto simp: cut_ok_def)
  moreover have pos: "0 < length (concat cs)"
    using calculation by (metis length_greater_0_conv le_trans not_le)
  ultimately show "fragment_ok (piece key cs j)"
    using assms unfolding fragment_ok_def piece_fields(1,3-6) [OF assms] by (auto simp: cut_ok_def)
  show "uf_original_length (piece key cs j) \<noteq> 0"
    using pos piece_fields(4) [OF assms] by (metis less_numeral_extra(3) unsigned_0)
qed

section \<open>The slots\<close>

lemma length_slots_of [simp]: "length (slots_of cs I) = length cs"
  by (simp add: slots_of_def)

lemma slots_of_nth: "j < length cs \<Longrightarrow> slots_of cs I ! j = (if j \<in> I then Some (cs ! j) else None)"
  by (simp add: slots_of_def)

lemma slots_of_insert: "j < length cs \<Longrightarrow> (slots_of cs I)[j := Some (cs ! j)] = slots_of cs (insert j I)"
  by (rule nth_equalityI) (auto simp: nth_list_update slots_of_nth)

lemma slots_of_empty: "slots_of cs {} = replicate (length cs) None"
  by (rule nth_equalityI) (simp_all add: slots_of_nth)

lemma slots_of_full: "None \<notin> set (slots_of cs I) \<longleftrightarrow> {..<length cs} \<subseteq> I"
  by (auto simp: slots_of_def)

lemma slots_of_all: "map the (slots_of cs {..<length cs}) = cs"
  by (rule nth_equalityI) (simp_all add: slots_of_nth)

lemma slots_of_cap: "slots_of cs (I \<inter> {..<length cs}) = slots_of cs I"
  by (rule nth_equalityI) (simp_all add: slots_of_nth)

lemma slot_bytes_le: "slot_bytes (slots_of cs I) \<le> length (concat cs)"
proof -
  have "slot_bytes (slots_of cs I) \<le> (\<Sum>j\<leftarrow>[0..<length cs]. length (cs ! j))"
    unfolding slot_bytes_def slots_of_def map_map by (rule sum_list_mono) auto
  also have "map (\<lambda>j. length (cs ! j)) [0..<length cs] = map length cs"
    by (rule nth_equalityI) simp_all
  also have "sum_list (map length cs) = length (concat cs)"
    by (simp add: length_concat)
  finally show ?thesis .
qed

section \<open>One step\<close>

text \<open>What storing a genuine fragment gives.\<close>

lemma store_piece:
  assumes cut: "cut_ok key cs" and j: "j < length cs" and wf: "partial_wf p"
    and p: "pd_original_length p = length (concat cs)" "pd_fragment_count p = of_nat (length cs)"
      "pd_fragments p = slots_of cs I"
    and open_p: "pd_received_fragments p < unat (pd_fragment_count p)"
  shows "j \<in> I \<Longrightarrow> store_fragment (piece key cs j) p = Some SlotDuplicate"
    and "j \<notin> I \<Longrightarrow> \<exists>q. store_fragment (piece key cs j) p =
        Some (SlotStored q ({..<length cs} \<subseteq> insert j I)) \<and>
      pd_fragments q = slots_of cs (insert j I) \<and> pd_started_at q = pd_started_at p \<and>
      pd_original_length q = pd_original_length p \<and> pd_fragment_count q = pd_fragment_count p"
proof -
  note f = piece_fields [OF cut j]
  show "store_fragment (piece key cs j) p = Some SlotDuplicate" if "j \<in> I"
    using that j f p by (simp add: store_fragment_def Let_def slots_of_nth)
  assume new: "j \<notin> I"
  have slots: "slots_filled (slots_of cs (insert j I)) = Suc (pd_received_fragments p)"
    "slot_bytes (slots_of cs (insert j I)) = pd_received_bytes p + length (cs ! j)"
    using slot_bytes_update [of j "slots_of cs I" "cs ! j"] wf j new p(3)
    by (simp_all add: slots_of_nth slots_of_insert partial_wf_def)
  have n: "unat (pd_fragment_count p) = length cs" using p(2) f(2,3) by simp
  have le: "pd_received_bytes p + length (cs ! j) \<le> length (concat cs)"
    using slot_bytes_le [of cs "insert j I"] slots(2) by simp
  have "Suc (pd_received_fragments p) \<le> 64" using open_p n cut by (simp add: cut_ok_def)
  then have adds: "checked_add (pd_received_bytes p) (length (cs ! j)) = Some (pd_received_bytes p + length (cs ! j))"
    "checked_add (pd_received_fragments p) 1 = Some (Suc (pd_received_fragments p))"
    using le cut by (auto simp: checked_add_def cut_ok_def usize_max_def)
  have full: "Suc (pd_received_fragments p) = length cs \<longleftrightarrow> {..<length cs} \<subseteq> insert j I"
    using slots(1) slots_filled_all [of "slots_of cs (insert j I)"] slots_of_full [of cs "insert j I"]
    by simp
  show "\<exists>q. store_fragment (piece key cs j) p = Some (SlotStored q ({..<length cs} \<subseteq> insert j I)) \<and>
      pd_fragments q = slots_of cs (insert j I) \<and> pd_started_at q = pd_started_at p \<and>
      pd_original_length q = pd_original_length p \<and> pd_fragment_count q = pd_fragment_count p"
    using new j f p n le adds full
    by (auto simp: store_fragment_def Let_def slots_of_nth slots_of_insert)
qed

lemma assembling_into_partial:
  assumes asm: "assembling key cs start I r" and cut: "cut_ok key cs" and j: "j < length cs"
  obtains r' where "push_into_partial key (piece key cs j) now r = Some (r', Ok
      (if j \<in> I then Duplicate
       else if {..<length cs} \<subseteq> insert j I then Complete (concat cs) else Pending))"
    and "ra_config r' = ra_config r"
    and "j \<in> I \<or> \<not> {..<length cs} \<subseteq> insert j I \<Longrightarrow> assembling key cs start (insert j I) r'"
proof -
  let ?f = "piece key cs j"
  from asm obtain p where inv: "reassembler_inv r" and c: "hm_get (ra_completed r) key = None"
    and p: "hm_get (ra_partials r) key = Some p" "pd_started_at p = start"
      "pd_original_length p = length (concat cs)" "pd_fragment_count p = of_nat (length cs)"
      "pd_fragments p = slots_of cs I"
    by (auto simp: assembling_def)
  have wf: "partial_wf p" "pd_received_fragments p < unat (pd_fragment_count p)"
    using inv p(1) by (auto simp: reassembler_inv_def partials_wf_def)
  note store = store_piece [OF cut j wf(1) p(3,4,5) wf(2)]
  show thesis
  proof (cases "j \<in> I")
    case True
    then have "assembling key cs start (insert j I) r" using asm by (simp add: insert_absorb)
    with True store(1) p(1) that [of r] show ?thesis by (simp add: push_into_partial_def)
  next
    case False
    then obtain q where q: "store_fragment ?f p = Some (SlotStored q ({..<length cs} \<subseteq> insert j I))"
      "pd_fragments q = slots_of cs (insert j I)" "pd_started_at q = pd_started_at p"
      "pd_original_length q = pd_original_length p" "pd_fragment_count q = pd_fragment_count p"
      using store(2) by blast
    obtain q' where "store_fragment ?f p = Some (SlotStored q'
        (pd_received_fragments q' = unat (pd_fragment_count q')))" "partial_wf q'"
      using store_fragment_spec [OF piece_ok(1) [OF cut j] wf] q(1) by auto
    with q(1) have qwf: "partial_wf q" and full: "{..<length cs} \<subseteq> insert j I \<longleftrightarrow>
        pd_received_fragments q = unat (pd_fragment_count q)" by auto
    let ?r = "r\<lparr>ra_partials := hm_insert key q (ra_partials r)\<rparr>"
    note upd = replace_partial_inv [OF inv p(1) qwf q(4), unfolded Let_def]
    have into: "push_into_partial key ?f now r =
        (if {..<length cs} \<subseteq> insert j I then finish_datagram key now ?r else Some (?r, Ok Pending))"
      using p(1) q(1) by (simp add: push_into_partial_def)
    show ?thesis
    proof (cases "{..<length cs} \<subseteq> insert j I")
      case complete: True
      then have slots: "pd_fragments q = slots_of cs {..<length cs}"
        using q(2) slots_of_cap [of cs "insert j I"] by (simp add: Int_absorb1)
      have bytes: "slot_bytes (pd_fragments q) = pd_original_length q"
        using collect_fragments_all [of "pd_fragments q"] slots p(3) q(4)
        by (simp add: slots_of_all slots_of_full [of cs "{..<length cs}", simplified])
      obtain r' where "finish_datagram key now ?r = Some (r', Ok (Complete (concat cs)))"
        "ra_config r' = ra_config ?r"
      proof (rule finish_datagram_spec [of ?r key q now])
        show "partials_accounted ?r" "completed_accounted ?r" "partials_wf {key} ?r" using upd by blast+
      qed (use complete full c bytes slots in \<open>simp_all add: slots_of_all\<close>)
      with complete False into that [of r'] show ?thesis by simp
    next
      case False
      have "pd_received_fragments q < unat (pd_fragment_count q)"
        using False full qwf slots_filled_le [of "pd_fragments q"] by (simp add: partial_wf_def)
      with upd have "assembling key cs start (insert j I) ?r"
        using c p q by (simp add: assembling_def)
      with False \<open>j \<notin> I\<close> into that [of ?r] show ?thesis by simp
    qed
  qed
qed

lemma assembling_expire:
  assumes asm: "assembling key cs start I r"
    and time: "\<not> elapsed_at_least now start (rc_timeout (ra_config r))"
  obtains r' x where "expire now r = Some (r', x)" and "ra_config r' = ra_config r"
    and "assembling key cs start I r'"
proof -
  from asm obtain p where inv: "reassembler_inv r" and c: "hm_get (ra_completed r) key = None"
    and p: "hm_get (ra_partials r) key = Some p" "pd_started_at p = start"
      "pd_original_length p = length (concat cs)" "pd_fragment_count p = of_nat (length cs)"
      "pd_fragments p = slots_of cs I"
    by (auto simp: assembling_def)
  obtain r' x where r': "expire now r = Some (r', x)" "reassembler_inv r'" "ra_config r' = ra_config r"
    "hm_get (ra_partials r') key = Some p" "set (ra_completed r') \<subseteq> set (ra_completed r)"
    using expire_spec [OF inv, of now] p(1,2) time by metis
  have "hm_get (ra_completed r') key = None"
    using r'(5) c by (metis image_mono map_of_eq_None_iff subsetD)
  with r' p that show ?thesis by (simp add: assembling_def)
qed

lemma assembling_accepts_piece:
  assumes asm: "assembling key cs start I r" and cut: "cut_ok key cs" and j: "j < length cs"
    and time: "\<not> elapsed_at_least now start (rc_timeout (ra_config r))"
  obtains r' where "push (piece key cs j) now r = Some (r', Ok
      (if j \<in> I then Duplicate
       else if {..<length cs} \<subseteq> insert j I then Complete (concat cs) else Pending))"
    and "ra_config r' = ra_config r"
    and "j \<in> I \<or> \<not> {..<length cs} \<subseteq> insert j I \<Longrightarrow> assembling key cs start (insert j I) r'"
proof -
  obtain r1 e where r1: "expire now r = Some (r1, e)" "ra_config r1 = ra_config r"
    "assembling key cs start I r1"
    using assembling_expire [OF asm time] by blast
  then obtain p where "hm_get (ra_completed r1) key = None" "hm_get (ra_partials r1) key = Some p"
    by (auto simp: assembling_def)
  then have "push (piece key cs j) now r = push_into_partial key (piece key cs j) now r1"
    using r1(1) piece_ok [OF cut j] by (simp add: push_def Let_def validate_fragment_ok_iff [symmetric])
  with assembling_into_partial [OF r1(3) cut j, of now] r1(2) that show ?thesis by metis
qed

text \<open>The first fragment of a datagram that is answered \<open>Pending\<close> opens its assembly.\<close>

lemma first_piece:
  assumes inv: "reassembler_inv r" and cut: "cut_ok key cs" and j: "j < length cs"
    and fresh: "hm_get (ra_partials r) key = None"
    and push: "push (piece key cs j) now r = Some (r', Ok Pending)"
  shows "assembling key cs now {j} r' \<and> ra_config r' = ra_config r"
proof -
  let ?f = "piece key cs j"
  have ok: "fragment_ok ?f" "uf_original_length ?f \<noteq> 0" using piece_ok [OF cut j] .
  then have v: "validate_fragment ?f = Ok ()" by (simp add: validate_fragment_ok_iff)
  obtain r1 e where r1: "expire now r = Some (r1, e)" "reassembler_inv r1" "ra_config r1 = ra_config r"
    "map_of (ra_partials r1) \<subseteq>\<^sub>m map_of (ra_partials r)"
    using expire_spec [OF inv, of now] by metis
  have new: "hm_get (ra_partials r1) key = None"
    using r1(4) fresh by (metis domIff map_le_def)
  have c: "hm_get (ra_completed r1) key = None"
  proof (rule ccontr)
    assume "hm_get (ra_completed r1) key \<noteq> None"
    with push v r1(1) show False by (simp add: push_def Let_def)
  qed
  show ?thesis
  proof (cases rule: insert_partial_spec [OF r1(2) ok, unfolded key_of_piece, OF new, of now])
    case (1 e)
    with push v r1(1) c new ok(2) show ?thesis by (simp add: push_def Let_def)
  next
    case (2 r2)
    have same: "ra_config r2 = ra_config r" "hm_get (ra_completed r2) key = None"
      using 2(3) r1(3) c by (simp_all add: same_completed_def)
    have "assembling key cs now {} r2"
      using 2(2,4) same(2) piece_fields [OF cut j]
      by (simp add: assembling_def fresh_partial_def slots_of_empty)
    from assembling_into_partial [OF this cut j, of now] obtain r3 where
      r3: "push_into_partial key ?f now r2 = Some (r3, Ok (if {..<length cs} \<subseteq> {j} then Complete (concat cs) else Pending))"
        "ra_config r3 = ra_config r2"
        "\<not> {..<length cs} \<subseteq> {j} \<Longrightarrow> assembling key cs now {j} r3"
      by auto
    have "push ?f now r = push_into_partial key ?f now r2"
      using 2(1) v r1(1) c new ok(2) by (simp add: push_def Let_def)
    with r3 push same(1) show ?thesis by (auto split: if_splits)
  qed
qed

section \<open>Other traffic\<close>

text \<open>
  An operation that does not disturb the datagram \<open>key\<close>, whose assembly started at \<open>start\<close>: it
  happens before the timeout, does not close the session, and any fragment it pushes under
  \<open>key\<close> is one of the genuine fragments \<open>fs\<close>.
\<close>

fun undisturbing :: "datagram_key \<Rightarrow> udp_fragment list \<Rightarrow> instant \<Rightarrow> duration \<Rightarrow> udp_op \<Rightarrow> bool" where
  "undisturbing key fs start timeout (OpPush f now) \<longleftrightarrow>
     \<not> elapsed_at_least now start timeout \<and> (key_of_fragment f = key \<longrightarrow> f \<in> set fs)"
| "undisturbing key fs start timeout (OpExpire now) \<longleftrightarrow> \<not> elapsed_at_least now start timeout"
| "undisturbing key fs start timeout (OpDiscardSession s) \<longleftrightarrow> s \<noteq> dk_session_id key"

fun pushed :: "udp_fragment list \<Rightarrow> udp_op list \<Rightarrow> nat set" where
  "pushed fs [] = {}"
| "pushed fs (OpPush f now # ops) = {j. j < length fs \<and> fs ! j = f} \<union> pushed fs ops"
| "pushed fs (OpExpire now # ops) = pushed fs ops"
| "pushed fs (OpDiscardSession s # ops) = pushed fs ops"

definition pieces :: "datagram_key \<Rightarrow> bytes list \<Rightarrow> udp_fragment list" where
  "pieces key cs = map (piece key cs) [0..<length cs]"

lemma length_pieces [simp]: "length (pieces key cs) = length cs"
  by (simp add: pieces_def)

lemma pieces_nth [simp]: "j < length cs \<Longrightarrow> pieces key cs ! j = piece key cs j"
  by (simp add: pieces_def)

lemma piece_inj: "cut_ok key cs \<Longrightarrow> i < length cs \<Longrightarrow> j < length cs \<Longrightarrow>
    piece key cs i = piece key cs j \<Longrightarrow> i = j"
  using piece_fields(1) by metis

lemma assembling_push_other:
  assumes asm: "assembling key cs start I r" and other: "key_of_fragment f \<noteq> key"
    and time: "\<not> elapsed_at_least now start (rc_timeout (ra_config r))"
  obtains r' x where "push f now r = Some (r', x)" and "ra_config r' = ra_config r"
    and "assembling key cs start I r'"
proof -
  from asm obtain p where inv: "reassembler_inv r" and c: "hm_get (ra_completed r) key = None"
    and p: "hm_get (ra_partials r) key = Some p" "pd_started_at p = start"
      "pd_original_length p = length (concat cs)" "pd_fragment_count p = of_nat (length cs)"
      "pd_fragments p = slots_of cs I"
    by (auto simp: assembling_def)
  obtain r' x where r': "push f now r = Some (r', x)" "reassembler_inv r'" "ra_config r' = ra_config r"
    "hm_get (ra_partials r') key = Some p"
    "fst ` set (ra_completed r') \<subseteq> insert (key_of_fragment f) (fst ` set (ra_completed r))"
    by (rule push_spec [OF inv, of f now], rule that, assumption+)
      (use other p(1,2) time in auto)
  have "hm_get (ra_completed r') key = None"
    using r'(5) c other by (metis insertE map_of_eq_None_iff subsetD)
  with r' p that show ?thesis by (simp add: assembling_def)
qed

lemma assembling_discard_other:
  assumes asm: "assembling key cs start I r" and other: "s \<noteq> dk_session_id key"
  obtains r' x where "discard_session s r = Some (r', x)" and "ra_config r' = ra_config r"
    and "assembling key cs start I r'"
proof -
  have inv: "reassembler_inv r" using asm by (simp add: assembling_def)
  obtain r' x where "discard_session s r = Some (r', x)" "reassembler_inv r'" "ra_config r' = ra_config r"
    "hm_get (ra_partials r') key = hm_get (ra_partials r) key"
    "hm_get (ra_completed r') key = hm_get (ra_completed r) key"
    using discard_session_spec [OF inv, of s] other by metis
  with asm that show ?thesis by (simp add: assembling_def)
qed

lemma pushed_bound: "pushed fs ops \<subseteq> {..<length fs}"
  by (induction fs ops rule: pushed.induct) auto

lemma assembling_run:
  assumes "assembling key cs start I r" and cut: "cut_ok key cs"
    and "\<forall>op \<in> set ops. undisturbing key (pieces key cs) start (rc_timeout (ra_config r)) op"
    and "I \<union> pushed (pieces key cs) ops \<noteq> {..<length cs}" and "I \<subseteq> {..<length cs}"
  shows "\<exists>r' outs. run_machine udp_step ops r = Some (r', outs) \<and> ra_config r' = ra_config r \<and>
    assembling key cs start (I \<union> pushed (pieces key cs) ops) r'"
  using assms(1,3-5)
proof (induction ops arbitrary: r I)
  case Nil
  then show ?case by simp
next
  case (Cons op ops)
  let ?fs = "pieces key cs"
  have more: "\<exists>r' outs. run_machine udp_step (op # ops) r = Some (r', outs) \<and> ra_config r' = ra_config r \<and>
      assembling key cs start (J \<union> pushed ?fs ops) r'"
    if "udp_step op r = Some (r1, x)" "ra_config r1 = ra_config r" "assembling key cs start J r1"
      "J \<union> pushed ?fs ops \<noteq> {..<length cs}" "J \<subseteq> {..<length cs}" for r1 x J
    using Cons.IH [OF that(3)] Cons.prems(2) that by auto
  show ?case
  proof (cases op)
    case (OpPush f now)
    then have time: "\<not> elapsed_at_least now start (rc_timeout (ra_config r))"
      and mine: "key_of_fragment f = key \<Longrightarrow> f \<in> set ?fs" using Cons.prems(2) by auto
    show ?thesis
    proof (cases "key_of_fragment f = key")
      case True
      with mine obtain j where j: "j < length cs" "f = piece key cs j" by (auto simp: pieces_def)
      then have js: "{i. i < length ?fs \<and> ?fs ! i = f} = {j}" using piece_inj [OF cut] by auto
      have "\<not> {..<length cs} \<subseteq> insert j I"
        using Cons.prems(3,4) pushed_bound [of ?fs ops] OpPush js j(1) by auto
      with assembling_accepts_piece [OF Cons.prems(1) cut j(1) time] obtain r1 x where
        "push f now r = Some (r1, x)" "ra_config r1 = ra_config r" "assembling key cs start (insert j I) r1"
        unfolding j(2) by metis
      with more [of r1 "PushResult x" "insert j I"] Cons.prems(3,4) OpPush js j(1) show ?thesis by simp
    next
      case False
      then have js: "{i. i < length ?fs \<and> ?fs ! i = f} = {}" by auto
      have pd: "pushed ?fs (op # ops) = pushed ?fs ops" unfolding OpPush pushed.simps js by simp
      obtain r1 x where r1: "push f now r = Some (r1, x)" "ra_config r1 = ra_config r"
        "assembling key cs start I r1"
        using assembling_push_other [OF Cons.prems(1) False time] by blast
      show ?thesis unfolding pd
        by (rule more [OF _ r1(2,3) Cons.prems(3) [unfolded pd] Cons.prems(4), of "PushResult x"])
          (simp add: OpPush r1(1))
    qed
  next
    case (OpExpire now)
    then have time: "\<not> elapsed_at_least now start (rc_timeout (ra_config r))"
      using Cons.prems(2) by auto
    obtain r1 x where "expire now r = Some (r1, x)" "ra_config r1 = ra_config r"
        "assembling key cs start I r1"
      using assembling_expire [OF Cons.prems(1) time] by blast
    with more [of r1 "ExpirationResult x" I] Cons.prems(3,4) OpExpire show ?thesis by simp
  next
    case (OpDiscardSession s)
    then have other: "s \<noteq> dk_session_id key" using Cons.prems(2) by auto
    obtain r1 x where "discard_session s r = Some (r1, x)" "ra_config r1 = ra_config r"
        "assembling key cs start I r1"
      using assembling_discard_other [OF Cons.prems(1) other] by blast
    with more [of r1 "ExpirationResult x" I] Cons.prems(3,4) OpDiscardSession show ?thesis by simp
  qed
qed

section \<open>End to end\<close>

definition datagram_key_of :: "udp_direction \<Rightarrow> uuid \<Rightarrow> u64 \<Rightarrow> datagram_key" where
  "datagram_key_of d s i = \<lparr>dk_direction = d, dk_session_id = s, dk_datagram_id = i\<rparr>"

lemma split_datagram_pieces:
  assumes "0 < k" and "payload \<noteq> []"
  shows "split_datagram d s i payload k = pieces (datagram_key_of d s i) (chunks k payload)"
  using assms
  by (intro nth_equalityI)
    (simp_all add: split_datagram_def Let_def datagram_fragments_nth piece_def datagram_key_of_def
      concat_chunks)

lemma chunks_cut_ok:
  assumes "s \<noteq> 0" and "length payload \<le> 65507" and "0 < k" and "length payload \<le> 64 * k"
    and "payload \<noteq> []"
  shows "cut_ok (datagram_key_of d s i) (chunks k payload)"
proof -
  have "length (chunks k payload) \<le> 64" using assms by (simp add: length_chunks div_ceil_le_iff)
  moreover have "chunks k payload \<noteq> []" using assms by (simp add: chunks_step)
  ultimately show ?thesis
    using assms chunks_bounds [OF assms(3)] by (auto simp: cut_ok_def datagram_key_of_def concat_chunks)
qed

lemma sent_fragments:
  assumes "fragment_datagram d s i payload m = Ok frames" and "map_result udp_decode frames = Ok fs"
  shows "fs = split_datagram d s i payload (m - 40) \<and> s \<noteq> 0 \<and> length payload \<le> 65507 \<and> 40 < m \<and>
    length payload \<le> 64 * (m - 40)"
proof -
  have "map_result udp_encode (split_datagram d s i payload (m - 40)) = Ok frames"
    using assms(1) by (auto simp: fragment_datagram_conv split: if_splits)
  from udp_codec.dec_all [OF this] assms show ?thesis
    by (auto simp: fragment_datagram_conv split: if_splits)
qed

lemma empty_datagram_not_pending:
  "uf_original_length f = 0 \<Longrightarrow> push f now r \<noteq> Some (r', Ok Pending)"
  by (auto simp: push_def Let_def bind_eq_Some_conv split: sum.splits if_splits)

text \<open>
  C5. End-to-end delivery over the UDP data plane. Let \<open>fs\<close> be the fragments of a datagram sent
  by \<open>fragment_datagram\<close>. Once one of them has been accepted as \<open>Pending\<close> at \<open>t0\<close>, any sequence
  of operations before the timeout that does not close the session and does not forge fragments
  of this datagram (pushes of its fragments in any order and with repetitions, fragments of any
  other datagram, expiry sweeps, closures of other sessions) leaves the reassembler such that the
  last missing fragment yields exactly the datagram's payload.
\<close>

theorem udp_datagram_delivered:
  assumes sent: "fragment_datagram d s i payload m = Ok frames" "map_result udp_decode frames = Ok fs"
    and inv: "reassembler_inv r0" and fresh: "hm_get (ra_partials r0) (datagram_key_of d s i) = None"
    and first: "j0 < length fs" "push (fs ! j0) t0 r0 = Some (r1, Ok Pending)"
    and ops: "\<forall>op \<in> set ops. undisturbing (datagram_key_of d s i) fs t0 (rc_timeout (ra_config r0)) op"
    and missing: "j < length fs" "insert j0 (pushed fs ops) = {..<length fs} - {j}"
    and time: "\<not> elapsed_at_least now t0 (rc_timeout (ra_config r0))"
  shows "\<exists>r2 outs r3. run_machine udp_step ops r1 = Some (r2, outs) \<and>
    push (fs ! j) now r2 = Some (r3, Ok (Complete payload))"
proof -
  let ?key = "datagram_key_of d s i" and ?cs = "chunks (m - 40) payload"
  note sf = sent_fragments [OF sent]
  have ne: "payload \<noteq> []"
  proof
    assume "payload = []"
    then have "uf_original_length (fs ! j0) = 0"
      using sf first(1) by (auto simp: split_datagram_def datagram_fragments_nth chunk_fragment_def)
    with first(2) show False using empty_datagram_not_pending by blast
  qed
  have fs: "fs = pieces ?key ?cs" using sf ne split_datagram_pieces [of "m - 40" payload d s i] by simp
  have cut: "cut_ok ?key ?cs" using sf ne by (intro chunks_cut_ok) auto
  have len: "length fs = length ?cs" by (simp add: fs)
  have asm: "assembling ?key ?cs t0 {j0} r1" "ra_config r1 = ra_config r0"
    using first_piece [OF inv cut _ fresh, of j0 t0 r1] first by (simp_all add: fs)
  obtain r2 outs where r2: "run_machine udp_step ops r1 = Some (r2, outs)" "ra_config r2 = ra_config r1"
    "assembling ?key ?cs t0 ({..<length fs} - {j}) r2"
    using assembling_run [OF asm(1) cut, of ops] ops missing first(1)
    unfolding asm(2) fs [symmetric] len [symmetric] by auto
  obtain r3 where "push (piece ?key ?cs j) now r2 = Some (r3, Ok (Complete (concat ?cs)))"
    by (rule assembling_accepts_piece [OF r2(3) cut, of j now])
      (use missing(1) time r2(2) asm(2) len that in \<open>simp_all add: subset_insertI split: if_splits\<close>)
  moreover have "fs ! j = piece ?key ?cs j" using missing(1) by (simp add: fs)
  moreover have "concat ?cs = payload" using sf by (simp add: concat_chunks)
  ultimately show ?thesis using r2(1) by auto
qed

definition sample_state :: udp_reassembler where
  "sample_state = sample_reassembler
     \<lparr>ra_partials := [(datagram_key_of PublicToTarget 7 9,
        \<lparr>pd_started_at = 0, pd_original_length = 2, pd_fragment_count = 2,
         pd_fragments = [Some [1], None], pd_received_fragments = 1, pd_received_bytes = 1\<rparr>)],
      ra_incomplete_by_session := [(7, 1)], ra_buffered_bytes := 2,
      ra_next_cleanup_at := Some REASSEMBLY_CLEANUP_INTERVAL\<rparr>"

lemma replicate_two: "replicate 2 x = [x, x]"
  by (simp add: numeral_2_eq_2)

lemma sample_push: "push (sample_fragment 0 1) 0 sample_reassembler = Some (sample_state, Ok Pending)"
  by (simp add: push_def validate_fragment_def sample_fragment_def sample_reassembler_def sample_state_def
      is_nil_def udp_defs Let_def expire_def insert_partial_def push_into_partial_def store_fragment_def
      default_reassembly_config_def checked_add_def usize_max_def saturating_add_def key_of_fragment_def
      datagram_key_of_def replicate_two)

lemma sample_finish: "\<exists>r. push (sample_fragment 1 2) 20 sample_state = Some (r, Ok (Complete [1, 2]))"
  by (simp add: push_def validate_fragment_def sample_fragment_def sample_reassembler_def sample_state_def
      is_nil_def udp_defs Let_def expire_def push_into_partial_def store_fragment_def checked_sub_def
      default_reassembly_config_def checked_add_def usize_max_def key_of_fragment_def remove_partial_def
      datagram_key_of_def finish_datagram_def REASSEMBLY_CLEANUP_INTERVAL_def word_le_nat_alt)

lemma sample_sent:
  "\<exists>frames. fragment_datagram PublicToTarget 7 9 [1, 2] 41 = Ok frames \<and>
     map_result udp_decode frames = Ok [sample_fragment 0 1, sample_fragment 1 2]"
proof -
  have "is_ok (fragment_datagram PublicToTarget 7 9 [1, 2] 41)"
    by (rule fragment_datagram_is_ok) simp_all
  then obtain frames where f: "fragment_datagram PublicToTarget 7 9 [1, 2] 41 = Ok frames"
    by (cases "fragment_datagram PublicToTarget 7 9 [1, 2] 41") auto
  moreover have "split_datagram PublicToTarget 7 9 [1, 2] 1 = [sample_fragment 0 1, sample_fragment 1 2]"
    by (simp add: split_datagram_def datagram_fragments_def chunks_step chunk_fragment_def sample_fragment_def)
  ultimately show ?thesis
    using udp_codec.dec_all [of "split_datagram PublicToTarget 7 9 [1, 2] 1" frames]
    by (auto simp: fragment_datagram_conv split: if_splits)
qed

theorem udp_datagram_delivered_witness:
  "\<exists>r2 outs r3. run_machine udp_step [OpPush (sample_fragment 0 1) 5, OpExpire 9] sample_state = Some (r2, outs) \<and>
    push (sample_fragment 1 2) 20 r2 = Some (r3, Ok (Complete [1, 2]))"
proof -
  obtain frames where sent: "fragment_datagram PublicToTarget 7 9 [1, 2] 41 = Ok frames"
    "map_result udp_decode frames = Ok [sample_fragment 0 1, sample_fragment 1 2]"
    using sample_sent by blast
  have inv: "reassembler_inv sample_reassembler"
    using reassembler_new_inv [OF sample_reassembler_new]
    by (simp add: default_reassembly_config_def usize_max_def)
  have ne: "sample_fragment 1 2 \<noteq> sample_fragment 0 1" by (simp add: sample_fragment_def)
  have early: "\<not> elapsed_at_least t 0 (rc_timeout (ra_config sample_reassembler))" if "t < 100" for t
    using that by (simp add: elapsed_at_least_def checked_sub_def sample_reassembler_def
        default_reassembly_config_def UDP_REASSEMBLY_TIMEOUT_def)
  have "insert 0 (pushed [sample_fragment 0 1, sample_fragment 1 2] [OpPush (sample_fragment 0 1) 5, OpExpire 9])
      = {..<length [sample_fragment 0 1, sample_fragment 1 2]} - {1}"
    using ne by (auto simp: less_Suc_eq)
  from udp_datagram_delivered [OF sent inv _ _ _ _ _ this, of 0 sample_state 20] early sample_push ne
  show ?thesis by (auto simp: sample_reassembler_def)
qed

section \<open>No forged length and no second delivery\<close>

lemma push_into_partial_complete:
  assumes inv: "reassembler_inv r" and ok: "fragment_ok f"
    and p: "hm_get (ra_partials r) key = Some p" and new: "hm_get (ra_completed r) key = None"
    and push: "push_into_partial key f now r = Some (r', Ok (Complete b))"
  shows "length b = unat (uf_original_length f) \<and> hm_get (ra_completed r') key = Some now \<and>
    reassembler_inv r' \<and> ra_config r' = ra_config r"
proof -
  have wf: "partial_wf p" "pd_received_fragments p < unat (pd_fragment_count p)"
    using inv p by (auto simp: reassembler_inv_def partials_wf_def)
  obtain q where q: "store_fragment f p = Some (SlotStored q
        (pd_received_fragments q = unat (pd_fragment_count q)))"
      "partial_wf q" "pd_original_length q = pd_original_length p"
    using store_fragment_spec [OF ok wf] push p by (auto simp: push_into_partial_def bind_eq_Some_conv)
  have orig: "pd_original_length p = unat (uf_original_length f)"
    using q(1) by (auto simp: store_fragment_def Let_def split: if_splits)
  let ?r = "r\<lparr>ra_partials := hm_insert key q (ra_partials r)\<rparr>"
  note upd = replace_partial_inv [OF inv p q(2,3), unfolded Let_def]
  have full: "pd_received_fragments q = unat (pd_fragment_count q)"
    and fin: "finish_datagram key now ?r = Some (r', Ok (Complete b))"
    using push p q(1) by (auto simp: push_into_partial_def Let_def split: if_splits)
  obtain r2 where r2: "finish_datagram key now ?r = Some (r2,
      if slot_bytes (pd_fragments q) = pd_original_length q
      then Ok (Complete (concat (map the (pd_fragments q)))) else Err CompletedLengthMismatch)"
    "reassembler_inv r2" "ra_config r2 = ra_config ?r"
    "slot_bytes (pd_fragments q) = pd_original_length q \<Longrightarrow> hm_get (ra_completed r2) key = Some now"
  proof (rule finish_datagram_spec [of ?r key q now])
    show "partials_accounted ?r" "completed_accounted ?r" "partials_wf {key} ?r" using upd by blast+
  qed (use full new in simp_all)
  have all: "None \<notin> set (pd_fragments q)"
    using q(2) full by (simp add: partial_wf_def slots_filled_all [symmetric])
  from r2 fin collect_fragments_all [OF all] q(3) orig show ?thesis by (auto split: if_splits)
qed

lemma push_complete:
  assumes inv: "reassembler_inv r" and push: "push f now r = Some (r', Ok (Complete b))"
  shows "length b = unat (uf_original_length f) \<and> hm_get (ra_completed r') (key_of_fragment f) = Some now \<and>
    reassembler_inv r' \<and> ra_config r' = ra_config r"
proof -
  let ?key = "key_of_fragment f"
  have v: "validate_fragment f = Ok ()" using push by (auto simp: push_def split: sum.splits)
  then have ok: "fragment_ok f" by (simp add: validate_fragment_ok_iff)
  obtain r1 e where r1: "expire now r = Some (r1, e)" "reassembler_inv r1" "ra_config r1 = ra_config r"
    using expire_spec [OF inv, of now] by metis
  have c1: "hm_get (ra_completed r1) ?key = None"
    using push v r1(1) by (auto simp: push_def Let_def split: if_splits)
  show ?thesis
  proof (cases "uf_original_length f = 0")
    case True
    then have "r' = remember_completed ?key now r1" "b = []"
      using push v r1(1) c1 by (auto simp: push_def Let_def)
    moreover have "completed_accounted r1" "0 < rc_max_completed_datagrams (ra_config r1)"
      using r1(2) by (simp_all add: reassembler_inv_def partials_accounted_def config_ok_def)
    ultimately show ?thesis
      using True r1 c1 remember_completed_spec [of r1 ?key now] remember_completed_inv [of r1 ?key now]
      by simp
  next
    case nonempty: False
    show ?thesis
    proof (cases "hm_get (ra_partials r1) ?key")
      case (Some p)
      then have "push_into_partial ?key f now r1 = Some (r', Ok (Complete b))"
        using push v r1(1) c1 nonempty by (simp add: push_def Let_def)
      from push_into_partial_complete [OF r1(2) ok Some c1 this] r1(3) show ?thesis by simp
    next
      case None
      show ?thesis
      proof (cases rule: insert_partial_spec [OF r1(2) ok nonempty None, of now])
        case (1 e)
        with push v r1(1) c1 nonempty None show ?thesis by (simp add: push_def Let_def)
      next
        case (2 r2)
        have into: "push_into_partial ?key f now r2 = Some (r', Ok (Complete b))"
          using 2(1) push v r1(1) c1 nonempty None by (simp add: push_def Let_def)
        have "hm_get (ra_partials r2) ?key = Some (fresh_partial f now)" "ra_config r2 = ra_config r"
          "hm_get (ra_completed r2) ?key = None"
          using 2(3,4) r1(3) c1 by (simp_all add: same_completed_def)
        with push_into_partial_complete [OF 2(2) ok _ _ into] show ?thesis by simp
      qed
    qed
  qed
qed



end
