(* ===== verification/Rust_Strings.thy ===== *)
theory Rust_Strings
  imports Prelude
begin

text \<open>
  Rust strings. A \<open>str\<close> is modelled as the list of its Unicode scalar values; its bytes are
  their UTF-8 encoding, \<open>len\<close> counts those bytes, and \<open>from_utf8\<close> is the checked decoder of
  the standard library. The remaining definitions are the string operations the LinkLake
  sources call: character classes, \<open>trim\<close>, \<open>split\<close>, \<open>split_once\<close>, \<open>rsplit_once\<close>,
  \<open>strip_prefix\<close>, \<open>join\<close>, \<open>to_string\<close> on unsigned integers and \<open>parse\<close> for them.
\<close>

section \<open>Strings and UTF-8\<close>

type_synonym str = "nat list"

definition lit :: "string \<Rightarrow> str" where
  "lit s = map of_char s"

definition is_scalar :: "nat \<Rightarrow> bool" where
  "is_scalar c \<longleftrightarrow> c < 0xD800 \<or> 0xE000 \<le> c \<and> c \<le> 0x10FFFF"

definition valid_str :: "str \<Rightarrow> bool" where
  "valid_str s \<longleftrightarrow> list_all is_scalar s"

definition utf8_char :: "nat \<Rightarrow> nat list" where
  "utf8_char c =
     (if c < 0x80 then [c]
      else if c < 0x800 then [0xC0 + c div 64, 0x80 + c mod 64]
      else if c < 0x10000 then [0xE0 + c div 4096, 0x80 + c div 64 mod 64, 0x80 + c mod 64]
      else [0xF0 + c div 262144, 0x80 + c div 4096 mod 64, 0x80 + c div 64 mod 64, 0x80 + c mod 64])"

definition as_bytes :: "str \<Rightarrow> bytes" where
  "as_bytes s = concat (map (\<lambda>c. map of_nat (utf8_char c)) s)"

definition len :: "str \<Rightarrow> nat" where
  "len s = sum_list (map (\<lambda>c. length (utf8_char c)) s)"

definition is_cont :: "u8 \<Rightarrow> bool" where
  "is_cont b \<longleftrightarrow> 0x80 \<le> unat b \<and> unat b < 0xC0"

definition cont_bits :: "u8 \<Rightarrow> nat" where
  "cont_bits b = unat b - 0x80"

text \<open>
  \<open>std::str::from_utf8\<close>: two-, three- and four-byte sequences must be shortest-form scalar
  values; surrogates and values above \<open>0x10FFFF\<close> are refused.
\<close>

fun from_utf8 :: "bytes \<Rightarrow> str option" where
  "from_utf8 [] = Some []"
| "from_utf8 (b # bs) =
     (if unat b < 0x80 then map_option (Cons (unat b)) (from_utf8 bs)
      else if 0xC2 \<le> unat b \<and> unat b < 0xE0 then
        (case bs of c1 # r \<Rightarrow>
           if is_cont c1
           then map_option (Cons ((unat b - 0xC0) * 64 + cont_bits c1)) (from_utf8 r)
           else None
         | [] \<Rightarrow> None)
      else if 0xE0 \<le> unat b \<and> unat b < 0xF0 then
        (case bs of c1 # c2 # r \<Rightarrow>
           (let c = (unat b - 0xE0) * 4096 + cont_bits c1 * 64 + cont_bits c2
            in if is_cont c1 \<and> is_cont c2 \<and> 0x800 \<le> c \<and> is_scalar c
               then map_option (Cons c) (from_utf8 r) else None)
         | _ \<Rightarrow> None)
      else if 0xF0 \<le> unat b \<and> unat b < 0xF5 then
        (case bs of c1 # c2 # c3 # r \<Rightarrow>
           (let c = (unat b - 0xF0) * 262144 + cont_bits c1 * 4096 + cont_bits c2 * 64 + cont_bits c3
            in if is_cont c1 \<and> is_cont c2 \<and> is_cont c3 \<and> 0x10000 \<le> c \<and> is_scalar c
               then map_option (Cons c) (from_utf8 r) else None)
         | _ \<Rightarrow> None)
      else None)"

definition is_ascii :: "str \<Rightarrow> bool" where
  "is_ascii s \<longleftrightarrow> list_all (\<lambda>c. c < 0x80) s"

lemma lit_Nil [simp]: "lit [] = []"
  by (simp add: lit_def)

lemma lit_Cons [simp]: "lit (c # cs) = of_char c # lit cs"
  by (simp add: lit_def)

lemma as_bytes_simps [simp]:
  "as_bytes [] = []"
  "as_bytes (c # s) = map of_nat (utf8_char c) @ as_bytes s"
  by (simp_all add: as_bytes_def)

lemma as_bytes_append [simp]: "as_bytes (s @ t) = as_bytes s @ as_bytes t"
  by (simp add: as_bytes_def)

lemma len_simps [simp]:
  "len [] = 0"
  "len (c # s) = length (utf8_char c) + len s"
  by (simp_all add: len_def)

lemma len_append [simp]: "len (s @ t) = len s + len t"
  by (simp add: len_def)

lemma length_as_bytes [simp]: "length (as_bytes s) = len s"
  by (induction s) auto

lemma len_ascii: "is_ascii s \<Longrightarrow> len s = length s"
  by (induction s) (auto simp: is_ascii_def utf8_char_def)

lemma len_eq_0_iff [simp]: "len s = 0 \<longleftrightarrow> s = []"
  by (cases s) (auto simp: utf8_char_def split: if_splits)

lemma length_le_len: "length s \<le> len s"
  by (induction s) (auto simp: utf8_char_def split: if_splits)

lemma unat_small_byte: "v < 256 \<Longrightarrow> unat (of_nat v :: u8) = v"
  by (simp add: unat_of_nat)

lemma from_utf8_3:
  assumes "unat b = 0xE0 + x" "x < 16" "unat c1 = 0x80 + y" "y < 64" "unat c2 = 0x80 + z" "z < 64"
    and "x * 4096 + y * 64 + z = v" "0x800 \<le> v" "is_scalar v"
  shows "from_utf8 (b # c1 # c2 # r) = map_option (Cons v) (from_utf8 r)"
  using assms by (simp add: is_cont_def cont_bits_def Let_def)

lemma from_utf8_4:
  assumes "unat b = 0xF0 + w" "w < 5" "unat c1 = 0x80 + x" "x < 64" "unat c2 = 0x80 + y" "y < 64"
    and "unat c3 = 0x80 + z" "z < 64"
    and "w * 262144 + x * 4096 + y * 64 + z = v" "0x10000 \<le> v" "is_scalar v"
  shows "from_utf8 (b # c1 # c2 # c3 # r) = map_option (Cons v) (from_utf8 r)"
  using assms by (simp add: is_cont_def cont_bits_def Let_def)

lemma from_utf8_char:
  assumes "is_scalar c"
  shows "from_utf8 (map of_nat (utf8_char c) @ bs) = map_option (Cons c) (from_utf8 bs)"
proof -
  consider "c < 0x80" | "0x80 \<le> c" "c < 0x800" | "0x800 \<le> c" "c < 0x10000" | "0x10000 \<le> c"
    by linarith
  then show ?thesis
  proof cases
    case 1
    then show ?thesis by (simp add: utf8_char_def unat_small_byte)
  next
    case 2
    then have q: "2 \<le> c div 64" "c div 64 < 32" by (auto simp: div_le_mono less_mult_imp_div_less)
    have m: "c mod 64 < 64" by simp
    have "unat (of_nat (0xC0 + c div 64) :: u8) = 0xC0 + c div 64"
      and "unat (of_nat (0x80 + c mod 64) :: u8) = 0x80 + c mod 64"
      by (rule unat_small_byte, use q m in linarith)+
    with 2 q m show ?thesis
      by (simp add: utf8_char_def is_cont_def cont_bits_def del: of_nat_add of_nat_numeral)
  next
    case 3
    then have q: "c div 4096 < 16" by (auto simp: less_mult_imp_div_less)
    have m1: "c div 64 mod 64 < 64" and m2: "c mod 64 < 64" by simp_all
    have u: "unat (of_nat (0xE0 + c div 4096) :: u8) = 0xE0 + c div 4096"
      "unat (of_nat (0x80 + c div 64 mod 64) :: u8) = 0x80 + c div 64 mod 64"
      "unat (of_nat (0x80 + c mod 64) :: u8) = 0x80 + c mod 64"
      by (rule unat_small_byte, use q m1 m2 in linarith)+
    have v: "c div 4096 * 4096 + c div 64 mod 64 * 64 + c mod 64 = c"
    proof -
      have a: "c div 64 div 64 = c div 4096" by (simp flip: div_mult2_eq)
      show ?thesis
        using div_mult_mod_eq [of c 64] div_mult_mod_eq [of "c div 64" 64] a by linarith
    qed
    have "utf8_char c = [0xE0 + c div 4096, 0x80 + c div 64 mod 64, 0x80 + c mod 64]"
      using 3 by (simp add: utf8_char_def)
    then show ?thesis
      using from_utf8_3 [OF u(1) q u(2) m1 u(3) m2 v 3(1) assms] by (simp only: list.map append.simps)
  next
    case 4
    have ub: "c \<le> 0x10FFFF" using assms 4 by (auto simp: is_scalar_def)
    then have "c < 5 * 262144" by simp
    then have q: "c div 262144 < 5" by (simp only: less_mult_imp_div_less)
    have m0: "c div 4096 mod 64 < 64" and m1: "c div 64 mod 64 < 64" and m2: "c mod 64 < 64"
      by simp_all
    have u: "unat (of_nat (0xF0 + c div 262144) :: u8) = 0xF0 + c div 262144"
      "unat (of_nat (0x80 + c div 4096 mod 64) :: u8) = 0x80 + c div 4096 mod 64"
      "unat (of_nat (0x80 + c div 64 mod 64) :: u8) = 0x80 + c div 64 mod 64"
      "unat (of_nat (0x80 + c mod 64) :: u8) = 0x80 + c mod 64"
      by (rule unat_small_byte, use q m0 m1 m2 in linarith)+
    have v: "c div 262144 * 262144 + c div 4096 mod 64 * 4096 + c div 64 mod 64 * 64 + c mod 64 = c"
    proof -
      have a: "c div 64 div 64 = c div 4096" "c div 4096 div 64 = c div 262144"
        by (simp_all flip: div_mult2_eq)
      show ?thesis
        using div_mult_mod_eq [of c 64] div_mult_mod_eq [of "c div 64" 64]
          div_mult_mod_eq [of "c div 4096" 64] a by linarith
    qed
    have "utf8_char c =
        [0xF0 + c div 262144, 0x80 + c div 4096 mod 64, 0x80 + c div 64 mod 64, 0x80 + c mod 64]"
      using 4 by (simp add: utf8_char_def)
    then show ?thesis
      using from_utf8_4 [OF u(1) q u(2) m0 u(3) m1 u(4) m2 v 4 assms]
      by (simp only: list.map append.simps)
  qed
qed

lemma from_utf8_as_bytes: "valid_str s \<Longrightarrow> from_utf8 (as_bytes s) = Some s"
  by (induction s) (simp_all add: valid_str_def from_utf8_char)

lemma unat_byte_less: "unat (b :: u8) < 256"
  using unsigned_less [of b] by simp

lemma byte_of_unat [simp]: "(of_nat (unat b) :: u8) = b"
  by simp

lemma div_mod_64: "c = q * 64 + r \<Longrightarrow> r < 64 \<Longrightarrow> c div 64 = q \<and> c mod 64 = (r::nat)"
  by simp

lemma utf8_char_of_cont2:
  assumes "0xC2 \<le> unat b" "unat b < 0xE0" "is_cont c1"
  shows "map of_nat (utf8_char ((unat b - 0xC0) * 64 + cont_bits c1)) = [b, c1]"
proof -
  define c where "c = (unat b - 0xC0) * 64 + cont_bits c1"
  have k: "cont_bits c1 < 64" using assms(3) by (auto simp: is_cont_def cont_bits_def)
  have "0x80 \<le> c" "c < 0x800" using assms k unfolding c_def by auto
  moreover have "c div 64 = unat b - 0xC0" "c mod 64 = cont_bits c1" using k by (simp_all add: c_def)
  ultimately have "utf8_char c = [unat b, unat c1]"
    using assms by (auto simp: utf8_char_def is_cont_def cont_bits_def)
  then show ?thesis by (simp add: c_def)
qed

lemma utf8_char_of_cont3:
  assumes "0xE0 \<le> unat b" "unat b < 0xF0" "is_cont c1" "is_cont c2"
    and "c = (unat b - 0xE0) * 4096 + cont_bits c1 * 64 + cont_bits c2" "0x800 \<le> c"
  shows "map of_nat (utf8_char c) = [b, c1, c2]"
proof -
  have k: "cont_bits c1 < 64" "cont_bits c2 < 64"
    using assms(3,4) by (auto simp: is_cont_def cont_bits_def)
  have lt: "c < 0x10000" using assms k by auto
  have q: "c = ((unat b - 0xE0) * 64 + cont_bits c1) * 64 + cont_bits c2" using assms(5) by simp
  have d64: "c div 64 = (unat b - 0xE0) * 64 + cont_bits c1" and "c mod 64 = cont_bits c2"
    using div_mod_64 [OF q k(2)] by blast+
  moreover have "c div 4096 = unat b - 0xE0"
  proof -
    have "c div 4096 = c div 64 div 64" by (simp flip: div_mult2_eq)
    then show ?thesis using k by (simp add: d64)
  qed
  moreover have "c div 64 mod 64 = cont_bits c1" using k by (simp add: d64)
  moreover have "utf8_char c = [0xE0 + c div 4096, 0x80 + c div 64 mod 64, 0x80 + c mod 64]"
    using assms(6) lt by (simp add: utf8_char_def)
  ultimately have "utf8_char c = [unat b, unat c1, unat c2]"
    using assms(1-4) by (simp add: is_cont_def cont_bits_def)
  then show ?thesis by simp
qed

lemma utf8_char_of_cont4:
  assumes "0xF0 \<le> unat b" "is_cont c1" "is_cont c2" "is_cont c3"
    and "c = (unat b - 0xF0) * 262144 + cont_bits c1 * 4096 + cont_bits c2 * 64 + cont_bits c3"
    and "0x10000 \<le> c"
  shows "map of_nat (utf8_char c) = [b, c1, c2, c3]"
proof -
  have k: "cont_bits c1 < 64" "cont_bits c2 < 64" "cont_bits c3 < 64"
    using assms(2-4) by (auto simp: is_cont_def cont_bits_def)
  have q: "c = (((unat b - 0xF0) * 64 + cont_bits c1) * 64 + cont_bits c2) * 64 + cont_bits c3"
    using assms(5) by simp
  have d1: "c div 64 = ((unat b - 0xF0) * 64 + cont_bits c1) * 64 + cont_bits c2"
    and m1: "c mod 64 = cont_bits c3" using div_mod_64 [OF q k(3)] by blast+
  have d2: "c div 4096 = (unat b - 0xF0) * 64 + cont_bits c1"
  proof -
    have "c div 4096 = c div 64 div 64" by (simp flip: div_mult2_eq)
    then show ?thesis using div_mod_64 [OF d1 k(2)] by simp
  qed
  have d3: "c div 262144 = unat b - 0xF0"
  proof -
    have "c div 262144 = c div 4096 div 64" by (simp flip: div_mult2_eq)
    then show ?thesis using k by (simp add: d2)
  qed
  have "c div 64 mod 64 = cont_bits c2" "c div 4096 mod 64 = cont_bits c1"
    using div_mod_64 [OF d1 k(2)] div_mod_64 [OF d2 k(1)] by blast+
  with m1 d3 have "utf8_char c = [unat b, unat c1, unat c2, unat c3]"
    using assms(1-4,6) by (auto simp: utf8_char_def is_cont_def cont_bits_def)
  then show ?thesis by simp
qed

lemma as_bytes_from_utf8: "from_utf8 bs = Some s \<Longrightarrow> as_bytes s = bs \<and> valid_str s"
proof (induction bs arbitrary: s rule: from_utf8.induct)
  case 1
  then show ?case by (simp add: valid_str_def)
next
  case (2 b bs)
  consider (a) "unat b < 0x80" | (b) "0xC2 \<le> unat b" "unat b < 0xE0"
    | (c) "0xE0 \<le> unat b" "unat b < 0xF0" | (d) "0xF0 \<le> unat b" "unat b < 0xF5"
    using "2.prems" by (auto split: if_splits)
  then show ?case
  proof cases
    case a
    with "2.prems" "2.IH"(1) show ?thesis
      by (auto simp: utf8_char_def valid_str_def is_scalar_def)
  next
    case b
    with "2.prems" obtain c1 r s' where bs: "bs = c1 # r" and c1: "is_cont c1"
      and r: "from_utf8 r = Some s'" and s: "s = ((unat b - 0xC0) * 64 + cont_bits c1) # s'"
      by (auto split: list.splits if_splits)
    have "as_bytes s' = r \<and> valid_str s'" using "2.IH"(2) b bs c1 r by simp
    moreover have "is_scalar ((unat b - 0xC0) * 64 + cont_bits c1)"
      using b c1 by (auto simp: is_scalar_def is_cont_def cont_bits_def)
    ultimately show ?thesis using utf8_char_of_cont2 [OF b c1] by (simp add: s bs valid_str_def)
  next
    case c
    with "2.prems" obtain c1 c2 r s' v where bs: "bs = c1 # c2 # r" and cc: "is_cont c1" "is_cont c2"
      and v: "v = (unat b - 0xE0) * 4096 + cont_bits c1 * 64 + cont_bits c2" "0x800 \<le> v" "is_scalar v"
      and r: "from_utf8 r = Some s'" and s: "s = v # s'"
      by (auto simp: Let_def split: list.splits if_splits)
    have "as_bytes s' = r \<and> valid_str s'" using "2.IH"(3) c bs cc r v by (simp add: Let_def)
    then show ?thesis using utf8_char_of_cont3 [OF c cc v(1,2)] v(3) by (simp add: s bs valid_str_def)
  next
    case d
    with "2.prems" obtain c1 c2 c3 r s' v where bs: "bs = c1 # c2 # c3 # r"
      and cc: "is_cont c1" "is_cont c2" "is_cont c3"
      and v: "v = (unat b - 0xF0) * 262144 + cont_bits c1 * 4096 + cont_bits c2 * 64 + cont_bits c3"
        "0x10000 \<le> v" "is_scalar v"
      and r: "from_utf8 r = Some s'" and s: "s = v # s'"
      by (auto simp: Let_def split: list.splits if_splits)
    have "as_bytes s' = r \<and> valid_str s'" using "2.IH"(4) d bs cc r v by (simp add: Let_def)
    then show ?thesis using utf8_char_of_cont4 [OF d(1) cc v(1,2)] v(3) by (simp add: s bs valid_str_def)
  qed
qed

lemma valid_str_ascii: "is_ascii s \<Longrightarrow> valid_str s"
  unfolding is_ascii_def valid_str_def is_scalar_def list_all_iff by force

section \<open>Character classes\<close>

text \<open>
  \<open>char::is_whitespace\<close> is the Unicode property White_Space, \<open>char::is_control\<close> the general
  category Cc. The \<open>u8\<close> classes look at one byte.
\<close>

definition is_whitespace :: "nat \<Rightarrow> bool" where
  "is_whitespace c \<longleftrightarrow>
     9 \<le> c \<and> c \<le> 13 \<or> c = 0x20 \<or> c = 0x85 \<or> c = 0xA0 \<or> c = 0x1680 \<or>
     0x2000 \<le> c \<and> c \<le> 0x200A \<or> c = 0x2028 \<or> c = 0x2029 \<or> c = 0x202F \<or> c = 0x205F \<or> c = 0x3000"

definition is_control :: "nat \<Rightarrow> bool" where
  "is_control c \<longleftrightarrow> c < 0x20 \<or> 0x7F \<le> c \<and> c < 0xA0"

definition is_digit :: "nat \<Rightarrow> bool" where
  "is_digit c \<longleftrightarrow> 48 \<le> c \<and> c \<le> 57"

definition byte_is_digit :: "u8 \<Rightarrow> bool" where
  "byte_is_digit b \<longleftrightarrow> is_digit (unat b)"

definition byte_is_alphanumeric :: "u8 \<Rightarrow> bool" where
  "byte_is_alphanumeric b \<longleftrightarrow>
     byte_is_digit b \<or> 65 \<le> unat b \<and> unat b \<le> 90 \<or> 97 \<le> unat b \<and> unat b \<le> 122"

definition byte_is_lower_hex :: "u8 \<Rightarrow> bool" where
  "byte_is_lower_hex b \<longleftrightarrow> byte_is_digit b \<or> 97 \<le> unat b \<and> unat b \<le> 102"

definition all_bytes :: "(u8 \<Rightarrow> bool) \<Rightarrow> str \<Rightarrow> bool" where
  "all_bytes p s \<longleftrightarrow> list_all p (as_bytes s)"

lemma all_bytes_simps [simp]:
  "all_bytes p []"
  "all_bytes p (c # s) \<longleftrightarrow> list_all p (map of_nat (utf8_char c)) \<and> all_bytes p s"
  by (simp_all add: all_bytes_def)

text \<open>The first byte of a scalar value outside ASCII is at least \<open>0x80\<close>.\<close>

lemma utf8_char_head:
  assumes "is_scalar c" "0x80 \<le> c"
  shows "\<exists>b r. utf8_char c = b # r \<and> 0x80 \<le> b \<and> b < 256"
proof -
  have "c < 5 * 262144" using assms(1) by (auto simp: is_scalar_def)
  then have "c div 262144 < 5" by (simp only: less_mult_imp_div_less)
  moreover have "c < 0x800 \<Longrightarrow> c div 64 < 32" by (simp add: less_mult_imp_div_less)
  moreover have "c < 0x10000 \<Longrightarrow> c div 4096 < 16" by (simp add: less_mult_imp_div_less)
  ultimately show ?thesis using assms(2) by (auto simp: utf8_char_def)
qed

lemma all_bytes_ascii:
  assumes "valid_str s" and "\<And>b. p b \<Longrightarrow> unat b < 0x80"
  shows "all_bytes p s \<longleftrightarrow> list_all (\<lambda>c. c < 0x80 \<and> p (of_nat c)) s"
  using assms(1)
proof (induction s)
  case Nil
  then show ?case by simp
next
  case (Cons c s)
  have "list_all p (map of_nat (utf8_char c)) \<longleftrightarrow> c < 0x80 \<and> p (of_nat c)"
  proof (cases "c < 0x80")
    case True
    then show ?thesis by (simp add: utf8_char_def)
  next
    case False
    with Cons.prems obtain b r where "utf8_char c = b # r" "0x80 \<le> b" "b < 256"
      using utf8_char_head [of c] by (auto simp: valid_str_def)
    then show ?thesis using False assms(2) [of "of_nat b"] by (auto simp: unat_small_byte)
  qed
  with Cons show ?case by (simp add: valid_str_def)
qed

section \<open>Trimming, splitting and joining\<close>

definition trim :: "str \<Rightarrow> str" where
  "trim s = rev (dropWhile is_whitespace (rev (dropWhile is_whitespace s)))"

text \<open>\<open>str::split(c)\<close>: always at least one piece.\<close>

fun split_on :: "nat \<Rightarrow> str \<Rightarrow> str list" where
  "split_on c [] = [[]]"
| "split_on c (x # xs) =
     (if x = c then [] # split_on c xs
      else (case split_on c xs of [] \<Rightarrow> [[x]] | p # ps \<Rightarrow> (x # p) # ps))"

fun split_once :: "nat \<Rightarrow> str \<Rightarrow> (str \<times> str) option" where
  "split_once c [] = None"
| "split_once c (x # xs) =
     (if x = c then Some ([], xs) else map_option (\<lambda>(a, b). (x # a, b)) (split_once c xs))"

definition rsplit_once :: "nat \<Rightarrow> str \<Rightarrow> (str \<times> str) option" where
  "rsplit_once c s = map_option (\<lambda>(a, b). (rev b, rev a)) (split_once c (rev s))"

text \<open>\<open>split_once\<close> with a two-character pattern.\<close>

fun split_once2 :: "nat \<Rightarrow> nat \<Rightarrow> str \<Rightarrow> (str \<times> str) option" where
  "split_once2 c d (x # y # r) =
     (if x = c \<and> y = d then Some ([], r)
      else map_option (\<lambda>(a, b). (x # a, b)) (split_once2 c d (y # r)))"
| "split_once2 c d _ = None"

definition starts_with :: "str \<Rightarrow> str \<Rightarrow> bool" where
  "starts_with p s \<longleftrightarrow> take (length p) s = p"

definition strip_prefix :: "str \<Rightarrow> str \<Rightarrow> str option" where
  "strip_prefix p s = (if starts_with p s then Some (drop (length p) s) else None)"

fun contains_str :: "str \<Rightarrow> str \<Rightarrow> bool" where
  "contains_str p [] = (p = [])"
| "contains_str p (x # xs) = (starts_with p (x # xs) \<or> contains_str p xs)"

fun join :: "str \<Rightarrow> str list \<Rightarrow> str" where
  "join d [] = []"
| "join d [x] = x"
| "join d (x # y # ys) = x @ d @ join d (y # ys)"

lemma split_on_not_Nil [simp]: "split_on c s \<noteq> []"
  by (induction s) (auto split: list.splits)

lemma split_on_no_sep: "c \<notin> set s \<Longrightarrow> split_on c s = [s]"
  by (induction s) auto

lemma split_on_append: "c \<notin> set s \<Longrightarrow> split_on c (s @ c # t) = s # split_on c t"
  by (induction s) auto

lemma split_on_join:
  "ps \<noteq> [] \<Longrightarrow> (\<forall>p \<in> set ps. c \<notin> set p) \<Longrightarrow> split_on c (join [c] ps) = ps"
  by (induction "[c]" ps rule: join.induct) (auto simp: split_on_no_sep split_on_append)

lemma join_split_on: "join [c] (split_on c s) = s"
proof (induction s)
  case Nil
  then show ?case by simp
next
  case (Cons x s)
  obtain p ps where ps: "split_on c s = p # ps" by (cases "split_on c s") auto
  with Cons.IH show ?case by (cases ps) auto
qed

lemma split_on_pieces: "p \<in> set (split_on c s) \<Longrightarrow> c \<notin> set p \<and> set p \<subseteq> set s"
proof (induction s arbitrary: p)
  case Nil
  then show ?case by simp
next
  case (Cons x s)
  obtain q qs where qs: "split_on c s = q # qs" by (cases "split_on c s") auto
  with Cons.IH [of q] Cons.IH [of p] Cons.prems show ?case
    by (auto split: if_splits)
qed

lemma split_once_Some: "split_once c s = Some (a, b) \<longleftrightarrow> s = a @ c # b \<and> c \<notin> set a"
proof (induction s arbitrary: a)
  case Nil
  then show ?case by simp
next
  case (Cons x s)
  then show ?case by (cases a) auto
qed

lemma split_once_None: "split_once c s = None \<longleftrightarrow> c \<notin> set s"
  by (induction s) auto

lemma rsplit_once_Some: "rsplit_once c s = Some (a, b) \<longleftrightarrow> s = a @ c # b \<and> c \<notin> set b"
proof -
  have "rsplit_once c s = Some (a, b) \<longleftrightarrow> split_once c (rev s) = Some (rev b, rev a)"
    by (auto simp: rsplit_once_def)
  also have "\<dots> \<longleftrightarrow> rev s = rev b @ c # rev a \<and> c \<notin> set b"
    by (simp add: split_once_Some)
  also have "\<dots> \<longleftrightarrow> s = a @ c # b \<and> c \<notin> set b"
    by (auto simp: rev_swap)
  finally show ?thesis .
qed

lemma rsplit_once_None: "rsplit_once c s = None \<longleftrightarrow> c \<notin> set s"
  by (simp add: rsplit_once_def split_once_None)

lemma dropWhile_all_not: "list_all (\<lambda>c. \<not> P c) s \<Longrightarrow> dropWhile P s = s"
  by (cases s) auto

lemma trim_id: "list_all (\<lambda>c. \<not> is_whitespace c) s \<Longrightarrow> trim s = s"
  by (simp add: trim_def dropWhile_all_not list_all_rev)

lemma trim_set: "set (trim s) \<subseteq> set s"
  by (auto simp: trim_def dest!: set_dropWhileD)

section \<open>Decimal numbers\<close>

fun nat_to_string :: "nat \<Rightarrow> str" where
  "nat_to_string n = (if n < 10 then [48 + n] else nat_to_string (n div 10) @ [48 + n mod 10])"

declare nat_to_string.simps [simp del]

definition digits_value :: "str \<Rightarrow> nat" where
  "digits_value s = foldl (\<lambda>acc c. acc * 10 + (c - 48)) 0 s"

text \<open>
  \<open>s.parse::<uN>()\<close>: an optional plus sign, then at least one ASCII digit; a value above the
  type's maximum is an error.
\<close>

definition parse_uint :: "nat \<Rightarrow> str \<Rightarrow> nat option" where
  "parse_uint mx s =
     (let t = (case s of c # r \<Rightarrow> if c = 43 then r else s | [] \<Rightarrow> [])
      in if t = [] \<or> \<not> list_all is_digit t then None
         else if digits_value t \<le> mx then Some (digits_value t) else None)"

lemma nat_to_string_not_Nil [simp]: "nat_to_string n \<noteq> []"
  by (subst nat_to_string.simps) simp

lemma nat_to_string_digits: "list_all is_digit (nat_to_string n)"
proof (induction n rule: nat_to_string.induct)
  case (1 n)
  show ?case
  proof (cases "n < 10")
    case True
    then show ?thesis by (subst nat_to_string.simps) (simp add: is_digit_def)
  next
    case False
    have "n mod 10 < 10" by simp
    then have "is_digit (48 + n mod 10)" unfolding is_digit_def by linarith
    with False 1 show ?thesis by (subst nat_to_string.simps) simp
  qed
qed

lemma digits_value_snoc [simp]: "digits_value (s @ [c]) = digits_value s * 10 + (c - 48)"
  by (simp add: digits_value_def)

lemma digits_value_to_string [simp]: "digits_value (nat_to_string n) = n"
proof (induction n rule: nat_to_string.induct)
  case (1 n)
  show ?case
  proof (cases "n < 10")
    case True
    then show ?thesis by (subst nat_to_string.simps) (simp add: digits_value_def)
  next
    case False
    with 1 show ?thesis by (subst nat_to_string.simps) simp
  qed
qed

lemma parse_uint_digits:
  "s \<noteq> [] \<Longrightarrow> list_all is_digit s \<Longrightarrow>
     parse_uint mx s = (if digits_value s \<le> mx then Some (digits_value s) else None)"
  by (cases s) (auto simp: parse_uint_def is_digit_def Let_def)

lemma parse_uint_to_string: "n \<le> mx \<Longrightarrow> parse_uint mx (nat_to_string n) = Some n"
  by (simp add: parse_uint_digits nat_to_string_digits)

lemma parse_uint_bound: "parse_uint mx s = Some n \<Longrightarrow> n \<le> mx"
  by (auto simp: parse_uint_def Let_def split: if_splits)

lemma digits_no_space: "list_all is_digit s \<Longrightarrow> list_all (\<lambda>c. \<not> is_whitespace c) s"
  by (auto simp: list_all_iff is_digit_def is_whitespace_def)

lemma digits_not_in: "list_all is_digit s \<Longrightarrow> \<not> is_digit c \<Longrightarrow> c \<notin> set s"
  by (auto simp: list_all_iff)

lemma byte_is_digit_ascii: "c < 0x80 \<Longrightarrow> byte_is_digit (of_nat c) \<longleftrightarrow> is_digit c"
  by (simp add: byte_is_digit_def unat_small_byte)

lemma all_bytes_digit: "valid_str s \<Longrightarrow> all_bytes byte_is_digit s \<longleftrightarrow> list_all is_digit s"
  by (subst all_bytes_ascii) (auto simp: byte_is_digit_def is_digit_def unat_small_byte list_all_iff)

lemma digits_ascii: "list_all is_digit s \<Longrightarrow> is_ascii s"
  by (auto simp: is_ascii_def list_all_iff is_digit_def)

text \<open>Evaluation of the checks on concrete text.\<close>

lemmas text_eval = trim_def is_whitespace_def is_control_def utf8_char_def

end
