(* ===== verification/Socks5_Udp.thy ===== *)
theory Socks5_Udp
  imports Rust_Strings
begin

text \<open>
  The SOCKS5 UDP envelope of \<open>crates/linklake-core/src/socks5_udp.rs\<close>: the decoder of fragments
  and datagrams, the encoder of datagrams and responses, the envelope lengths and the syntax of
  a domain name.
\<close>

section \<open>Data\<close>

datatype socks5_udp_target = Ip ip_addr | Domain str

record socks5_udp_datagram =
  sd_target :: socks5_udp_target
  sd_port :: u16
  sd_payload :: bytes

record socks5_udp_fragment =
  sf_sequence :: u8
  sf_final_fragment :: bool
  sf_target :: socks5_udp_target
  sf_port :: u16
  sf_payload :: bytes

datatype socks5_udp_error =
    TooShort
  | InvalidReserved
  | FragmentationUnsupported
  | InvalidFragmentSequence
  | UnsupportedAddressType
  | InvalidDomain
  | InvalidPort
  | TooLarge

section \<open>Domain names\<close>

definition valid_label :: "str \<Rightarrow> bool" where
  "valid_label label \<longleftrightarrow>
     label \<noteq> [] \<and> len label \<le> 63 \<and> hd label \<noteq> 45 \<and> last label \<noteq> 45 \<and>
     all_bytes (\<lambda>b. byte_is_alphanumeric b \<or> b = 45) label"

definition valid_domain :: "str \<Rightarrow> bool" where
  "valid_domain value \<longleftrightarrow>
     value \<noteq> [] \<and> len value \<le> 253 \<and> is_ascii value \<and> list_all valid_label (split_on 46 value)"

section \<open>Decoding\<close>

definition decode_target :: "bytes \<Rightarrow> socks5_udp_error + (socks5_udp_target \<times> nat)" where
  "decode_target encoded =
     (if encoded ! 3 = 1 then
        (if length encoded < 10 then Err TooShort
         else Ok (Ip (V4 (from_be_bytes [encoded ! 4, encoded ! 5, encoded ! 6, encoded ! 7])), 8))
      else if encoded ! 3 = 3 then
        (let length_byte = unat (encoded ! 4) in
         if length_byte = 0 \<or> length encoded < 5 + length_byte + 2 then Err TooShort
         else case from_utf8 (slice 5 (5 + length_byte) encoded) of
             None \<Rightarrow> Err InvalidDomain
           | Some domain \<Rightarrow>
               if \<not> valid_domain domain then Err InvalidDomain
               else Ok (Domain domain, 5 + length_byte))
      else if encoded ! 3 = 4 then
        (if length encoded < 22 then Err TooShort
         else Ok (Ip (V6 (from_be_bytes (slice 4 20 encoded))), 20))
      else Err UnsupportedAddressType)"

definition decode_socks5_udp_fragment :: "bytes \<Rightarrow> socks5_udp_error + socks5_udp_fragment" where
  "decode_socks5_udp_fragment encoded =
     (if length encoded < 7 then Err TooShort
      else if encoded ! 0 \<noteq> 0 \<or> encoded ! 1 \<noteq> 0 then Err InvalidReserved
      else let fragment_byte = encoded ! 2;
               sequence = fragment_byte AND 0x7F;
               final_fragment = (fragment_byte AND 0x80 \<noteq> 0)
      in if final_fragment \<and> sequence = 0 then Err InvalidFragmentSequence
      else and_then (decode_target encoded) (\<lambda>(target, port_offset).
        let port = from_be_bytes [encoded ! port_offset, encoded ! (port_offset + 1)] :: u16 in
        if port = 0 then Err InvalidPort
        else Ok \<lparr>sf_sequence = sequence, sf_final_fragment = final_fragment, sf_target = target,
                 sf_port = port, sf_payload = drop (port_offset + 2) encoded\<rparr>))"

definition decode_socks5_udp_datagram :: "bytes \<Rightarrow> socks5_udp_error + socks5_udp_datagram" where
  "decode_socks5_udp_datagram encoded =
     and_then (decode_socks5_udp_fragment encoded) (\<lambda>fragment.
       if sf_sequence fragment \<noteq> 0 \<or> sf_final_fragment fragment then Err FragmentationUnsupported
       else Ok \<lparr>sd_target = sf_target fragment, sd_port = sf_port fragment, sd_payload = sf_payload fragment\<rparr>)"

section \<open>Encoding\<close>

definition socks5_udp_envelope_header_len :: "socks5_udp_target \<Rightarrow> socks5_udp_error + usize" where
  "socks5_udp_envelope_header_len target =
     and_then (case target of
         Ip (V4 _) \<Rightarrow> Ok (1 + 4)
       | Ip (V6 _) \<Rightarrow> Ok (1 + 16)
       | Domain domain \<Rightarrow>
           if \<not> valid_domain domain \<or> len domain > 255 then Err InvalidDomain else Ok (2 + len domain))
       (\<lambda>address_bytes. ok_or (Option.bind (checked_add 3 address_bytes) (\<lambda>v. checked_add v 2)) TooLarge)"

definition socks5_udp_fragment_encoded_len :: "socks5_udp_fragment \<Rightarrow> socks5_udp_error + usize" where
  "socks5_udp_fragment_encoded_len fragment =
     and_then (socks5_udp_envelope_header_len (sf_target fragment)) (\<lambda>header.
       ok_or (checked_add header (length (sf_payload fragment))) TooLarge)"

definition encode_target :: "socks5_udp_target \<Rightarrow> bytes" where
  "encode_target target =
     (case target of
        Ip (V4 address) \<Rightarrow> [0x01] @ to_be_bytes address
      | Ip (V6 address) \<Rightarrow> [0x04] @ to_be_bytes address
      | Domain domain \<Rightarrow> [0x03] @ [of_nat (len domain)] @ as_bytes domain)"

definition encode_socks5_udp_datagram :: "socks5_udp_datagram \<Rightarrow> socks5_udp_error + bytes" where
  "encode_socks5_udp_datagram datagram =
     and_then (socks5_udp_envelope_header_len (sd_target datagram)) (\<lambda>header_bytes.
     and_then (ok_or (checked_add header_bytes (length (sd_payload datagram))) TooLarge) (\<lambda>total.
       if total > 65535 then Err TooLarge
       else Ok ([0, 0, 0] @ encode_target (sd_target datagram) @ to_be_bytes (sd_port datagram)
                @ sd_payload datagram)))"

definition encode_socks5_udp_response :: "socket_addr \<Rightarrow> bytes \<Rightarrow> socks5_udp_error + bytes" where
  "encode_socks5_udp_response source payload =
     encode_socks5_udp_datagram
       \<lparr>sd_target = Ip (sa_ip source), sd_port = sa_port source, sd_payload = payload\<rparr>"

section \<open>Envelope lengths\<close>

definition target_ok :: "socks5_udp_target \<Rightarrow> bool" where
  "target_ok t \<longleftrightarrow> (case t of Ip _ \<Rightarrow> True | Domain d \<Rightarrow> valid_domain d)"

lemma valid_domain_facts:
  assumes "valid_domain d"
  shows "0 < len d" "len d \<le> 253" "from_utf8 (as_bytes d) = Some d"
proof -
  show "0 < len d" using assms by (cases "len d") (auto simp: valid_domain_def)
  show "len d \<le> 253" "from_utf8 (as_bytes d) = Some d"
    using assms by (auto simp: valid_domain_def valid_str_ascii from_utf8_as_bytes)
qed

lemma length_encode_target:
  "length (encode_target t) = (case t of Ip (V4 _) \<Rightarrow> 5 | Ip (V6 _) \<Rightarrow> 17 | Domain d \<Rightarrow> 2 + len d)"
  by (simp add: encode_target_def split: socks5_udp_target.split ip_addr.split)

lemma envelope_header_len_ok_iff:
  "socks5_udp_envelope_header_len t = Ok n \<longleftrightarrow> target_ok t \<and> n = 5 + length (encode_target t)"
proof (cases t)
  case (Ip a)
  then show ?thesis
    by (cases a) (auto simp: socks5_udp_envelope_header_len_def target_ok_def length_encode_target
        checked_add_def usize_max_def ok_or_def)
next
  case (Domain d)
  then show ?thesis using valid_domain_facts(2) [of d]
    by (cases "valid_domain d") (auto simp: socks5_udp_envelope_header_len_def target_ok_def
        length_encode_target checked_add_def usize_max_def ok_or_def)
qed

lemma encode_datagram_ok_iff:
  "encode_socks5_udp_datagram d = Ok bs \<longleftrightarrow>
     target_ok (sd_target d) \<and>
     bs = [0, 0, 0] @ encode_target (sd_target d) @ to_be_bytes (sd_port d) @ sd_payload d \<and>
     length bs \<le> 65535"
proof -
  have "checked_add (5 + length (encode_target t)) n = None \<Longrightarrow> 65535 < 5 + length (encode_target t) + n" for t n
    by (auto simp: checked_add_def usize_max_def split: if_splits)
  then show ?thesis
    by (auto simp: encode_socks5_udp_datagram_def and_then_ok_iff envelope_header_len_ok_iff ok_or_def
        checked_add_def usize_max_def split: option.splits if_splits)
qed

section \<open>The envelope codec\<close>

lemma decode_target_encode:
  assumes "target_ok t" and "length p = 2"
  shows "decode_target ([0, 0, b] @ encode_target t @ p @ payload) = Ok (t, 3 + length (encode_target t))"
proof (cases t)
  case (Ip a)
  show ?thesis
  proof (cases a)
    case (V4 v)
    have "length (to_be_bytes v) = Suc (Suc (Suc (Suc 0)))" by simp
    then obtain x0 x1 x2 x3 where x: "to_be_bytes v = [x0, x1, x2, x3]"
      by (simp only: length_Suc_conv length_0_conv) blast
    have "from_be_bytes [x0, x1, x2, x3] = v"
      using be_bytes_roundtrips(2) [of v] by (simp only: x)
    with Ip V4 assms(2) x show ?thesis by (simp add: decode_target_def encode_target_def)
  next
    case (V6 v)
    with Ip assms(2) show ?thesis by (simp add: decode_target_def encode_target_def slice_def)
  qed
next
  case (Domain d)
  then have d: "valid_domain d" using assms(1) by (simp add: target_ok_def)
  note f = valid_domain_facts [OF d]
  have n: "unat (of_nat (len d) :: u8) = len d" using f(2) by (intro unat_small_byte) simp
  have "slice 5 (5 + len d) ([0, 0, b, 3, of_nat (len d)] @ as_bytes d @ p @ payload) = as_bytes d"
    by (simp add: slice_def)
  moreover have "d \<noteq> []" using d by (simp add: valid_domain_def)
  ultimately show ?thesis using Domain assms(2) d f n
    by (simp add: decode_target_def encode_target_def Let_def)
qed

lemma decode_target_ok:
  assumes "decode_target bs = Ok (t, k)" and "7 \<le> length bs"
  shows "target_ok t \<and> k = 3 + length (encode_target t) \<and> slice 3 k bs = encode_target t \<and> k + 2 \<le> length bs"
proof -
  have kind: "slice 3 k bs = bs ! 3 # slice 4 k bs" if "4 \<le> k" for k
    using that assms(2) by (simp add: slice_def Cons_nth_drop_Suc [symmetric] take_Cons' eval_nat_numeral)
  consider (v4) "bs ! 3 = 1" | (domain) "bs ! 3 = 3" | (v6) "bs ! 3 = 4"
    using assms(1) by (auto simp: decode_target_def split: if_splits)
  then show ?thesis
  proof cases
    case v4
    have "slice 4 8 bs = [bs ! 4, bs ! 5, bs ! 6, bs ! 7]" if "10 \<le> length bs"
      using that by (simp add: slice_def Cons_nth_drop_Suc [symmetric] eval_nat_numeral)
    with v4 assms kind [of 8] show ?thesis
      by (auto simp: decode_target_def encode_target_def target_ok_def split: if_splits)
  next
    case v6
    with assms kind [of 20] show ?thesis
      by (auto simp: decode_target_def encode_target_def target_ok_def split: if_splits)
  next
    case domain
    let ?n = "unat (bs ! 4)"
    obtain d where d: "0 < ?n" "7 + ?n \<le> length bs" "from_utf8 (slice 5 (5 + ?n) bs) = Some d"
      "valid_domain d" "t = Domain d" "k = 5 + ?n"
      using assms(1) domain by (auto simp: decode_target_def Let_def split: if_splits option.splits)
    have bytes: "as_bytes d = slice 5 (5 + ?n) bs" using as_bytes_from_utf8 [OF d(3)] by simp
    have "len d = ?n" using d(2) length_as_bytes [of d] unfolding bytes by simp
    moreover have "slice 4 (5 + ?n) bs = bs ! 4 # slice 5 (5 + ?n) bs"
      using d(2) by (simp add: slice_def Cons_nth_drop_Suc [symmetric] eval_nat_numeral)
    ultimately show ?thesis
      using d bytes domain kind [of "5 + ?n"] by (simp add: encode_target_def target_ok_def)
  qed
qed

lemma frag_byte_zero: "(b :: u8) AND 0x7F = 0 \<Longrightarrow> b AND 0x80 = 0 \<Longrightarrow> b = 0"
proof -
  assume z: "b AND 0x7F = 0" "b AND 0x80 = 0"
  have m: "(-1 :: u8) = 0x7F OR 0x80" by simp
  have "b = b AND -1" by simp
  also have "\<dots> = b AND (0x7F OR 0x80)" by (simp only: m)
  also have "\<dots> = (b AND 0x7F) OR (b AND 0x80)" by (rule bit.conj_disj_distrib)
  finally show "b = 0" by (simp add: z)
qed

lemma decode_datagram_encode:
  assumes "encode_socks5_udp_datagram d = Ok bs" and "sd_port d \<noteq> 0"
  shows "decode_socks5_udp_datagram bs = Ok d"
proof -
  let ?t = "encode_target (sd_target d)"
  from assms(1) have t: "target_ok (sd_target d)"
    and bs: "bs = [0, 0, 0] @ ?t @ to_be_bytes (sd_port d) @ sd_payload d"
    by (simp_all add: encode_datagram_ok_iff)
  obtain p0 p1 where p: "to_be_bytes (sd_port d) = [p0, p1]" "from_be_bytes [p0, p1] = sd_port d"
    by (rule u16_bytes_cases)
  have "drop (3 + length ?t + 2) bs = sd_payload d"
    using append_eq_conv_conj [of "[0, 0, 0] @ ?t @ [p0, p1]" "sd_payload d" bs]
    by (simp add: bs p eval_nat_numeral)
  moreover have "7 \<le> length bs"
    using t by (auto simp: bs p length_encode_target target_ok_def dest: valid_domain_facts(1)
        split: socks5_udp_target.splits ip_addr.splits)
  moreover have "decode_target bs = Ok (sd_target d, 3 + length ?t)"
    unfolding bs p(1) by (rule decode_target_encode [OF t]) simp
  moreover have "bs ! (3 + length ?t) = p0" "bs ! (3 + length ?t + 1) = p1"
    "bs ! 0 = 0" "bs ! 1 = 0" "bs ! 2 = 0"
    by (simp_all add: bs p nth_append)
  ultimately show ?thesis
    using assms(2) p(2)
    by (simp add: decode_socks5_udp_datagram_def decode_socks5_udp_fragment_def Let_def)
qed

lemma encode_datagram_decode:
  assumes "decode_socks5_udp_datagram bs = Ok d" and "length bs \<le> 65535"
  shows "encode_socks5_udp_datagram d = Ok bs \<and> sd_port d \<noteq> 0"
proof -
  from assms(1) obtain t k where len: "7 \<le> length bs" and z: "bs ! 0 = 0" "bs ! 1 = 0"
    and frag: "bs ! 2 AND 0x7F = 0" "bs ! 2 AND 0x80 = 0" and t: "decode_target bs = Ok (t, k)"
    and port: "from_be_bytes [bs ! k, bs ! (k + 1)] \<noteq> (0 :: u16)"
    and d: "d = \<lparr>sd_target = t, sd_port = from_be_bytes [bs ! k, bs ! (k + 1)], sd_payload = drop (k + 2) bs\<rparr>"
    by (auto simp: decode_socks5_udp_datagram_def decode_socks5_udp_fragment_def Let_def and_then_ok_iff
        split: if_splits prod.splits)
  note tk = decode_target_ok [OF t len]
  have "bs \<noteq> []" using len by auto
  then have "bs = [bs ! 0, bs ! 1, bs ! 2] @ drop 3 bs"
    using len Cons_nth_drop_Suc [of 0 bs] Cons_nth_drop_Suc [of 1 bs] Cons_nth_drop_Suc [of 2 bs]
    by (simp add: numeral_2_eq_2 numeral_3_eq_3)
  also have "drop 3 bs = slice 3 k bs @ slice k (k + 2) bs @ drop (k + 2) bs"
    using tk by (simp add: slice_drop)
  also have "slice k (k + 2) bs = [bs ! k, bs ! (k + 1)]"
    using tk slice_two [of k bs] by simp
  finally have "bs = [bs ! 0, bs ! 1, bs ! 2] @ slice 3 k bs @ [bs ! k, bs ! (k + 1)] @ drop (k + 2) bs" .
  moreover have "slice 3 k bs = encode_target t" using tk by blast
  ultimately have "bs = [0, 0, 0] @ encode_target t @ [bs ! k, bs ! (k + 1)] @ drop (k + 2) bs"
    using z frag_byte_zero [OF frag] by metis
  then show ?thesis using assms(2) tk port d by (simp add: encode_datagram_ok_iff)
qed

text \<open>
  C7. The SOCKS5 UDP envelope codec is exact: within the 65535 bytes of a UDP payload, an
  envelope decodes to a datagram if and only if the datagram has a non-zero port and encoding it
  gives that envelope, for IPv4, IPv6 and domain targets.
\<close>

theorem socks5_envelope_codec_exact:
  "decode_socks5_udp_datagram bs = Ok d \<and> length bs \<le> 65535 \<longleftrightarrow>
   encode_socks5_udp_datagram d = Ok bs \<and> sd_port d \<noteq> 0"
  using decode_datagram_encode encode_datagram_decode encode_datagram_ok_iff by blast

end
