(* ===== verification/Socks5_Fragment.thy ===== *)
theory Socks5_Fragment
  imports Socks5_Udp Udp_Protocol "HOL-Library.Monad_Syntax"
begin

text \<open>
  The bounded SOCKS5 FRAG reassembler of \<open>crates/linklake-core/src/socks5_fragment.rs\<close> with the
  process-wide budget several reassemblers share. A reassembler and the budget are passed
  through its methods side by side; a method returns \<^const>\<open>None\<close> where the code would panic or
  its loop would not end.
\<close>

section \<open>Data\<close>

record socks5_fragment_config =
  fc_timeout :: duration
  fc_max_fragments_per_datagram :: usize
  fc_max_bytes_per_datagram :: usize
  fc_max_reorder_gap :: u8
  fc_max_inflight_per_session :: usize
  fc_max_fragments_per_session :: usize
  fc_max_bytes_per_session :: usize
  fc_max_inflight_global :: usize
  fc_max_fragments_global :: usize
  fc_max_bytes_global :: usize

definition default_fragment_config :: socks5_fragment_config where
  "default_fragment_config =
     \<lparr>fc_timeout = 5 * 10 ^ 9, fc_max_fragments_per_datagram = 64,
      fc_max_bytes_per_datagram = MAX_UDP_DATAGRAM_BYTES, fc_max_reorder_gap = 0,
      fc_max_inflight_per_session = 8, fc_max_fragments_per_session = 128,
      fc_max_bytes_per_session = 256 * 1024, fc_max_inflight_global = 1024,
      fc_max_fragments_global = 8192, fc_max_bytes_global = 16 * 1024 * 1024\<rparr>"

record global_budget =
  gb_max_inflight_datagrams :: usize
  gb_max_fragments :: usize
  gb_max_bytes :: usize
  gb_inflight_datagrams :: usize
  gb_buffered_fragments :: usize
  gb_buffered_bytes :: usize

datatype socks5_fragment_config_error = ZeroTimeout | TimeoutTooShort | InvalidLimit

datatype socks5_fragment_error =
    MissingInitialFragment
  | SequenceLimit
  | ReorderGap
  | ConflictingDuplicate
  | ConflictingFinalFragment
  | DuplicateFinalFragment
  | FragmentAfterFinal
  | DatagramByteBudget
  | SessionFragmentBudget
  | SessionByteBudget
  | SessionInflightBudget
  | GlobalFragmentBudget
  | GlobalByteBudget
  | GlobalInflightBudget

datatype socks5_fragment_outcome =
    FComplete socks5_udp_datagram bool
  | FPending
  | FDuplicate

record socks5_fragment_expiration =
  fe_datagrams :: usize
  fe_fragments :: usize
  fe_bytes :: usize

record socks5_fragment_snapshot =
  fs_inflight_datagrams :: usize
  fs_buffered_fragments :: usize
  fs_buffered_bytes :: usize
  fs_sessions :: usize
  fs_global_inflight_datagrams :: usize
  fs_global_buffered_fragments :: usize
  fs_global_buffered_bytes :: usize

record 'k fragment_key =
  fk_session :: 'k
  fk_target :: socks5_udp_target
  fk_port :: u16

record assembly =
  as_target :: socks5_udp_target
  as_port :: u16
  as_fragments :: "(u8, bytes) hashmap"
  as_final_sequence :: "u8 option"
  as_highest_contiguous :: u8
  as_highest_received :: u8
  as_payload_bytes :: usize
  as_bytes_total :: usize
  as_last_activity :: instant

record usage =
  us_datagrams :: usize
  us_fragments :: usize
  us_bytes :: usize

definition default_usage :: usage where
  "default_usage = \<lparr>us_datagrams = 0, us_fragments = 0, us_bytes = 0\<rparr>"

record 'k fragment_reassembler =
  fr_config :: socks5_fragment_config
  fr_assemblies :: "('k fragment_key, assembly) hashmap"
  fr_sessions :: "('k, usage) hashmap"
  fr_local_fragments :: usize
  fr_local_bytes :: usize

section \<open>The shared budget\<close>

definition budget_from_config :: "socks5_fragment_config \<Rightarrow> global_budget" where
  "budget_from_config config =
     \<lparr>gb_max_inflight_datagrams = fc_max_inflight_global config,
      gb_max_fragments = fc_max_fragments_global config,
      gb_max_bytes = fc_max_bytes_global config,
      gb_inflight_datagrams = 0, gb_buffered_fragments = 0, gb_buffered_bytes = 0\<rparr>"

definition supports :: "global_budget \<Rightarrow> socks5_fragment_config \<Rightarrow> bool" where
  "supports b config \<longleftrightarrow>
     gb_max_inflight_datagrams b \<ge> fc_max_inflight_global config \<and>
     gb_max_fragments b \<ge> fc_max_fragments_global config \<and>
     gb_max_bytes b \<ge> fc_max_bytes_global config"

text \<open>An atomic \<open>fetch_update\<close>: the new counter, or \<^const>\<open>None\<close> when the update is refused.\<close>

definition reserve_counter :: "nat \<Rightarrow> nat \<Rightarrow> nat \<Rightarrow> nat option" where
  "reserve_counter current limit amount =
     do { next \<leftarrow> checked_add current amount; if next \<le> limit then Some next else None }"

definition release_counter :: "nat \<Rightarrow> nat \<Rightarrow> nat" where
  "release_counter current amount = saturating_sub current amount"

definition try_reserve_datagram :: "global_budget \<Rightarrow> global_budget option" where
  "try_reserve_datagram b =
     map_option (\<lambda>n. b\<lparr>gb_inflight_datagrams := n\<rparr>)
       (reserve_counter (gb_inflight_datagrams b) (gb_max_inflight_datagrams b) 1)"

definition try_reserve_bytes :: "usize \<Rightarrow> global_budget \<Rightarrow> global_budget option" where
  "try_reserve_bytes bytes b =
     map_option (\<lambda>n. b\<lparr>gb_buffered_bytes := n\<rparr>)
       (reserve_counter (gb_buffered_bytes b) (gb_max_bytes b) bytes)"

definition try_reserve_fragment ::
  "usize \<Rightarrow> global_budget \<Rightarrow> global_budget \<times> (socks5_fragment_error + unit)" where
  "try_reserve_fragment bytes b =
     (case reserve_counter (gb_buffered_fragments b) (gb_max_fragments b) 1 of
        None \<Rightarrow> (b, Err GlobalFragmentBudget)
      | Some n \<Rightarrow>
          let b = b\<lparr>gb_buffered_fragments := n\<rparr> in
          case try_reserve_bytes bytes b of
            None \<Rightarrow> (b\<lparr>gb_buffered_fragments := release_counter (gb_buffered_fragments b) 1\<rparr>, Err GlobalByteBudget)
          | Some b \<Rightarrow> (b, Ok ()))"

definition release_datagram :: "global_budget \<Rightarrow> global_budget" where
  "release_datagram b = b\<lparr>gb_inflight_datagrams := release_counter (gb_inflight_datagrams b) 1\<rparr>"

definition release_bytes :: "usize \<Rightarrow> global_budget \<Rightarrow> global_budget" where
  "release_bytes bytes b = b\<lparr>gb_buffered_bytes := release_counter (gb_buffered_bytes b) bytes\<rparr>"

definition release_fragment :: "usize \<Rightarrow> global_budget \<Rightarrow> global_budget" where
  "release_fragment bytes b =
     release_bytes bytes (b\<lparr>gb_buffered_fragments := release_counter (gb_buffered_fragments b) 1\<rparr>)"

text \<open>What \<open>remove_assembly\<close> and \<open>Drop\<close> give back for one assembly.\<close>

definition release_assembly :: "assembly \<Rightarrow> global_budget \<Rightarrow> global_budget" where
  "release_assembly a b =
     (let b = release_datagram b;
          envelope_bytes = saturating_sub (as_bytes_total a) (as_payload_bytes a);
          b = release_bytes envelope_bytes b
      in fold (\<lambda>(_, fragment). release_fragment (length fragment)) (as_fragments a) b)"

section \<open>Construction and destruction\<close>

definition validate_config :: "socks5_fragment_config \<Rightarrow> socks5_fragment_config_error + unit" where
  "validate_config config =
     (if fc_timeout config = 0 then Err ZeroTimeout
      else if fc_timeout config < 5 * 10 ^ 9 then Err TimeoutTooShort
      else if fc_max_fragments_per_datagram config = 0
        \<or> fc_max_fragments_per_datagram config > 127
        \<or> fc_max_bytes_per_datagram config = 0
        \<or> fc_max_bytes_per_datagram config > MAX_UDP_DATAGRAM_BYTES
        \<or> fc_max_inflight_per_session config = 0
        \<or> fc_max_fragments_per_session config < fc_max_fragments_per_datagram config
        \<or> fc_max_bytes_per_session config < fc_max_bytes_per_datagram config
        \<or> fc_max_inflight_global config < fc_max_inflight_per_session config
        \<or> fc_max_fragments_global config < fc_max_fragments_per_session config
        \<or> fc_max_bytes_global config < fc_max_bytes_per_session config
      then Err InvalidLimit
      else Ok ())"

definition new_with_global_budget ::
  "socks5_fragment_config \<Rightarrow> global_budget \<Rightarrow> socks5_fragment_config_error + 'k fragment_reassembler" where
  "new_with_global_budget config b =
     and_then (validate_config config) (\<lambda>_.
       if \<not> supports b config then Err InvalidLimit
       else Ok \<lparr>fr_config = config, fr_assemblies = [], fr_sessions = [],
                fr_local_fragments = 0, fr_local_bytes = 0\<rparr>)"

definition drop_reassembler :: "'k fragment_reassembler \<Rightarrow> global_budget \<Rightarrow> global_budget" where
  "drop_reassembler r b = fold (\<lambda>(_, a). release_assembly a) (fr_assemblies r) b"

definition fragment_snapshot :: "'k fragment_reassembler \<Rightarrow> global_budget \<Rightarrow> socks5_fragment_snapshot" where
  "fragment_snapshot r b =
     \<lparr>fs_inflight_datagrams = length (fr_assemblies r), fs_buffered_fragments = fr_local_fragments r,
      fs_buffered_bytes = fr_local_bytes r, fs_sessions = length (fr_sessions r),
      fs_global_inflight_datagrams = gb_inflight_datagrams b,
      fs_global_buffered_fragments = gb_buffered_fragments b,
      fs_global_buffered_bytes = gb_buffered_bytes b\<rparr>"

section \<open>Reservations of one reassembler\<close>

definition session_usage :: "'k \<Rightarrow> 'k fragment_reassembler \<Rightarrow> usage" where
  "session_usage session r =
     (case hm_get (fr_sessions r) session of Some u \<Rightarrow> u | None \<Rightarrow> default_usage)"

definition reserve_new_assembly ::
  "'k \<Rightarrow> usize \<Rightarrow> 'k fragment_reassembler \<Rightarrow> global_budget
     \<Rightarrow> 'k fragment_reassembler \<times> global_budget \<times> (socks5_fragment_error + unit)" where
  "reserve_new_assembly session envelope_bytes r b =
     (let config = fr_config r; usage = session_usage session r in
      if envelope_bytes > fc_max_bytes_per_datagram config then (r, b, Err DatagramByteBudget)
      else if us_datagrams usage \<ge> fc_max_inflight_per_session config then (r, b, Err SessionInflightBudget)
      else if saturating_add (us_bytes usage) envelope_bytes > fc_max_bytes_per_session config
        then (r, b, Err SessionByteBudget)
      else case try_reserve_datagram b of
          None \<Rightarrow> (r, b, Err GlobalInflightBudget)
        | Some b \<Rightarrow>
            (case try_reserve_bytes envelope_bytes b of
               None \<Rightarrow> (r, release_datagram b, Err GlobalByteBudget)
             | Some b \<Rightarrow>
                 (r\<lparr>fr_sessions := hm_insert session
                      (usage\<lparr>us_datagrams := saturating_add (us_datagrams usage) 1,
                             us_bytes := saturating_add (us_bytes usage) envelope_bytes\<rparr>) (fr_sessions r),
                    fr_local_bytes := saturating_add (fr_local_bytes r) envelope_bytes\<rparr>, b, Ok ())))"

definition reserve_fragment ::
  "'k \<Rightarrow> 'k fragment_key \<Rightarrow> usize \<Rightarrow> 'k fragment_reassembler \<Rightarrow> global_budget
     \<Rightarrow> ('k fragment_reassembler \<times> global_budget \<times> (socks5_fragment_error + unit)) option" where
  "reserve_fragment session key bytes r b =
     do {
       assembly \<leftarrow> hm_get (fr_assemblies r) key;
       let config = fr_config r;
       let usage = session_usage session r;
       if length (as_fragments assembly) \<ge> fc_max_fragments_per_datagram config
         then Some (r, b, Err SequenceLimit)
       else if saturating_add (as_bytes_total assembly) bytes > fc_max_bytes_per_datagram config
         then Some (r, b, Err DatagramByteBudget)
       else if us_fragments usage \<ge> fc_max_fragments_per_session config
         then Some (r, b, Err SessionFragmentBudget)
       else if saturating_add (us_bytes usage) bytes > fc_max_bytes_per_session config
         then Some (r, b, Err SessionByteBudget)
       else case try_reserve_fragment bytes b of
           (b, Inl e) \<Rightarrow> Some (r, b, Err e)
         | (b, Inr _) \<Rightarrow> do {
             usage \<leftarrow> hm_get (fr_sessions r) session;
             Some (r\<lparr>fr_sessions := hm_insert session
                       (usage\<lparr>us_fragments := saturating_add (us_fragments usage) 1,
                              us_bytes := saturating_add (us_bytes usage) bytes\<rparr>) (fr_sessions r),
                     fr_local_fragments := saturating_add (fr_local_fragments r) 1,
                     fr_local_bytes := saturating_add (fr_local_bytes r) bytes\<rparr>, b, Ok ())
           }
     }"

definition remove_assembly ::
  "'k fragment_key \<Rightarrow> 'k fragment_reassembler \<Rightarrow> global_budget
     \<Rightarrow> 'k fragment_reassembler \<times> global_budget \<times> assembly option" where
  "remove_assembly key r b =
     (case hm_get (fr_assemblies r) key of
        None \<Rightarrow> (r, b, None)
      | Some a \<Rightarrow>
          let n = length (as_fragments a);
              r = r\<lparr>fr_assemblies := hm_remove key (fr_assemblies r),
                    fr_local_fragments := saturating_sub (fr_local_fragments r) n,
                    fr_local_bytes := saturating_sub (fr_local_bytes r) (as_bytes_total a)\<rparr>;
              sessions = (case hm_get (fr_sessions r) (fk_session key) of
                  None \<Rightarrow> fr_sessions r
                | Some u \<Rightarrow>
                    let u = u\<lparr>us_datagrams := saturating_sub (us_datagrams u) 1,
                              us_fragments := saturating_sub (us_fragments u) n,
                              us_bytes := saturating_sub (us_bytes u) (as_bytes_total a)\<rparr>
                    in if us_datagrams u = 0 \<and> us_fragments u = 0 \<and> us_bytes u = 0
                       then hm_remove (fk_session key) (fr_sessions r)
                       else hm_insert (fk_session key) u (fr_sessions r))
          in (r\<lparr>fr_sessions := sessions\<rparr>, release_assembly a b, Some a))"

section \<open>Accepting a fragment\<close>

definition u8_saturating_add :: "u8 \<Rightarrow> u8 \<Rightarrow> u8" where
  "u8_saturating_add a b = of_nat (min (unat a + unat b) 255)"

text \<open>
  The loop that advances \<open>highest_contiguous\<close>. At 255 with a fragment 255 present it would not
  end, which is the value \<^const>\<open>None\<close> here.
\<close>

partial_function (option) advance_contiguous :: "(u8, bytes) hashmap \<Rightarrow> u8 \<Rightarrow> u8 option" where
  "advance_contiguous fragments h =
     (if hm_get fragments (u8_saturating_add h 1) \<noteq> None
      then advance_contiguous fragments (u8_saturating_add h 1) else Some h)"

text \<open>The verdict of the block that compares a fragment with the assembly.\<close>

datatype fragment_verdict =
    Accept
  | DropAssembly socks5_fragment_error
  | ReplyDuplicate
  | RefuseFragment socks5_fragment_error

definition conflict_verdict ::
  "socks5_fragment_config \<Rightarrow> socks5_udp_fragment \<Rightarrow> assembly \<Rightarrow> fragment_verdict" where
  "conflict_verdict config f a =
     (if fc_max_reorder_gap config = 0 \<and> sf_sequence f < as_highest_received a
        then DropAssembly ReorderGap
      else case hm_get (as_fragments a) (sf_sequence f) of
        Some existing \<Rightarrow>
          (let existing_final = (as_final_sequence a = Some (sf_sequence f)) in
           if existing_final \<and> sf_final_fragment f then DropAssembly DuplicateFinalFragment
           else if existing = sf_payload f \<and> existing_final = sf_final_fragment f then ReplyDuplicate
           else DropAssembly ConflictingDuplicate)
      | None \<Rightarrow>
          if (case as_final_sequence a of Some final \<Rightarrow> sf_sequence f > final | None \<Rightarrow> False)
            then DropAssembly FragmentAfterFinal
          else if sf_final_fragment f \<and>
              (case as_final_sequence a of Some final \<Rightarrow> final \<noteq> sf_sequence f | None \<Rightarrow> False)
            then DropAssembly ConflictingFinalFragment
          else if sf_sequence f > u8_saturating_add
              (u8_saturating_add (as_highest_contiguous a) (fc_max_reorder_gap config)) 1
            then RefuseFragment ReorderGap
          else Accept)"

definition fresh_assembly :: "socks5_udp_fragment \<Rightarrow> usize \<Rightarrow> instant \<Rightarrow> assembly" where
  "fresh_assembly f envelope_bytes now =
     \<lparr>as_target = sf_target f, as_port = sf_port f, as_fragments = [], as_final_sequence = None,
      as_highest_contiguous = 0, as_highest_received = 0, as_payload_bytes = 0,
      as_bytes_total = envelope_bytes, as_last_activity = now\<rparr>"

definition store_in_assembly :: "socks5_udp_fragment \<Rightarrow> instant \<Rightarrow> assembly \<Rightarrow> assembly option" where
  "store_in_assembly f now a =
     (let n = length (sf_payload f);
          fragments = hm_insert (sf_sequence f) (sf_payload f) (as_fragments a)
      in do {
        h \<leftarrow> advance_contiguous fragments (as_highest_contiguous a);
        Some (a\<lparr>as_final_sequence := (if sf_final_fragment f then Some (sf_sequence f) else as_final_sequence a),
                as_payload_bytes := saturating_add (as_payload_bytes a) n,
                as_bytes_total := saturating_add (as_bytes_total a) n,
                as_fragments := fragments,
                as_highest_received := max (as_highest_received a) (sf_sequence f),
                as_last_activity := now,
                as_highest_contiguous := h\<rparr>)
      })"

text \<open>The payload of a complete assembly: the fragments 1 to \<open>final_sequence\<close>, each an \<open>expect\<close>.\<close>

fun gather :: "(u8, bytes) hashmap \<Rightarrow> u8 list \<Rightarrow> bytes option" where
  "gather fragments [] = Some []"
| "gather fragments (s # ss) =
     do { x \<leftarrow> hm_get fragments s; rest \<leftarrow> gather fragments ss; Some (x @ rest) }"

definition sequence_range :: "u8 \<Rightarrow> u8 list" where
  "sequence_range final_sequence = map of_nat [1..<Suc (unat final_sequence)]"

type_synonym 'k fragment_result =
  "('k fragment_reassembler \<times> global_budget \<times> (socks5_fragment_error + socks5_fragment_outcome)) option"

definition finish_assembly ::
  "'k fragment_key \<Rightarrow> 'k fragment_reassembler \<Rightarrow> global_budget \<Rightarrow> 'k fragment_result" where
  "finish_assembly key r b =
     (case remove_assembly key r b of
        (r, b, removed) \<Rightarrow> do {
          a \<leftarrow> removed;
          final_sequence \<leftarrow> as_final_sequence a;
          payload \<leftarrow> gather (as_fragments a) (sequence_range final_sequence);
          Some (r, b, Ok (FComplete
            \<lparr>sd_target = as_target a, sd_port = as_port a, sd_payload = payload\<rparr> True))
        })"

text \<open>The part of \<open>push\<close> after the assembly is known to exist; \<open>created\<close> as in the code.\<close>

definition push_into_assembly ::
  "bool \<Rightarrow> 'k \<Rightarrow> 'k fragment_key \<Rightarrow> socks5_udp_fragment \<Rightarrow> instant
     \<Rightarrow> 'k fragment_reassembler \<Rightarrow> global_budget \<Rightarrow> 'k fragment_result" where
  "push_into_assembly created session key f now r b =
     do {
       a \<leftarrow> hm_get (fr_assemblies r) key;
       case conflict_verdict (fr_config r) f a of
         DropAssembly e \<Rightarrow> (case remove_assembly key r b of (r, b, _) \<Rightarrow> Some (r, b, Err e))
       | ReplyDuplicate \<Rightarrow> Some (r, b, Ok FDuplicate)
       | RefuseFragment e \<Rightarrow> Some (r, b, Err e)
       | Accept \<Rightarrow> do {
           (r, b, reserved) \<leftarrow> reserve_fragment session key (length (sf_payload f)) r b;
           case reserved of
             Inl e \<Rightarrow>
               (if created then (case remove_assembly key r b of (r, b, _) \<Rightarrow> Some (r, b, Err e))
                else Some (r, b, Err e))
           | Inr _ \<Rightarrow> do {
               a \<leftarrow> hm_get (fr_assemblies r) key;
               a \<leftarrow> store_in_assembly f now a;
               let r = r\<lparr>fr_assemblies := hm_insert key a (fr_assemblies r)\<rparr>;
               if as_final_sequence a = Some (as_highest_contiguous a) then finish_assembly key r b
               else Some (r, b, Ok FPending)
             }
         }
     }"

definition fragment_push ::
  "'k \<Rightarrow> socks5_udp_fragment \<Rightarrow> instant \<Rightarrow> 'k fragment_reassembler \<Rightarrow> global_budget \<Rightarrow> 'k fragment_result" where
  "fragment_push session f now r b =
     (if sf_sequence f = 0 then
        Some (r, b, Ok (FComplete
          \<lparr>sd_target = sf_target f, sd_port = sf_port f, sd_payload = sf_payload f\<rparr> False))
      else if unat (sf_sequence f) > fc_max_fragments_per_datagram (fr_config r)
        then Some (r, b, Err SequenceLimit)
      else let key = \<lparr>fk_session = session, fk_target = sf_target f, fk_port = sf_port f\<rparr> in
        if hm_get (fr_assemblies r) key \<noteq> None then push_into_assembly False session key f now r b
        else if sf_sequence f \<noteq> 1 then Some (r, b, Err MissingInitialFragment)
        else case socks5_udp_envelope_header_len (sf_target f) of
            Inl _ \<Rightarrow> Some (r, b, Err DatagramByteBudget)
          | Inr envelope_bytes \<Rightarrow>
              (case reserve_new_assembly session envelope_bytes r b of
                 (r, b, Inl e) \<Rightarrow> Some (r, b, Err e)
               | (r, b, Inr _) \<Rightarrow>
                   push_into_assembly True session key f now
                     (r\<lparr>fr_assemblies := hm_insert key (fresh_assembly f envelope_bytes now) (fr_assemblies r)\<rparr>) b))"

section \<open>Expiry and session teardown\<close>

fun remove_assemblies ::
  "'k fragment_key list \<Rightarrow> 'k fragment_reassembler \<Rightarrow> global_budget \<Rightarrow> socks5_fragment_expiration
     \<Rightarrow> 'k fragment_reassembler \<times> global_budget \<times> socks5_fragment_expiration" where
  "remove_assemblies [] r b e = (r, b, e)"
| "remove_assemblies (key # keys) r b e =
     (case remove_assembly key r b of
        (r, b, None) \<Rightarrow> remove_assemblies keys r b e
      | (r, b, Some a) \<Rightarrow>
          remove_assemblies keys r b
            (e\<lparr>fe_datagrams := saturating_add (fe_datagrams e) 1,
               fe_fragments := saturating_add (fe_fragments e) (length (as_fragments a)),
               fe_bytes := saturating_add (fe_bytes e) (as_bytes_total a)\<rparr>))"

definition no_expiration :: socks5_fragment_expiration where
  "no_expiration = \<lparr>fe_datagrams = 0, fe_fragments = 0, fe_bytes = 0\<rparr>"

definition fragment_expire ::
  "instant \<Rightarrow> 'k fragment_reassembler \<Rightarrow> global_budget
     \<Rightarrow> 'k fragment_reassembler \<times> global_budget \<times> socks5_fragment_expiration" where
  "fragment_expire now r b =
     remove_assemblies
       (map fst (filter (\<lambda>(_, a).
          case checked_sub now (as_last_activity a) of Some elapsed \<Rightarrow> elapsed \<ge> fc_timeout (fr_config r)
          | None \<Rightarrow> False) (fr_assemblies r)))
       r b no_expiration"

definition fragment_discard_session ::
  "'k \<Rightarrow> 'k fragment_reassembler \<Rightarrow> global_budget
     \<Rightarrow> 'k fragment_reassembler \<times> global_budget \<times> socks5_fragment_expiration" where
  "fragment_discard_session session r b =
     remove_assemblies (filter (\<lambda>key. fk_session key = session) (map fst (fr_assemblies r))) r b no_expiration"

end
