(* ===== verification/Socks5_Accounting.thy ===== *)
theory Socks5_Accounting
  imports Socks5_Fragment
begin

text \<open>
  The accounting of the SOCKS5 fragment reassemblers: the invariant of one reassembler, its
  share of the process-wide budget, and runs of several reassemblers over one budget.
\<close>

section \<open>Sums over the assemblies\<close>

definition total_fragments :: "('k fragment_key, assembly) hashmap \<Rightarrow> nat" where
  "total_fragments as = sum_list (map (\<lambda>(_, a). length (as_fragments a)) as)"

definition total_bytes :: "('k fragment_key, assembly) hashmap \<Rightarrow> nat" where
  "total_bytes as = sum_list (map (\<lambda>(_, a). as_bytes_total a) as)"

definition of_session :: "'k \<Rightarrow> ('k fragment_key, assembly) hashmap \<Rightarrow> usage" where
  "of_session s as =
     \<lparr>us_datagrams = sum_list (map (\<lambda>(k, _). if fk_session k = s then 1 else 0) as),
      us_fragments = sum_list (map (\<lambda>(k, a). if fk_session k = s then length (as_fragments a) else 0) as),
      us_bytes = sum_list (map (\<lambda>(k, a). if fk_session k = s then as_bytes_total a else 0) as)\<rparr>"

definition payload_total :: "(u8, bytes) hashmap \<Rightarrow> nat" where
  "payload_total fs = sum_list (map (\<lambda>(_, x). length x) fs)"

definition contiguous_upto :: "(u8, bytes) hashmap \<Rightarrow> u8 \<Rightarrow> bool" where
  "contiguous_upto fs h \<longleftrightarrow>
     (\<forall>i. 1 \<le> i \<and> i \<le> unat h \<longrightarrow> hm_get fs (of_nat i) \<noteq> None) \<and> hm_get fs (of_nat (Suc (unat h))) = None"

definition assembly_wf :: "socks5_fragment_config \<Rightarrow> 'k fragment_key \<Rightarrow> assembly \<Rightarrow> bool" where
  "assembly_wf c key a \<longleftrightarrow>
     as_target a = fk_target key \<and> as_port a = fk_port key \<and>
     hm_distinct (as_fragments a) \<and>
     as_payload_bytes a = payload_total (as_fragments a) \<and>
     as_payload_bytes a \<le> as_bytes_total a \<and>
     as_bytes_total a \<le> fc_max_bytes_per_datagram c \<and>
     (\<forall>s. hm_get (as_fragments a) s \<noteq> None \<longrightarrow> 1 \<le> unat s \<and> unat s \<le> fc_max_fragments_per_datagram c) \<and>
     contiguous_upto (as_fragments a) (as_highest_contiguous a) \<and>
     unat (as_highest_contiguous a) \<le> 127"

definition assembly_open :: "assembly \<Rightarrow> bool" where
  "assembly_open a \<longleftrightarrow> as_final_sequence a \<noteq> Some (as_highest_contiguous a)"

definition member_inv :: "'k fragment_reassembler \<Rightarrow> bool" where
  "member_inv r \<longleftrightarrow>
     validate_config (fr_config r) = Ok () \<and>
     hm_distinct (fr_assemblies r) \<and> hm_distinct (fr_sessions r) \<and>
     fr_local_fragments r = total_fragments (fr_assemblies r) \<and>
     fr_local_bytes r = total_bytes (fr_assemblies r) \<and>
     (\<forall>k a. hm_get (fr_assemblies r) k = Some a \<longrightarrow> assembly_wf (fr_config r) k a) \<and>
     (\<forall>s. hm_get (fr_sessions r) s =
        (if us_datagrams (of_session s (fr_assemblies r)) = 0 then None
         else Some (of_session s (fr_assemblies r)))) \<and>
     (\<forall>s. us_datagrams (of_session s (fr_assemblies r)) \<le> fc_max_inflight_per_session (fr_config r) \<and>
          us_fragments (of_session s (fr_assemblies r)) \<le> fc_max_fragments_per_session (fr_config r) \<and>
          us_bytes (of_session s (fr_assemblies r)) \<le> fc_max_bytes_per_session (fr_config r))"

text \<open>
  \<open>covers l b r X Y Z\<close>: the budget \<open>b\<close>, with the limits of \<open>l\<close>, counts exactly what \<open>r\<close> holds and
  \<open>X\<close> datagrams, \<open>Y\<close> fragments and \<open>Z\<close> bytes held by other reassemblers.
\<close>

definition covers ::
  "global_budget \<Rightarrow> global_budget \<Rightarrow> 'k fragment_reassembler \<Rightarrow> nat \<Rightarrow> nat \<Rightarrow> nat \<Rightarrow> bool" where
  "covers l b r X Y Z \<longleftrightarrow>
     gb_max_inflight_datagrams b = gb_max_inflight_datagrams l \<and>
     gb_max_fragments b = gb_max_fragments l \<and> gb_max_bytes b = gb_max_bytes l \<and>
     gb_inflight_datagrams b = length (fr_assemblies r) + X \<and>
     gb_buffered_fragments b = fr_local_fragments r + Y \<and>
     gb_buffered_bytes b = fr_local_bytes r + Z \<and>
     gb_inflight_datagrams b \<le> gb_max_inflight_datagrams b \<and>
     gb_buffered_fragments b \<le> gb_max_fragments b \<and> gb_buffered_bytes b \<le> gb_max_bytes b \<and>
     gb_max_inflight_datagrams b \<le> usize_max \<and> gb_max_fragments b \<le> usize_max \<and>
     gb_max_bytes b \<le> usize_max"

lemma member_invD:
  assumes "member_inv r"
  shows "validate_config (fr_config r) = Ok ()" "hm_distinct (fr_assemblies r)" "hm_distinct (fr_sessions r)"
    "fr_local_fragments r = total_fragments (fr_assemblies r)"
    "fr_local_bytes r = total_bytes (fr_assemblies r)"
    "hm_get (fr_assemblies r) k = Some a \<Longrightarrow> assembly_wf (fr_config r) k a"
    "hm_get (fr_sessions r) s =
       (if us_datagrams (of_session s (fr_assemblies r)) = 0 then None else Some (of_session s (fr_assemblies r)))"
    "us_datagrams (of_session s (fr_assemblies r)) \<le> fc_max_inflight_per_session (fr_config r)"
    "us_fragments (of_session s (fr_assemblies r)) \<le> fc_max_fragments_per_session (fr_config r)"
    "us_bytes (of_session s (fr_assemblies r)) \<le> fc_max_bytes_per_session (fr_config r)"
  using assms unfolding member_inv_def by blast+

section \<open>How the sums change\<close>

lemma totals_remove:
  assumes "hm_distinct as" and "hm_get as key = Some a"
  shows "total_fragments as = total_fragments (hm_remove key as) + length (as_fragments a)"
    and "total_bytes as = total_bytes (hm_remove key as) + as_bytes_total a"
    and "length as = Suc (length (hm_remove key as))"
    and "of_session s as = (if fk_session key = s
      then (of_session s (hm_remove key as))
        \<lparr>us_datagrams := us_datagrams (of_session s (hm_remove key as)) + 1,
         us_fragments := us_fragments (of_session s (hm_remove key as)) + length (as_fragments a),
         us_bytes := us_bytes (of_session s (hm_remove key as)) + as_bytes_total a\<rparr>
      else of_session s (hm_remove key as))"
  using hm_sum_remove [OF assms, of "\<lambda>(_, a). length (as_fragments a)"]
    hm_sum_remove [OF assms, of "\<lambda>(_, a). as_bytes_total a"]
    hm_length_remove [OF assms]
    hm_sum_remove [OF assms, of "\<lambda>(k, _). if fk_session k = s then 1 else 0"]
    hm_sum_remove [OF assms, of "\<lambda>(k, a). if fk_session k = s then length (as_fragments a) else 0"]
    hm_sum_remove [OF assms, of "\<lambda>(k, a). if fk_session k = s then as_bytes_total a else 0"]
  by (simp_all add: total_fragments_def total_bytes_def of_session_def)

lemma totals_insert_new:
  assumes "hm_get as key = None"
  shows "total_fragments (hm_insert key a as) = total_fragments as + length (as_fragments a)"
    and "total_bytes (hm_insert key a as) = total_bytes as + as_bytes_total a"
    and "length (hm_insert key a as) = Suc (length as)"
    and "of_session s (hm_insert key a as) = (if fk_session key = s
      then (of_session s as)
        \<lparr>us_datagrams := us_datagrams (of_session s as) + 1,
         us_fragments := us_fragments (of_session s as) + length (as_fragments a),
         us_bytes := us_bytes (of_session s as) + as_bytes_total a\<rparr>
      else of_session s as)"
  using assms by (simp_all add: hm_insert_new total_fragments_def total_bytes_def of_session_def)

lemma totals_grow:
  assumes "hm_distinct as" and "hm_get as key = Some a"
    and "length (as_fragments a') = length (as_fragments a) + 1" and "as_bytes_total a' = as_bytes_total a + n"
  shows "total_fragments (hm_insert key a' as) = total_fragments as + 1"
    and "total_bytes (hm_insert key a' as) = total_bytes as + n"
    and "length (hm_insert key a' as) = length as"
    and "of_session s (hm_insert key a' as) = (if fk_session key = s
      then (of_session s as)
        \<lparr>us_fragments := us_fragments (of_session s as) + 1,
         us_bytes := us_bytes (of_session s as) + n\<rparr>
      else of_session s as)"
  using hm_sum_update [OF assms(1,2), of "\<lambda>(_, a). length (as_fragments a)" a']
    hm_sum_update [OF assms(1,2), of "\<lambda>(_, a). as_bytes_total a" a']
    hm_length_update [OF assms(2), of a']
    hm_sum_update [OF assms(1,2), of "\<lambda>(k, _). if fk_session k = s then 1 else 0" a']
    hm_sum_update [OF assms(1,2), of "\<lambda>(k, a). if fk_session k = s then length (as_fragments a) else 0" a']
    hm_sum_update [OF assms(1,2), of "\<lambda>(k, a). if fk_session k = s then as_bytes_total a else 0" a']
    assms(3,4)
  by (simp_all add: total_fragments_def total_bytes_def of_session_def split: if_splits)

lemma session_share:
  "us_datagrams (of_session s as) \<le> length as"
  "us_fragments (of_session s as) \<le> total_fragments as"
  "us_bytes (of_session s as) \<le> total_bytes as"
proof -
  show "us_datagrams (of_session s as) \<le> length as"
    unfolding of_session_def by (induction as) auto
  show "us_fragments (of_session s as) \<le> total_fragments as"
    unfolding of_session_def total_fragments_def by (auto intro!: sum_list_mono)
  show "us_bytes (of_session s as) \<le> total_bytes as"
    unfolding of_session_def total_bytes_def by (auto intro!: sum_list_mono)
qed

lemma fold_release_fragments:
  "fold (\<lambda>(_, x). release_fragment (length x)) fs b =
     b\<lparr>gb_buffered_fragments := gb_buffered_fragments b - length fs,
       gb_buffered_bytes := gb_buffered_bytes b - payload_total fs\<rparr>"
proof (induction fs arbitrary: b)
  case Nil
  then show ?case by (simp add: payload_total_def)
next
  case (Cons e fs)
  then show ?case
    by (cases e) (simp add: payload_total_def release_fragment_def release_bytes_def release_counter_def
        saturating_sub_def)
qed

lemma release_assembly_wf:
  assumes "assembly_wf c key a"
  shows "release_assembly a b =
    b\<lparr>gb_inflight_datagrams := gb_inflight_datagrams b - 1,
      gb_buffered_fragments := gb_buffered_fragments b - length (as_fragments a),
      gb_buffered_bytes := gb_buffered_bytes b - as_bytes_total a\<rparr>"
  using assms
  by (simp add: release_assembly_def Let_def fold_release_fragments release_datagram_def release_bytes_def
      release_counter_def saturating_sub_def assembly_wf_def)

section \<open>Removing an assembly\<close>

lemma remove_assembly_spec:
  assumes inv: "member_inv r" and cov: "covers l b r X Y Z"
  obtains r' b' where "remove_assembly key r b = (r', b', hm_get (fr_assemblies r) key)"
    and "member_inv r'" and "covers l b' r' X Y Z" and "fr_config r' = fr_config r"
    and "fr_assemblies r' = hm_remove key (fr_assemblies r)"
proof (cases "hm_get (fr_assemblies r) key")
  case None
  with inv cov that [of r b] show ?thesis by (simp add: remove_assembly_def hm_remove_absent)
next
  case (Some a)
  let ?as = "hm_remove key (fr_assemblies r)" and ?s = "fk_session key"
  have d: "hm_distinct (fr_assemblies r)" and ds: "hm_distinct (fr_sessions r)"
    and wf: "assembly_wf (fr_config r) key a"
    using inv Some by (auto simp: member_inv_def)
  note t = totals_remove [OF d Some]
  have u: "hm_get (fr_sessions r) ?s = Some (of_session ?s (fr_assemblies r))"
    using inv t(4) [of ?s] by (simp add: member_inv_def)
  define sessions where "sessions = (if us_datagrams (of_session ?s ?as) = 0
    then hm_remove ?s (fr_sessions r) else hm_insert ?s (of_session ?s ?as) (fr_sessions r))"
  have empty: "us_fragments (of_session s as) = 0 \<and> us_bytes (of_session s as) = 0"
    if "us_datagrams (of_session s as) = 0" for s and as :: "('a fragment_key, assembly) hashmap"
    using that unfolding of_session_def by (induction as) (auto split: if_splits)
  define r' where "r' = r\<lparr>fr_assemblies := ?as, fr_local_fragments := total_fragments ?as,
    fr_local_bytes := total_bytes ?as, fr_sessions := sessions\<rparr>"
  define b' where "b' = b\<lparr>gb_inflight_datagrams := gb_inflight_datagrams b - 1,
      gb_buffered_fragments := gb_buffered_fragments b - length (as_fragments a),
      gb_buffered_bytes := gb_buffered_bytes b - as_bytes_total a\<rparr>"
  have eq: "(of_session ?s (fr_assemblies r))
      \<lparr>us_datagrams := us_datagrams (of_session ?s (fr_assemblies r)) - 1,
       us_fragments := us_fragments (of_session ?s (fr_assemblies r)) - length (as_fragments a),
       us_bytes := us_bytes (of_session ?s (fr_assemblies r)) - as_bytes_total a\<rparr> = of_session ?s ?as"
    using t(4) [of ?s] by simp
  have cond: "us_datagrams (of_session ?s (fr_assemblies r)) - 1 = 0 \<and>
      us_fragments (of_session ?s (fr_assemblies r)) - length (as_fragments a) = 0 \<and>
      us_bytes (of_session ?s (fr_assemblies r)) - as_bytes_total a = 0 \<longleftrightarrow> us_datagrams (of_session ?s ?as) = 0"
    using t(4) [of ?s] empty [of ?s ?as] by auto
  have loc: "fr_local_fragments r - length (as_fragments a) = total_fragments ?as"
    "fr_local_bytes r - as_bytes_total a = total_bytes ?as"
    using inv t(1,2) by (simp_all add: member_inv_def)
  have "remove_assembly key r b = (r', b', Some a)"
    unfolding remove_assembly_def Let_def saturating_sub_def r'_def b'_def sessions_def
    using empty [of ?s ?as]
    by (cases "us_datagrams (of_session ?s ?as) = 0")
      (simp_all add: Some u cond eq loc release_assembly_wf [OF wf]
        del: One_nat_def diff_is_0_eq diff_is_0_eq')
  moreover have "member_inv r'"
  proof -
    have look: "hm_get sessions s =
        (if us_datagrams (of_session s ?as) = 0 then None else Some (of_session s ?as))" for s
      using member_invD(7) [OF inv, of s] t(4) [of s] by (cases "s = ?s") (auto simp: sessions_def)
    have limits: "us_datagrams (of_session s ?as) \<le> fc_max_inflight_per_session (fr_config r)"
      "us_fragments (of_session s ?as) \<le> fc_max_fragments_per_session (fr_config r)"
      "us_bytes (of_session s ?as) \<le> fc_max_bytes_per_session (fr_config r)" for s
      using member_invD(8-10) [OF inv, of s] t(4) [of s] by (auto split: if_splits)
    have wfs: "assembly_wf (fr_config r) k x" if "hm_get ?as k = Some x" for k x
      using that member_invD(6) [OF inv, of k x] by (auto simp: hm_get_remove split: if_splits
          simp del: map_of_eq_Some_iff)
    have "hm_distinct sessions" using ds by (simp add: sessions_def)
    then show ?thesis
      unfolding member_inv_def r'_def using look limits wfs member_invD(1) [OF inv] d by auto
  qed
  moreover have "covers l b' r' X Y Z"
    using cov t(1-3) inv by (auto simp: covers_def r'_def b'_def member_inv_def)
  ultimately show ?thesis using Some that [of r' b'] by (simp add: r'_def)
qed

section \<open>Opening an assembly\<close>

lemma reserve_counter_Some:
  "reserve_counter c l a = Some n \<longleftrightarrow> n = c + a \<and> c + a \<le> usize_max \<and> c + a \<le> l"
  by (auto simp: reserve_counter_def checked_add_def)

lemma session_usage_inv:
  "member_inv r \<Longrightarrow> session_usage s r = of_session s (fr_assemblies r)"
proof -
  assume "member_inv r"
  note look = member_invD(7) [OF this, of s]
  have "of_session s as = default_usage" if "us_datagrams (of_session s as) = 0"
    for as :: "('a fragment_key, assembly) hashmap"
    using that unfolding of_session_def default_usage_def by (induction as) (auto split: if_splits)
  with look show ?thesis unfolding session_usage_def by (metis option.simps(4,5))
qed

lemma reserve_new_assembly_ok:
  assumes "reserve_new_assembly session env r b = (r1, b1, Ok ())" and inv: "member_inv r"
    and cov: "covers l b r X Y Z"
  shows "let u = of_session session (fr_assemblies r) in
    env \<le> fc_max_bytes_per_datagram (fr_config r) \<and>
    us_datagrams u < fc_max_inflight_per_session (fr_config r) \<and>
    us_bytes u + env \<le> fc_max_bytes_per_session (fr_config r) \<and>
    r1 = r\<lparr>fr_sessions := hm_insert session
        (u\<lparr>us_datagrams := us_datagrams u + 1, us_bytes := us_bytes u + env\<rparr>) (fr_sessions r),
      fr_local_bytes := fr_local_bytes r + env\<rparr> \<and>
    b1 = b\<lparr>gb_inflight_datagrams := gb_inflight_datagrams b + 1, gb_buffered_bytes := gb_buffered_bytes b + env\<rparr> \<and>
    gb_inflight_datagrams b + 1 \<le> gb_max_inflight_datagrams b \<and> gb_buffered_bytes b + env \<le> gb_max_bytes b"
proof -
  let ?u = "of_session session (fr_assemblies r)"
  have u: "session_usage session r = ?u" using inv by (rule session_usage_inv)
  obtain b2 where b2: "try_reserve_datagram b = Some b2" and b1: "try_reserve_bytes env b2 = Some b1"
    and r1: "r1 = r\<lparr>fr_sessions := hm_insert session
        (?u\<lparr>us_datagrams := saturating_add (us_datagrams ?u) 1,
            us_bytes := saturating_add (us_bytes ?u) env\<rparr>) (fr_sessions r),
      fr_local_bytes := saturating_add (fr_local_bytes r) env\<rparr>"
    and lim: "env \<le> fc_max_bytes_per_datagram (fr_config r)"
      "us_datagrams ?u < fc_max_inflight_per_session (fr_config r)"
      "saturating_add (us_bytes ?u) env \<le> fc_max_bytes_per_session (fr_config r)"
    using assms(1)
    by (auto simp: reserve_new_assembly_def u Let_def split: if_splits option.splits)
  have b: "b1 = b\<lparr>gb_inflight_datagrams := gb_inflight_datagrams b + 1, gb_buffered_bytes := gb_buffered_bytes b + env\<rparr>"
    "gb_inflight_datagrams b + 1 \<le> gb_max_inflight_datagrams b" "gb_buffered_bytes b + env \<le> gb_max_bytes b"
    "gb_inflight_datagrams b + 1 \<le> usize_max" "gb_buffered_bytes b + env \<le> usize_max"
    using b1 b2 by (auto simp: try_reserve_datagram_def try_reserve_bytes_def reserve_counter_Some)
  have "us_datagrams ?u + 1 \<le> usize_max" "us_bytes ?u + env \<le> usize_max" "fr_local_bytes r + env \<le> usize_max"
    using b(4,5) cov session_share [of session "fr_assemblies r"] member_invD(5) [OF inv]
    by (auto simp: covers_def)
  with r1 lim b show ?thesis by (simp add: Let_def)
qed

lemma reserve_new_assembly_err:
  assumes "reserve_new_assembly session env r b = (r1, b1, Err e)"
  shows "r1 = r \<and> b1 = b"
  using assms
  by (auto simp: reserve_new_assembly_def Let_def try_reserve_datagram_def release_datagram_def
      release_counter_def saturating_sub_def reserve_counter_Some split: if_splits option.splits)

lemma fresh_assembly_wf:
  assumes "env \<le> fc_max_bytes_per_datagram c"
  shows "assembly_wf c \<lparr>fk_session = s, fk_target = sf_target f, fk_port = sf_port f\<rparr> (fresh_assembly f env now)"
  using assms by (simp add: assembly_wf_def fresh_assembly_def payload_total_def contiguous_upto_def)

lemma open_assembly_spec:
  assumes res: "reserve_new_assembly session env r b = (r1, b1, Ok ())" and inv: "member_inv r"
    and cov: "covers l b r X Y Z" and key: "key = \<lparr>fk_session = session, fk_target = sf_target f, fk_port = sf_port f\<rparr>"
    and new: "hm_get (fr_assemblies r) key = None"
  shows "let r2 = r1\<lparr>fr_assemblies := hm_insert key (fresh_assembly f env now) (fr_assemblies r1)\<rparr> in
    member_inv r2 \<and> covers l b1 r2 X Y Z \<and> fr_config r2 = fr_config r"
proof -
  let ?u = "of_session session (fr_assemblies r)" and ?a = "fresh_assembly f env now"
  let ?as = "hm_insert key ?a (fr_assemblies r)"
  note ok = reserve_new_assembly_ok [OF res inv cov, unfolded Let_def]
  have a: "as_fragments ?a = []" "as_bytes_total ?a = env" by (simp_all add: fresh_assembly_def)
  note t = totals_insert_new [OF new, where a = ?a, unfolded a]
  have k: "fk_session key = session" by (simp add: key)
  have look: "hm_get (hm_insert session
        (?u\<lparr>us_datagrams := us_datagrams ?u + 1, us_bytes := us_bytes ?u + env\<rparr>) (fr_sessions r)) s =
      (if us_datagrams (of_session s ?as) = 0 then None else Some (of_session s ?as))" for s
    using member_invD(7) [OF inv, of s] t(4) [of s] k by (cases "s = session") auto
  have limits: "us_datagrams (of_session s ?as) \<le> fc_max_inflight_per_session (fr_config r)"
    "us_fragments (of_session s ?as) \<le> fc_max_fragments_per_session (fr_config r)"
    "us_bytes (of_session s ?as) \<le> fc_max_bytes_per_session (fr_config r)" for s
    using member_invD(8-10) [OF inv, of s] t(4) [of s] k ok by (auto split: if_splits)
  have wfs: "assembly_wf (fr_config r) k' x" if "hm_get ?as k' = Some x" for k' x
    using that member_invD(6) [OF inv, of k' x] fresh_assembly_wf [of env "fr_config r" session f now] ok
    by (auto simp: key split: if_splits simp del: map_of_eq_Some_iff)
  have r2: "r1\<lparr>fr_assemblies := hm_insert key ?a (fr_assemblies r1)\<rparr> =
      r\<lparr>fr_assemblies := ?as, fr_sessions := hm_insert session
        (?u\<lparr>us_datagrams := us_datagrams ?u + 1, us_bytes := us_bytes ?u + env\<rparr>) (fr_sessions r),
      fr_local_bytes := fr_local_bytes r + env\<rparr>" using ok by simp
  have "member_inv (r\<lparr>fr_assemblies := ?as, fr_sessions := hm_insert session
        (?u\<lparr>us_datagrams := us_datagrams ?u + 1, us_bytes := us_bytes ?u + env\<rparr>) (fr_sessions r),
      fr_local_bytes := fr_local_bytes r + env\<rparr>)"
    unfolding member_inv_def using look limits wfs member_invD(1-5) [OF inv] t(1,2) by auto
  moreover have "covers l b1 (r\<lparr>fr_assemblies := ?as, fr_sessions := hm_insert session
        (?u\<lparr>us_datagrams := us_datagrams ?u + 1, us_bytes := us_bytes ?u + env\<rparr>) (fr_sessions r),
      fr_local_bytes := fr_local_bytes r + env\<rparr>) X Y Z"
    using cov ok t(3) by (auto simp: covers_def)
  ultimately show ?thesis unfolding Let_def r2 by simp
qed

section \<open>The contiguity loop\<close>

lemma u8_next: "unat h < 255 \<Longrightarrow> u8_saturating_add h 1 = of_nat (Suc (unat h)) \<and> unat (u8_saturating_add h 1) = Suc (unat h)"
proof -
  assume h: "unat h < 255"
  then have eq: "u8_saturating_add h 1 = of_nat (Suc (unat h))" by (simp add: u8_saturating_add_def)
  moreover have "unat (of_nat (Suc (unat h)) :: u8) = Suc (unat h)"
    using h by (intro unat_of_nat_small) simp
  ultimately show ?thesis by (simp only: eq)
qed

text \<open>
  While every sequence number is at most 127 the loop ends, and it stops right before the first
  missing fragment.
\<close>

lemma advance_contiguous_total:
  assumes "\<And>s. hm_get fs s \<noteq> None \<Longrightarrow> unat s \<le> 127" and "unat h \<le> 127"
    and "\<forall>i. 1 \<le> i \<and> i \<le> unat h \<longrightarrow> hm_get fs (of_nat i) \<noteq> None"
  shows "\<exists>h'. advance_contiguous fs h = Some h' \<and> contiguous_upto fs h' \<and> unat h \<le> unat h' \<and> unat h' \<le> 127"
  using assms(2,3)
proof (induction "127 - unat h" arbitrary: h rule: less_induct)
  case less
  let ?n = "u8_saturating_add h 1"
  have n: "?n = of_nat (Suc (unat h))" "unat ?n = Suc (unat h)" using less.prems(1) u8_next [of h] by auto
  show ?case
  proof (cases "hm_get fs ?n = None")
    case True
    then have "advance_contiguous fs h = Some h" by (simp add: advance_contiguous.simps)
    moreover have "contiguous_upto fs h" using True less.prems(2) n by (simp add: contiguous_upto_def)
    ultimately show ?thesis using less.prems(1) by blast
  next
    case False
    then have le: "unat ?n \<le> 127" using assms(1) by blast
    have "\<forall>i. 1 \<le> i \<and> i \<le> unat ?n \<longrightarrow> hm_get fs (of_nat i) \<noteq> None"
      using less.prems(2) False n by (auto simp: le_Suc_eq)
    moreover have "127 - unat ?n < 127 - unat h" using le n(2) by simp
    ultimately obtain h' where "advance_contiguous fs ?n = Some h'" "contiguous_upto fs h'"
      "unat ?n \<le> unat h'" "unat h' \<le> 127" using less.hyps le by blast
    moreover have "advance_contiguous fs h = advance_contiguous fs ?n"
      using False by (subst advance_contiguous.simps) simp
    ultimately show ?thesis using n(2) by auto
  qed
qed

lemma config_bounds:
  "validate_config c = Ok () \<Longrightarrow> fc_max_fragments_per_datagram c \<le> 127 \<and> fc_max_bytes_per_datagram c \<le> 65507"
  by (auto simp: validate_config_def MAX_UDP_DATAGRAM_BYTES_def split: if_splits)

lemma store_in_assembly_spec:
  assumes wf: "assembly_wf c key a" and cfg: "validate_config c = Ok ()"
    and new: "hm_get (as_fragments a) (sf_sequence f) = None"
    and seq: "1 \<le> unat (sf_sequence f)" "unat (sf_sequence f) \<le> fc_max_fragments_per_datagram c"
    and bytes: "as_bytes_total a + length (sf_payload f) \<le> fc_max_bytes_per_datagram c"
  obtains a' where "store_in_assembly f now a = Some a'" and "assembly_wf c key a'"
    and "as_fragments a' = hm_insert (sf_sequence f) (sf_payload f) (as_fragments a)"
    and "length (as_fragments a') = length (as_fragments a) + 1"
    and "as_bytes_total a' = as_bytes_total a + length (sf_payload f)"
    and "as_final_sequence a' = (if sf_final_fragment f then Some (sf_sequence f) else as_final_sequence a)"
proof -
  let ?fs = "hm_insert (sf_sequence f) (sf_payload f) (as_fragments a)"
  note c = config_bounds [OF cfg]
  have keys: "1 \<le> unat s \<and> unat s \<le> fc_max_fragments_per_datagram c" if "hm_get ?fs s \<noteq> None" for s
    using that wf seq by (auto simp: assembly_wf_def split: if_splits simp del: map_of_eq_Some_iff)
  have le127: "unat s \<le> 127" if "hm_get ?fs s \<noteq> None" for s
    using keys [OF that] c by linarith
  have base: "\<forall>i. 1 \<le> i \<and> i \<le> unat (as_highest_contiguous a) \<longrightarrow> hm_get ?fs (of_nat i) \<noteq> None"
    using wf by (auto simp: assembly_wf_def contiguous_upto_def)
  have h: "unat (as_highest_contiguous a) \<le> 127" using wf by (simp add: assembly_wf_def)
  obtain h' where h': "advance_contiguous ?fs (as_highest_contiguous a) = Some h'"
    "contiguous_upto ?fs h'" "unat h' \<le> 127"
    using advance_contiguous_total [OF le127 h base] by blast
  have usize: "as_bytes_total a + length (sf_payload f) \<le> usize_max"
    using bytes c by (simp add: usize_max_def)
  then have sat: "saturating_add (as_payload_bytes a) (length (sf_payload f)) = as_payload_bytes a + length (sf_payload f)"
    "saturating_add (as_bytes_total a) (length (sf_payload f)) = as_bytes_total a + length (sf_payload f)"
    using wf by (simp_all add: assembly_wf_def)
  let ?a = "a\<lparr>as_final_sequence := (if sf_final_fragment f then Some (sf_sequence f) else as_final_sequence a),
      as_payload_bytes := as_payload_bytes a + length (sf_payload f),
      as_bytes_total := as_bytes_total a + length (sf_payload f), as_fragments := ?fs,
      as_highest_received := max (as_highest_received a) (sf_sequence f), as_last_activity := now,
      as_highest_contiguous := h'\<rparr>"
  have store: "store_in_assembly f now a = Some ?a"
    using h'(1) sat by (simp add: store_in_assembly_def Let_def)
  have total: "payload_total ?fs = payload_total (as_fragments a) + length (sf_payload f)"
    "length ?fs = length (as_fragments a) + 1"
    using new by (simp_all add: hm_insert_new payload_total_def)
  have "assembly_wf c key ?a"
    using wf keys h'(2,3) bytes total unfolding assembly_wf_def by auto
  with store total(2) that [of ?a] show ?thesis by simp
qed

section \<open>Reserving and storing a fragment\<close>

lemma try_reserve_fragment_ok:
  "try_reserve_fragment n b = (b1, Ok ()) \<Longrightarrow>
     b1 = b\<lparr>gb_buffered_fragments := gb_buffered_fragments b + 1, gb_buffered_bytes := gb_buffered_bytes b + n\<rparr> \<and>
     gb_buffered_fragments b + 1 \<le> gb_max_fragments b \<and> gb_buffered_bytes b + n \<le> gb_max_bytes b \<and>
     gb_buffered_fragments b + 1 \<le> usize_max \<and> gb_buffered_bytes b + n \<le> usize_max"
  by (auto simp: try_reserve_fragment_def try_reserve_bytes_def Let_def reserve_counter_Some
      split: option.splits)

lemma try_reserve_fragment_err: "try_reserve_fragment n b = (b1, Err e) \<Longrightarrow> b1 = b"
  by (auto simp: try_reserve_fragment_def try_reserve_bytes_def Let_def reserve_counter_Some
      release_counter_def saturating_sub_def split: option.splits)

lemma reserve_fragment_cases:
  assumes inv: "member_inv r" and cov: "covers l b r X Y Z" and a: "hm_get (fr_assemblies r) key = Some a"
    and key: "fk_session key = session"
  obtains (refused) e where "reserve_fragment session key n r b = Some (r, b, Err e)"
  | (reserved) u b1 where "u = of_session session (fr_assemblies r)"
    and "reserve_fragment session key n r b = Some
      (r\<lparr>fr_sessions := hm_insert session (u\<lparr>us_fragments := us_fragments u + 1, us_bytes := us_bytes u + n\<rparr>)
           (fr_sessions r),
         fr_local_fragments := fr_local_fragments r + 1, fr_local_bytes := fr_local_bytes r + n\<rparr>, b1, Ok ())"
    and "b1 = b\<lparr>gb_buffered_fragments := gb_buffered_fragments b + 1, gb_buffered_bytes := gb_buffered_bytes b + n\<rparr>"
    and "gb_buffered_fragments b + 1 \<le> gb_max_fragments b" and "gb_buffered_bytes b + n \<le> gb_max_bytes b"
    and "as_bytes_total a + n \<le> fc_max_bytes_per_datagram (fr_config r)"
    and "us_fragments u + 1 \<le> fc_max_fragments_per_session (fr_config r)"
    and "us_bytes u + n \<le> fc_max_bytes_per_session (fr_config r)"
proof -
  let ?u = "of_session session (fr_assemblies r)" and ?c = "fr_config r"
  have u: "session_usage session r = ?u" using inv by (rule session_usage_inv)
  have some: "hm_get (fr_sessions r) session = Some ?u"
    using member_invD(7) [OF inv, of session] totals_remove(4) [OF member_invD(2) [OF inv] a, of session] key
    by simp
  obtain b1 res where tr: "try_reserve_fragment n b = (b1, res)" by fastforce
  show thesis
  proof (cases "fc_max_fragments_per_datagram ?c \<le> length (as_fragments a) \<or>
      fc_max_bytes_per_datagram ?c < saturating_add (as_bytes_total a) n \<or>
      fc_max_fragments_per_session ?c \<le> us_fragments ?u \<or>
      fc_max_bytes_per_session ?c < saturating_add (us_bytes ?u) n \<or> res \<noteq> Ok ()")
    case True
    have "\<exists>e. reserve_fragment session key n r b = Some (r, b, Err e)"
      using True tr try_reserve_fragment_err [of n b b1]
      by (cases res) (auto simp: reserve_fragment_def a u Let_def)
    then show ?thesis using refused by blast
  next
    case False
    then have tr': "try_reserve_fragment n b = (b1, Ok ())" using tr by simp
    note b1 = try_reserve_fragment_ok [OF tr']
    have share: "us_fragments ?u \<le> fr_local_fragments r" "us_bytes ?u \<le> fr_local_bytes r"
      "as_bytes_total a \<le> fr_local_bytes r"
      using session_share [of session "fr_assemblies r"] member_invD(4,5) [OF inv]
        totals_remove(2) [OF member_invD(2) [OF inv] a] by simp_all
    have small: "fr_local_fragments r + 1 \<le> usize_max" "fr_local_bytes r + n \<le> usize_max"
      using b1 cov by (auto simp: covers_def)
    with share have sat: "saturating_add (us_fragments ?u) 1 = us_fragments ?u + 1"
      "saturating_add (us_bytes ?u) n = us_bytes ?u + n"
      "saturating_add (fr_local_fragments r) 1 = fr_local_fragments r + 1"
      "saturating_add (fr_local_bytes r) n = fr_local_bytes r + n"
      "saturating_add (as_bytes_total a) n = as_bytes_total a + n" by simp_all
    show ?thesis
      by (rule reserved [OF refl _ conjunct1 [OF b1]])
        (use False tr' b1 in \<open>simp_all add: reserve_fragment_def a u some sat [unfolded One_nat_def] Let_def\<close>)
  qed
qed

lemma grow_assembly_spec:
  assumes inv: "member_inv r" and cov: "covers l b r X Y Z" and a: "hm_get (fr_assemblies r) key = Some a"
    and key: "fk_session key = session" and u: "u = of_session session (fr_assemblies r)"
    and wf: "assembly_wf (fr_config r) key a'"
    and grow: "length (as_fragments a') = length (as_fragments a) + 1" "as_bytes_total a' = as_bytes_total a + n"
    and lim: "gb_buffered_fragments b + 1 \<le> gb_max_fragments b" "gb_buffered_bytes b + n \<le> gb_max_bytes b"
      "us_fragments u + 1 \<le> fc_max_fragments_per_session (fr_config r)"
      "us_bytes u + n \<le> fc_max_bytes_per_session (fr_config r)"
    and r2: "r2 = r\<lparr>fr_sessions := hm_insert session
          (u\<lparr>us_fragments := us_fragments u + 1, us_bytes := us_bytes u + n\<rparr>) (fr_sessions r),
        fr_local_fragments := fr_local_fragments r + 1, fr_local_bytes := fr_local_bytes r + n,
        fr_assemblies := hm_insert key a' (fr_assemblies r)\<rparr>"
    and b2: "b2 = b\<lparr>gb_buffered_fragments := gb_buffered_fragments b + 1, gb_buffered_bytes := gb_buffered_bytes b + n\<rparr>"
  shows "member_inv r2 \<and> covers l b2 r2 X Y Z"
proof -
  let ?as = "hm_insert key a' (fr_assemblies r)"
  note d = member_invD(2) [OF inv]
  note t = totals_grow [OF d a grow]
  have pos: "us_datagrams u \<noteq> 0" using totals_remove(4) [OF d a, of session] key by (simp add: u)
  have look: "hm_get (fr_sessions r2) s =
      (if us_datagrams (of_session s ?as) = 0 then None else Some (of_session s ?as))" for s
    using member_invD(7) [OF inv, of s] t(4) [of s] key pos u by (cases "s = session") (auto simp: r2)
  have limits: "us_datagrams (of_session s ?as) \<le> fc_max_inflight_per_session (fr_config r)"
    "us_fragments (of_session s ?as) \<le> fc_max_fragments_per_session (fr_config r)"
    "us_bytes (of_session s ?as) \<le> fc_max_bytes_per_session (fr_config r)" for s
    using member_invD(8-10) [OF inv, of s] t(4) [of s] key lim(3,4) u by (auto split: if_splits)
  have wfs: "assembly_wf (fr_config r) k x" if "hm_get ?as k = Some x" for k x
    using that member_invD(6) [OF inv, of k x] wf by (auto split: if_splits simp del: map_of_eq_Some_iff)
  have "member_inv r2"
    unfolding member_inv_def using look limits wfs member_invD(1-5) [OF inv] t(1,2) by (auto simp: r2)
  moreover have "covers l b2 r2 X Y Z"
    using cov lim(1,2) t(3) by (auto simp: covers_def r2 b2)
  ultimately show ?thesis ..
qed

lemma gather_contiguous:
  assumes "\<forall>i. 1 \<le> i \<and> i \<le> n \<longrightarrow> hm_get fs (of_nat i) \<noteq> None" and "1 \<le> m"
  shows "gather fs (map of_nat [m..<Suc n]) = Some (concat (map (\<lambda>i. the (hm_get fs (of_nat i))) [m..<Suc n]))"
  using assms(2)
proof (induction "Suc n - m" arbitrary: m)
  case 0
  then show ?case by simp
next
  case (Suc k)
  then have "m \<le> n" by simp
  moreover have "gather fs (map of_nat [Suc m..<Suc n]) =
      Some (concat (map (\<lambda>i. the (hm_get fs (of_nat i))) [Suc m..<Suc n]))"
    using Suc by simp
  moreover obtain x where "hm_get fs (of_nat m) = Some x" using assms(1) Suc.prems \<open>m \<le> n\<close> by blast
  ultimately show ?case by (simp add: upt_conv_Cons del: upt_Suc)
qed

text \<open>The payload an assembly delivers: its fragments 1 to the final one, in order.\<close>

definition assembly_payload :: "assembly \<Rightarrow> bytes" where
  "assembly_payload a =
     concat (map (\<lambda>i. the (hm_get (as_fragments a) (of_nat i))) [1..<Suc (unat (as_highest_contiguous a))])"

lemma finish_assembly_spec:
  assumes inv: "member_inv r" and cov: "covers l b r X Y Z" and a: "hm_get (fr_assemblies r) key = Some a"
    and final: "as_final_sequence a = Some (as_highest_contiguous a)"
  obtains r' b' where "finish_assembly key r b = Some (r', b', Ok (FComplete
      \<lparr>sd_target = fk_target key, sd_port = fk_port key, sd_payload = assembly_payload a\<rparr> True))"
    and "member_inv r'" and "covers l b' r' X Y Z" and "fr_config r' = fr_config r"
    and "fr_assemblies r' = hm_remove key (fr_assemblies r)"
proof -
  obtain r' b' where r': "remove_assembly key r b = (r', b', Some a)" "member_inv r'" "covers l b' r' X Y Z"
    "fr_config r' = fr_config r" "fr_assemblies r' = hm_remove key (fr_assemblies r)"
    using remove_assembly_spec [OF inv cov, of key] a by metis
  have wf: "assembly_wf (fr_config r) key a" using member_invD(6) [OF inv a] .
  then have "\<forall>i. 1 \<le> i \<and> i \<le> unat (as_highest_contiguous a) \<longrightarrow> hm_get (as_fragments a) (of_nat i) \<noteq> None"
    unfolding assembly_wf_def contiguous_upto_def by blast
  then have "gather (as_fragments a) (sequence_range (as_highest_contiguous a)) = Some (assembly_payload a)"
    unfolding sequence_range_def assembly_payload_def by (rule gather_contiguous) simp
  with r' final wf that [of r' b'] show ?thesis by (simp add: finish_assembly_def assembly_wf_def)
qed

lemma conflict_accept:
  "conflict_verdict c f a = Accept \<Longrightarrow> hm_get (as_fragments a) (sf_sequence f) = None"
proof (rule ccontr)
  assume acc: "conflict_verdict c f a = Accept" and "hm_get (as_fragments a) (sf_sequence f) \<noteq> None"
  then obtain x where "hm_get (as_fragments a) (sf_sequence f) = Some x" by blast
  with acc show False by (simp add: conflict_verdict_def Let_def split: if_split_asm)
qed

lemma push_into_assembly_spec:
  assumes inv: "member_inv r" and cov: "covers l b r X Y Z" and a: "hm_get (fr_assemblies r) key = Some a"
    and key: "fk_session key = session" and seq: "1 \<le> unat (sf_sequence f)"
      "unat (sf_sequence f) \<le> fc_max_fragments_per_datagram (fr_config r)"
  obtains r' b' x where "push_into_assembly created session key f now r b = Some (r', b', x)"
    and "member_inv r'" and "covers l b' r' X Y Z" and "fr_config r' = fr_config r"
proof -
  obtain rr br where rem: "remove_assembly key r b = (rr, br, Some a)" "member_inv rr" "covers l br rr X Y Z"
    "fr_config rr = fr_config r"
    using remove_assembly_spec [OF inv cov, of key] a by metis
  show thesis
  proof (cases "conflict_verdict (fr_config r) f a")
    case (DropAssembly e)
    with a rem that [of rr br "Err e"] show ?thesis by (simp add: push_into_assembly_def)
  next
    case ReplyDuplicate
    with a inv cov that [of r b "Ok FDuplicate"] show ?thesis by (simp add: push_into_assembly_def)
  next
    case (RefuseFragment e)
    with a inv cov that [of r b "Err e"] show ?thesis by (simp add: push_into_assembly_def)
  next
    case Accept
    let ?n = "length (sf_payload f)"
    show ?thesis
    proof (cases rule: reserve_fragment_cases [OF inv cov a key, of ?n])
      case (1 e)
      have "push_into_assembly created session key f now r b =
          Some (if created then rr else r, if created then br else b, Err e)"
        using Accept a 1 rem(1) by (simp add: push_into_assembly_def)
      then show ?thesis by (rule that) (use rem(2-4) inv cov in simp_all)
    next
      case (2 u b1)
      obtain a' where a': "store_in_assembly f now a = Some a'" "assembly_wf (fr_config r) key a'"
        "length (as_fragments a') = length (as_fragments a) + 1" "as_bytes_total a' = as_bytes_total a + ?n"
        using store_in_assembly_spec [OF member_invD(6) [OF inv a] member_invD(1) [OF inv] conflict_accept [OF Accept]
            seq 2(6)] by metis
      define r2 where "r2 = r\<lparr>fr_sessions := hm_insert session
          (u\<lparr>us_fragments := us_fragments u + 1, us_bytes := us_bytes u + ?n\<rparr>) (fr_sessions r),
        fr_local_fragments := fr_local_fragments r + 1, fr_local_bytes := fr_local_bytes r + ?n,
        fr_assemblies := hm_insert key a' (fr_assemblies r)\<rparr>"
      have r2: "member_inv r2" "covers l b1 r2 X Y Z"
        using grow_assembly_spec [OF inv cov a key 2(1) a'(2-4) 2(4,5,7,8) r2_def 2(3)] by blast+
      have push: "push_into_assembly created session key f now r b =
          (if as_final_sequence a' = Some (as_highest_contiguous a') then finish_assembly key r2 b1
           else Some (r2, b1, Ok FPending))"
        using Accept a 2(2) a'(1) by (simp add: push_into_assembly_def Let_def r2_def)
      show ?thesis
      proof (cases "as_final_sequence a' = Some (as_highest_contiguous a')")
        case True
        have "hm_get (fr_assemblies r2) key = Some a'" by (simp add: r2_def)
        then obtain r' b' x where "finish_assembly key r2 b1 = Some (r', b', x)" "member_inv r'"
          "covers l b' r' X Y Z" "fr_config r' = fr_config r2"
          using finish_assembly_spec [OF r2 _ True] by metis
        with push True that [of r' b' x] show ?thesis by (simp add: r2_def)
      next
        case False
        with push r2 that [of r2 b1 "Ok FPending"] show ?thesis by (simp add: r2_def)
      qed
    qed
  qed
qed

lemma fragment_push_spec:
  assumes inv: "member_inv r" and cov: "covers l b r X Y Z"
  obtains r' b' x where "fragment_push session f now r b = Some (r', b', x)"
    and "member_inv r'" and "covers l b' r' X Y Z" and "fr_config r' = fr_config r"
proof -
  let ?key = "\<lparr>fk_session = session, fk_target = sf_target f, fk_port = sf_port f\<rparr>"
  consider (direct) x where "fragment_push session f now r b = Some (r, b, x)"
    | (existing) a where "sf_sequence f \<noteq> 0" "unat (sf_sequence f) \<le> fc_max_fragments_per_datagram (fr_config r)"
        "hm_get (fr_assemblies r) ?key = Some a"
    | (fresh) env where "sf_sequence f \<noteq> 0" "unat (sf_sequence f) \<le> fc_max_fragments_per_datagram (fr_config r)"
        "hm_get (fr_assemblies r) ?key = None" "sf_sequence f = 1"
        "socks5_udp_envelope_header_len (sf_target f) = Ok env"
  proof (cases "sf_sequence f = 0 \<or> fc_max_fragments_per_datagram (fr_config r) < unat (sf_sequence f)")
    case True
    then have "\<exists>x. fragment_push session f now r b = Some (r, b, x)" by (auto simp: fragment_push_def)
    then show ?thesis using direct by blast
  next
    case False
    show ?thesis
    proof (cases "hm_get (fr_assemblies r) ?key")
      case None
      show ?thesis
      proof (cases "sf_sequence f = 1 \<and> is_ok (socks5_udp_envelope_header_len (sf_target f))")
        case True
        with False None fresh show ?thesis by (cases "socks5_udp_envelope_header_len (sf_target f)") auto
      next
        case refused: False
        have "\<exists>x. fragment_push session f now r b = Some (r, b, x)"
          using False None refused by (auto simp: fragment_push_def Let_def split: sum.splits)
        then show ?thesis using direct by blast
      qed
    qed (use False existing in auto)
  qed
  then show thesis
  proof cases
    case direct
    then show ?thesis by (rule that) (use inv cov in simp_all)
  next
    case existing
    have seq: "1 \<le> unat (sf_sequence f)" using existing(1) by (simp add: Suc_le_eq unat_gt_0)
    obtain r' b' x where "push_into_assembly False session ?key f now r b = Some (r', b', x)"
      "member_inv r'" "covers l b' r' X Y Z" "fr_config r' = fr_config r"
      using push_into_assembly_spec [OF inv cov existing(3) _ seq existing(2)] by (metis fragment_key.select_convs(1))
    with existing that [of r' b' x] show ?thesis by (simp add: fragment_push_def Let_def)
  next
    case fresh
    obtain r1 b1 res where res: "reserve_new_assembly session env r b = (r1, b1, res)" by (metis surj_pair)
    show ?thesis
    proof (cases res)
      case (Inl e)
      then have "r1 = r" "b1 = b" using reserve_new_assembly_err [OF res [unfolded Inl]] by simp_all
      with Inl res fresh inv cov that [of r b "Err e"] show ?thesis by (simp add: fragment_push_def Let_def)
    next
      case (Inr u)
      define r2 where "r2 = r1\<lparr>fr_assemblies := hm_insert ?key (fresh_assembly f env now) (fr_assemblies r1)\<rparr>"
      have r2: "member_inv r2" "covers l b1 r2 X Y Z" "fr_config r2 = fr_config r"
        using open_assembly_spec [OF _ inv cov refl fresh(3)] res Inr by (simp_all add: r2_def Let_def)
      have "hm_get (fr_assemblies r2) ?key = Some (fresh_assembly f env now)" by (simp add: r2_def)
      moreover have "1 \<le> unat (sf_sequence f)" "unat (sf_sequence f) \<le> fc_max_fragments_per_datagram (fr_config r2)"
        using fresh r2(3) by simp_all
      ultimately obtain r' b' x where "push_into_assembly True session ?key f now r2 b1 = Some (r', b', x)"
        "member_inv r'" "covers l b' r' X Y Z" "fr_config r' = fr_config r2"
        using push_into_assembly_spec [OF r2(1,2)] by (metis fragment_key.select_convs(1))
      with fresh res Inr r2(3) that [of r' b' x] show ?thesis by (simp add: fragment_push_def Let_def r2_def)
    qed
  qed
qed

lemma remove_assemblies_spec:
  assumes "member_inv r" and "covers l b r X Y Z"
  shows "\<exists>r' b' e'. remove_assemblies keys r b e = (r', b', e') \<and> member_inv r' \<and> covers l b' r' X Y Z \<and>
    fr_config r' = fr_config r"
  using assms
proof (induction keys arbitrary: r b e)
  case Nil
  then show ?case by simp
next
  case (Cons key keys)
  obtain r1 b1 where "remove_assembly key r b = (r1, b1, hm_get (fr_assemblies r) key)"
    "member_inv r1" "covers l b1 r1 X Y Z" "fr_config r1 = fr_config r"
    using remove_assembly_spec [OF Cons.prems, of key] by metis
  with Cons.IH [of r1 b1] show ?case by (cases "hm_get (fr_assemblies r) key") auto
qed

lemma drop_reassembler_spec:
  assumes inv: "member_inv r"
  shows "drop_reassembler r b = b\<lparr>gb_inflight_datagrams := gb_inflight_datagrams b - length (fr_assemblies r),
    gb_buffered_fragments := gb_buffered_fragments b - fr_local_fragments r,
    gb_buffered_bytes := gb_buffered_bytes b - fr_local_bytes r\<rparr>"
proof -
  have "fold (\<lambda>(_, a). release_assembly a) as b = b\<lparr>gb_inflight_datagrams := gb_inflight_datagrams b - length as,
      gb_buffered_fragments := gb_buffered_fragments b - total_fragments as,
      gb_buffered_bytes := gb_buffered_bytes b - total_bytes as\<rparr>"
    if "\<forall>(k, a) \<in> set as. assembly_wf (fr_config r) k a" for as
    using that
  proof (induction as arbitrary: b)
    case Nil
    then show ?case by (simp add: total_fragments_def total_bytes_def)
  next
    case (Cons e as)
    obtain k a where e: "e = (k, a)" by (cases e)
    with Cons.prems have "assembly_wf (fr_config r) k a" by auto
    from release_assembly_wf [OF this] Cons show ?case
      by (simp add: e total_fragments_def total_bytes_def)
  qed
  moreover have "\<forall>(k, a) \<in> set (fr_assemblies r). assembly_wf (fr_config r) k a"
    using member_invD(2,6) [OF inv] by (auto dest: map_of_is_SomeI)
  ultimately show ?thesis using member_invD(4,5) [OF inv] by (simp add: drop_reassembler_def)
qed

section \<open>Several reassemblers over one budget\<close>

record 'k fragment_system =
  fy_budget :: global_budget
  fy_members :: "'k fragment_reassembler list"

datatype 'k fragment_op =
    OpNew socks5_fragment_config
  | OpPush nat 'k socks5_udp_fragment instant
  | OpExpire nat instant
  | OpDiscard nat 'k
  | OpDrop nat

datatype fragment_op_result =
    Created "socks5_fragment_config_error + unit"
  | Pushed "socks5_fragment_error + socks5_fragment_outcome"
  | Removed socks5_fragment_expiration
  | Dropped
  | NoMember

text \<open>One operation of some task on its reassembler; an absent index stands for no operation.\<close>

fun fragment_step ::
  "'k fragment_op \<Rightarrow> 'k fragment_system \<Rightarrow> ('k fragment_system \<times> fragment_op_result) option" where
  "fragment_step (OpNew config) y =
     Some (case new_with_global_budget config (fy_budget y) of
        Inl e \<Rightarrow> (y, Created (Err e))
      | Inr r \<Rightarrow> (y\<lparr>fy_members := fy_members y @ [r]\<rparr>, Created (Ok ())))"
| "fragment_step (OpPush i session f now) y =
     (if i < length (fy_members y) then
        do {
          (r, b, x) \<leftarrow> fragment_push session f now (fy_members y ! i) (fy_budget y);
          Some (y\<lparr>fy_budget := b, fy_members := (fy_members y)[i := r]\<rparr>, Pushed x)
        }
      else Some (y, NoMember))"
| "fragment_step (OpExpire i now) y =
     (if i < length (fy_members y) then
        (case fragment_expire now (fy_members y ! i) (fy_budget y) of
           (r, b, e) \<Rightarrow> Some (y\<lparr>fy_budget := b, fy_members := (fy_members y)[i := r]\<rparr>, Removed e))
      else Some (y, NoMember))"
| "fragment_step (OpDiscard i session) y =
     (if i < length (fy_members y) then
        (case fragment_discard_session session (fy_members y ! i) (fy_budget y) of
           (r, b, e) \<Rightarrow> Some (y\<lparr>fy_budget := b, fy_members := (fy_members y)[i := r]\<rparr>, Removed e))
      else Some (y, NoMember))"
| "fragment_step (OpDrop i) y =
     (if i < length (fy_members y) then
        Some (y\<lparr>fy_budget := drop_reassembler (fy_members y ! i) (fy_budget y),
                fy_members := take i (fy_members y) @ drop (Suc i) (fy_members y)\<rparr>, Dropped)
      else Some (y, NoMember))"

definition held_datagrams :: "'k fragment_system \<Rightarrow> nat" where
  "held_datagrams y = sum_list (map (\<lambda>r. length (fr_assemblies r)) (fy_members y))"

definition held_fragments :: "'k fragment_system \<Rightarrow> nat" where
  "held_fragments y = sum_list (map (\<lambda>r. total_fragments (fr_assemblies r)) (fy_members y))"

definition held_bytes :: "'k fragment_system \<Rightarrow> nat" where
  "held_bytes y = sum_list (map (\<lambda>r. total_bytes (fr_assemblies r)) (fy_members y))"

definition system_inv :: "global_budget \<Rightarrow> 'k fragment_system \<Rightarrow> bool" where
  "system_inv l y \<longleftrightarrow>
     (\<forall>r \<in> set (fy_members y). member_inv r) \<and>
     gb_max_inflight_datagrams (fy_budget y) = gb_max_inflight_datagrams l \<and>
     gb_max_fragments (fy_budget y) = gb_max_fragments l \<and>
     gb_max_bytes (fy_budget y) = gb_max_bytes l \<and>
     gb_inflight_datagrams (fy_budget y) = held_datagrams y \<and>
     gb_buffered_fragments (fy_budget y) = held_fragments y \<and>
     gb_buffered_bytes (fy_budget y) = held_bytes y \<and>
     held_datagrams y \<le> gb_max_inflight_datagrams l \<and> held_fragments y \<le> gb_max_fragments l \<and>
     held_bytes y \<le> gb_max_bytes l \<and>
     gb_max_inflight_datagrams l \<le> usize_max \<and> gb_max_fragments l \<le> usize_max \<and> gb_max_bytes l \<le> usize_max"

lemma sum_list_split_nth:
  fixes f :: "'a \<Rightarrow> nat"
  assumes "i < length xs"
  shows "sum_list (map f xs) = f (xs ! i) + sum_list (map f (take i xs @ drop (Suc i) xs))"
    and "sum_list (map f (xs[i := x])) = f x + sum_list (map f (take i xs @ drop (Suc i) xs))"
proof -
  have "xs = take i xs @ xs ! i # drop (Suc i) xs" using assms by (rule id_take_nth_drop)
  then have "sum_list (map f xs) = sum_list (map f (take i xs @ xs ! i # drop (Suc i) xs))" by simp
  then show "sum_list (map f xs) = f (xs ! i) + sum_list (map f (take i xs @ drop (Suc i) xs))" by simp
  show "sum_list (map f (xs[i := x])) = f x + sum_list (map f (take i xs @ drop (Suc i) xs))"
    using assms by (simp add: upd_conv_take_nth_drop)
qed

text \<open>Seen from one member, the rest of the system is the constant part of the budget.\<close>

lemma system_member:
  assumes inv: "system_inv l y" and i: "i < length (fy_members y)"
  obtains X Y Z where "member_inv (fy_members y ! i)" and "covers l (fy_budget y) (fy_members y ! i) X Y Z"
    and "\<And>r b. member_inv r \<Longrightarrow> covers l b r X Y Z \<Longrightarrow>
      system_inv l (y\<lparr>fy_budget := b, fy_members := (fy_members y)[i := r]\<rparr>)"
    and "\<And>b. b = fy_budget y\<lparr>gb_inflight_datagrams := X, gb_buffered_fragments := Y, gb_buffered_bytes := Z\<rparr> \<Longrightarrow>
      system_inv l (y\<lparr>fy_budget := b, fy_members := take i (fy_members y) @ drop (Suc i) (fy_members y)\<rparr>)"
proof -
  let ?rest = "take i (fy_members y) @ drop (Suc i) (fy_members y)" and ?r = "fy_members y ! i"
  let ?X = "sum_list (map (\<lambda>r. length (fr_assemblies r)) ?rest)"
  let ?Y = "sum_list (map (\<lambda>r. total_fragments (fr_assemblies r)) ?rest)"
  let ?Z = "sum_list (map (\<lambda>r. total_bytes (fr_assemblies r)) ?rest)"
  have m: "member_inv ?r" using inv i by (simp add: system_inv_def)
  note split = sum_list_split_nth [OF i]
  show thesis
  proof (rule that [of ?X ?Y ?Z])
    show "member_inv ?r" by (rule m)
    show "covers l (fy_budget y) ?r ?X ?Y ?Z"
      using inv member_invD(4,5) [OF m] split(1)
      by (simp add: covers_def system_inv_def held_datagrams_def held_fragments_def held_bytes_def)
    show "system_inv l (y\<lparr>fy_budget := b, fy_members := (fy_members y)[i := r]\<rparr>)"
      if r: "member_inv r" and cov: "covers l b r ?X ?Y ?Z" for r b
      using inv cov member_invD(4,5) [OF r] split(2) r set_update_subset_insert [of "fy_members y" i r]
      by (auto simp: covers_def system_inv_def held_datagrams_def held_fragments_def held_bytes_def)
    show "system_inv l (y\<lparr>fy_budget := b, fy_members := ?rest\<rparr>)"
      if "b = fy_budget y\<lparr>gb_inflight_datagrams := ?X, gb_buffered_fragments := ?Y, gb_buffered_bytes := ?Z\<rparr>" for b
    proof -
      have "set ?rest \<subseteq> set (fy_members y)" using set_take_subset set_drop_subset by fastforce
      with inv split(1) that show ?thesis
        by (auto simp: system_inv_def held_datagrams_def held_fragments_def held_bytes_def)
    qed
  qed
qed

lemma new_member_inv:
  assumes "new_with_global_budget config b = Ok (r :: 'k fragment_reassembler)"
  shows "member_inv r \<and> fr_assemblies r = []"
proof -
  have "validate_config config = Ok ()" and r: "r = \<lparr>fr_config = config, fr_assemblies = [], fr_sessions = [],
      fr_local_fragments = 0, fr_local_bytes = 0\<rparr>"
    using assms by (auto simp: new_with_global_budget_def and_then_ok_iff split: if_splits)
  then show ?thesis by (simp add: member_inv_def total_fragments_def total_bytes_def of_session_def)
qed

lemma system_member_step:
  assumes inv: "system_inv l y" and i: "i < length (fy_members y)"
    and op: "\<And>X Y Z b r. member_inv r \<Longrightarrow> covers l b r X Y Z \<Longrightarrow>
      \<exists>r' b' x. f r b = (r', b', x) \<and> member_inv r' \<and> covers l b' r' X Y Z"
  shows "\<exists>r' b' x. f (fy_members y ! i) (fy_budget y) = (r', b', x) \<and>
    system_inv l (y\<lparr>fy_budget := b', fy_members := (fy_members y)[i := r']\<rparr>)"
proof -
  from system_member [OF inv i] obtain X Y Z where m: "member_inv (fy_members y ! i)"
    "covers l (fy_budget y) (fy_members y ! i) X Y Z"
    and put: "\<And>r b. member_inv r \<Longrightarrow> covers l b r X Y Z \<Longrightarrow>
      system_inv l (y\<lparr>fy_budget := b, fy_members := (fy_members y)[i := r]\<rparr>)" by metis
  from op [OF m] put show ?thesis by blast
qed

lemma fragment_step_safe:
  assumes inv: "system_inv l y"
  shows "\<exists>y' x. fragment_step op y = Some (y', x) \<and> system_inv l y'"
proof (cases op)
  case (OpNew config)
  show ?thesis
  proof (cases "new_with_global_budget config (fy_budget y) :: _ + 'a fragment_reassembler")
    case (Inr r)
    from new_member_inv [OF Inr] inv OpNew Inr show ?thesis
      by (auto simp: system_inv_def held_datagrams_def held_fragments_def held_bytes_def
          total_fragments_def total_bytes_def)
  qed (use inv OpNew in simp)
next
  case (OpPush i session f now)
  have "\<exists>r' b' x. the (fragment_push session f now r b) = (r', b', x) \<and> member_inv r' \<and> covers l b' r' X Y Z"
    if "member_inv r" "covers l b r X Y Z" for X Y Z b r
    using fragment_push_spec [OF that, of session f now] by (metis option.sel)
  moreover have "fragment_push session f now (fy_members y ! i) (fy_budget y) \<noteq> None" if "i < length (fy_members y)"
    using system_member [OF inv that] fragment_push_spec [of "fy_members y ! i" l "fy_budget y"]
    by (metis option.discI)
  ultimately show ?thesis
    using inv OpPush system_member_step [OF inv, of i "\<lambda>r b. the (fragment_push session f now r b)"]
    by (cases "i < length (fy_members y)") auto
next
  case (OpExpire i now)
  have "\<exists>r' b' x. fragment_expire now r b = (r', b', x) \<and> member_inv r' \<and> covers l b' r' X Y Z"
    if "member_inv r" "covers l b r X Y Z" for X Y Z b and r :: "'a fragment_reassembler"
    using remove_assemblies_spec [OF that] unfolding fragment_expire_def by blast
  from system_member_step [OF inv, of i "fragment_expire now", OF _ this] inv OpExpire show ?thesis
    by (cases "i < length (fy_members y)") auto
next
  case (OpDiscard i session)
  have "\<exists>r' b' x. fragment_discard_session session r b = (r', b', x) \<and> member_inv r' \<and> covers l b' r' X Y Z"
    if "member_inv r" "covers l b r X Y Z" for X Y Z b r
    using remove_assemblies_spec [OF that] unfolding fragment_discard_session_def by blast
  from system_member_step [OF inv, of i "fragment_discard_session session", OF _ this] inv OpDiscard show ?thesis
    by (cases "i < length (fy_members y)") auto
next
  case (OpDrop i)
  show ?thesis
  proof (cases "i < length (fy_members y)")
    case True
    from system_member [OF inv True] obtain X Y Z where m: "member_inv (fy_members y ! i)"
      "covers l (fy_budget y) (fy_members y ! i) X Y Z"
      and cut: "\<And>b. b = fy_budget y\<lparr>gb_inflight_datagrams := X, gb_buffered_fragments := Y, gb_buffered_bytes := Z\<rparr> \<Longrightarrow>
        system_inv l (y\<lparr>fy_budget := b, fy_members := take i (fy_members y) @ drop (Suc i) (fy_members y)\<rparr>)"
      by metis
    have "drop_reassembler (fy_members y ! i) (fy_budget y) =
        fy_budget y\<lparr>gb_inflight_datagrams := X, gb_buffered_fragments := Y, gb_buffered_bytes := Z\<rparr>"
      using m(2) by (simp add: drop_reassembler_spec [OF m(1)] covers_def)
    with cut True OpDrop show ?thesis by simp
  qed (use inv OpDrop in simp)
qed

interpretation fragment_machine: guarded_machine "system_inv l" fragment_step for l
  by unfold_locales (rule fragment_step_safe)

text \<open>
  C8. However the tasks of the process create, use, expire, close and drop SOCKS5 fragment
  reassemblers over one shared budget, no operation panics, the contiguity loop always ends, and
  the three global counters are exactly the datagrams, fragments and bytes the living
  reassemblers hold, within the budget's limits. In particular nothing is leaked: when every
  reassembler has been dropped the counters are back at zero.
\<close>

theorem socks5_budget_exact:
  assumes "fc_max_inflight_global c \<le> usize_max" and "fc_max_fragments_global c \<le> usize_max"
    and "fc_max_bytes_global c \<le> usize_max"
  shows "\<exists>y outs. run_machine fragment_step ops \<lparr>fy_budget = budget_from_config c, fy_members = []\<rparr> = Some (y, outs) \<and>
    length outs = length ops \<and>
    gb_inflight_datagrams (fy_budget y) = held_datagrams y \<and> held_datagrams y \<le> fc_max_inflight_global c \<and>
    gb_buffered_fragments (fy_budget y) = held_fragments y \<and> held_fragments y \<le> fc_max_fragments_global c \<and>
    gb_buffered_bytes (fy_budget y) = held_bytes y \<and> held_bytes y \<le> fc_max_bytes_global c"
proof -
  have "system_inv (budget_from_config c) \<lparr>fy_budget = budget_from_config c, fy_members = []\<rparr>"
    using assms by (simp add: system_inv_def budget_from_config_def held_datagrams_def held_fragments_def
        held_bytes_def)
  from fragment_machine.run_safe [OF this, of ops] show ?thesis
    by (auto simp: system_inv_def budget_from_config_def)
qed

definition sample_socks_fragment :: "u8 \<Rightarrow> bool \<Rightarrow> bytes \<Rightarrow> socks5_udp_fragment" where
  "sample_socks_fragment i fin x =
     \<lparr>sf_sequence = i, sf_final_fragment = fin, sf_target = Ip (V4 0x08080808), sf_port = 53, sf_payload = x\<rparr>"

theorem socks5_budget_exact_witness:
  "\<exists>y outs. run_machine fragment_step
     [OpNew default_fragment_config, OpPush 0 (7::nat) (sample_socks_fragment 1 False [1]) 0, OpDrop 0]
     \<lparr>fy_budget = budget_from_config default_fragment_config, fy_members = []\<rparr> = Some (y, outs) \<and>
     length outs = 3 \<and> gb_buffered_bytes (fy_budget y) = held_bytes y"
  using socks5_budget_exact [of default_fragment_config
      "[OpNew default_fragment_config, OpPush 0 (7::nat) (sample_socks_fragment 1 False [1]) 0, OpDrop 0]"]
  by (auto simp: default_fragment_config_def usize_max_def)

end
