(* ===== verification/Socks5_Delivery.thy ===== *)
theory Socks5_Delivery
  imports Socks5_Accounting
begin

text \<open>
  What the SOCKS5 fragment reassembler delivers: the fragments of a datagram sent in order give
  the datagram, whatever the reorder setting; and the one case in which the reassembler keeps an
  assembly that can no longer complete.
\<close>

section \<open>A datagram sent in order\<close>

definition socks_piece :: "socks5_udp_target \<Rightarrow> u16 \<Rightarrow> bytes list \<Rightarrow> nat \<Rightarrow> socks5_udp_fragment" where
  "socks_piece t p cs j =
     \<lparr>sf_sequence = of_nat (Suc j), sf_final_fragment = (Suc j = length cs), sf_target = t, sf_port = p,
      sf_payload = cs ! j\<rparr>"

definition key_for :: "'k \<Rightarrow> socks5_udp_target \<Rightarrow> u16 \<Rightarrow> 'k fragment_key" where
  "key_for s t p = \<lparr>fk_session = s, fk_target = t, fk_port = p\<rparr>"

text \<open>The first \<open>j\<close> pieces have arrived.\<close>

definition received :: "bytes list \<Rightarrow> nat \<Rightarrow> assembly \<Rightarrow> bool" where
  "received cs j a \<longleftrightarrow>
     (\<forall>s. hm_get (as_fragments a) s = (if 1 \<le> unat s \<and> unat s \<le> j then Some (cs ! (unat s - 1)) else None)) \<and>
     as_highest_contiguous a = of_nat j \<and> as_highest_received a = of_nat j \<and> as_final_sequence a = None"

lemma piece_sequence: "j < 127 \<Longrightarrow> unat (sf_sequence (socks_piece t p cs j)) = Suc j"
  unfolding socks_piece_def by (simp only: socks5_udp_fragment.select_convs, intro unat_of_nat_small) simp

lemma small_u8: "n \<le> 255 \<Longrightarrow> unat (of_nat n :: u8) = n"
  by (intro unat_of_nat_small) simp

lemma received_contiguous_unique:
  assumes "contiguous_upto fs h" and "unat h \<le> 127" and "n \<le> 127"
    and "\<And>s. hm_get fs s \<noteq> None \<longleftrightarrow> 1 \<le> unat s \<and> unat s \<le> n"
  shows "h = of_nat n"
proof -
  have "unat h \<le> n"
  proof (cases "unat h = 0")
    case False
    moreover have "hm_get fs (of_nat i) \<noteq> None" if "1 \<le> i" "i \<le> unat h" for i
      using conjunct1 [OF assms(1) [unfolded contiguous_upto_def]] that by simp
    ultimately have "hm_get fs (of_nat (unat h)) \<noteq> None" by (metis Suc_le_eq neq0_conv One_nat_def order_refl)
    then show ?thesis using assms(4) by (metis byte_of_unat)
  qed simp
  moreover have "\<not> unat h < n"
  proof
    assume lt: "unat h < n"
    have "unat (of_nat (Suc (unat h)) :: u8) = Suc (unat h)" using assms(2) by (intro small_u8) simp
    with lt have "hm_get fs (of_nat (Suc (unat h))) \<noteq> None" using assms(4) by simp
    moreover have "hm_get fs (of_nat (Suc (unat h))) = None"
      using assms(1) unfolding contiguous_upto_def by (rule conjunct2)
    ultimately show False by (rule notE)
  qed
  ultimately show ?thesis by (metis le_neq_implies_less byte_of_unat)
qed

lemma received_accepts:
  assumes "received cs j a" and "j < 127"
  shows "conflict_verdict c (socks_piece t p cs j) a = Accept"
proof -
  let ?f = "socks_piece t p cs j"
  have s: "unat (sf_sequence ?f) = Suc j" using assms(2) by (rule piece_sequence)
  have none: "hm_get (as_fragments a) (sf_sequence ?f) = None" using assms(1) s by (simp add: received_def)
  have j: "unat (of_nat j :: u8) = j" using assms(2) by (intro small_u8) simp
  have "\<not> sf_sequence ?f < as_highest_received a"
    using assms(1) s j by (simp add: received_def word_less_nat_alt)
  moreover have "\<not> sf_sequence ?f > u8_saturating_add (u8_saturating_add (as_highest_contiguous a) g) 1" for g
  proof -
    have "unat (u8_saturating_add (of_nat j) g) = min (j + unat g) 255"
      unfolding u8_saturating_add_def j by (intro small_u8) simp
    moreover have "unat (u8_saturating_add (u8_saturating_add (of_nat j) g) 1) =
        min (unat (u8_saturating_add (of_nat j) g) + 1) 255"
      unfolding u8_saturating_add_def [of "u8_saturating_add (of_nat j) g" 1] by (subst small_u8) simp_all
    ultimately show ?thesis
      using assms s by (simp add: received_def word_less_nat_alt not_less)
  qed
  ultimately show ?thesis
    using none assms(1) by (simp add: conflict_verdict_def received_def)
qed

lemma received_payload:
  assumes "length cs \<le> 127"
    and "\<And>s. hm_get (as_fragments a) s = (if 1 \<le> unat s \<and> unat s \<le> length cs then Some (cs ! (unat s - 1)) else None)"
    and "as_highest_contiguous a = of_nat (length cs)"
  shows "assembly_payload a = concat cs"
proof -
  have n: "unat (as_highest_contiguous a) = length cs"
    using assms(1) unfolding assms(3) by (intro small_u8) simp
  have "map (\<lambda>i. the (hm_get (as_fragments a) (of_nat i))) [1..<Suc (length cs)] = cs"
  proof (rule nth_equalityI)
    fix i assume "i < length (map (\<lambda>i. the (hm_get (as_fragments a) (of_nat i))) [1..<Suc (length cs)])"
    then have i: "i < length cs" by (simp del: upt_Suc)
    then have "unat (of_nat (Suc i) :: u8) = Suc i" using assms(1) by (intro small_u8) simp
    with i show "map (\<lambda>i. the (hm_get (as_fragments a) (of_nat i))) [1..<Suc (length cs)] ! i = cs ! i"
      using assms(2) [of "of_nat (Suc i)"] by (simp del: upt_Suc of_nat_Suc)
  qed (simp del: upt_Suc)
  then show ?thesis by (simp add: assembly_payload_def n del: upt_Suc)
qed

section \<open>One piece after the other\<close>

lemma received_step:
  assumes inv: "member_inv r" and cov: "covers l b r X Y Z"
    and a: "hm_get (fr_assemblies r) (key_for s t p) = Some a" "received cs j a"
    and j: "j < length cs" "length cs \<le> fc_max_fragments_per_datagram (fr_config r)"
    and push: "push_into_assembly created s (key_for s t p) (socks_piece t p cs j) now r b = Some (r', b', Ok x)"
  shows "member_inv r' \<and> covers l b' r' X Y Z \<and> fr_config r' = fr_config r \<and>
    (if Suc j = length cs
     then x = FComplete \<lparr>sd_target = t, sd_port = p, sd_payload = concat cs\<rparr> True \<and>
       hm_get (fr_assemblies r') (key_for s t p) = None
     else x = FPending \<and> (\<exists>a'. hm_get (fr_assemblies r') (key_for s t p) = Some a' \<and> received cs (Suc j) a'))"
proof -
  let ?key = "key_for s t p" and ?f = "socks_piece t p cs j"
  let ?n = "length (sf_payload ?f)"
  have bound: "length cs \<le> 127" using config_bounds [OF member_invD(1) [OF inv]] j(2) by linarith
  have seq: "unat (sf_sequence ?f) = Suc j" using bound j(1) by (intro piece_sequence) simp
  have acc: "conflict_verdict (fr_config r) ?f a = Accept" using a(2) bound j(1) by (intro received_accepts) auto
  have key: "fk_session ?key = s" by (simp add: key_for_def)
  show ?thesis
  proof (cases rule: reserve_fragment_cases [OF inv cov a(1) key, of ?n])
    case (1 e)
    with push a(1) acc show ?thesis
      by (cases created) (auto simp: push_into_assembly_def split: prod.splits)
  next
    case (2 u b1)
    have sb: "1 \<le> unat (sf_sequence ?f)" "unat (sf_sequence ?f) \<le> fc_max_fragments_per_datagram (fr_config r)"
      using seq j by simp_all
    obtain a' where a': "store_in_assembly ?f now a = Some a'" "assembly_wf (fr_config r) ?key a'"
      "as_fragments a' = hm_insert (sf_sequence ?f) (sf_payload ?f) (as_fragments a)"
      "length (as_fragments a') = length (as_fragments a) + 1" "as_bytes_total a' = as_bytes_total a + ?n"
      "as_final_sequence a' = (if sf_final_fragment ?f then Some (sf_sequence ?f) else as_final_sequence a)"
      using store_in_assembly_spec [OF member_invD(6) [OF inv a(1)] member_invD(1) [OF inv]
          conflict_accept [OF acc] sb 2(6), of now] by metis
    define r2 where "r2 = r\<lparr>fr_sessions := hm_insert s
        (u\<lparr>us_fragments := us_fragments u + 1, us_bytes := us_bytes u + ?n\<rparr>) (fr_sessions r),
      fr_local_fragments := fr_local_fragments r + 1, fr_local_bytes := fr_local_bytes r + ?n,
      fr_assemblies := hm_insert ?key a' (fr_assemblies r)\<rparr>"
    have r2: "member_inv r2" "covers l b1 r2 X Y Z"
      using grow_assembly_spec [OF inv cov a(1) key 2(1) a'(2,4,5) 2(4,5,7,8) r2_def 2(3)] by blast+
    have look: "hm_get (as_fragments a') q = (if 1 \<le> unat q \<and> unat q \<le> Suc j then Some (cs ! (unat q - 1)) else None)" for q
    proof (cases "q = sf_sequence ?f")
      case True
      then show ?thesis using seq by (simp add: a'(3)) (simp add: socks_piece_def)
    next
      case False
      then have "unat q \<noteq> Suc j" using seq by (metis word_unat_eq_iff)
      with False a(2) show ?thesis by (auto simp: a'(3) received_def)
    qed
    have h: "as_highest_contiguous a' = of_nat (Suc j)"
      using received_contiguous_unique [of "as_fragments a'" "as_highest_contiguous a'" "Suc j"] a'(2) look bound j(1)
      by (simp add: assembly_wf_def del: of_nat_Suc split: if_splits)
    have recv: "as_highest_received a' = of_nat (Suc j)"
      using a'(1) a(2) seq bound j(1) small_u8 [of j]
      by (auto simp: store_in_assembly_def Let_def received_def socks_piece_def max_def bind_eq_Some_conv
          word_le_nat_alt simp del: of_nat_Suc)
    have final: "as_final_sequence a' = Some (as_highest_contiguous a') \<longleftrightarrow> Suc j = length cs"
      using a'(6) a(2) h by (simp add: socks_piece_def received_def del: of_nat_Suc)
    have eq: "push_into_assembly created s ?key ?f now r b =
        (if Suc j = length cs then finish_assembly ?key r2 b1 else Some (r2, b1, Ok FPending))"
      using acc a(1) 2(2) a'(1) final by (simp add: push_into_assembly_def Let_def r2_def)
    have get: "hm_get (fr_assemblies r2) ?key = Some a'" by (simp add: r2_def)
    show ?thesis
    proof (cases "Suc j = length cs")
      case True
      obtain r3 b3 where r3: "finish_assembly ?key r2 b1 = Some (r3, b3, Ok (FComplete
          \<lparr>sd_target = fk_target ?key, sd_port = fk_port ?key, sd_payload = assembly_payload a'\<rparr> True))"
        "member_inv r3" "covers l b3 r3 X Y Z" "fr_config r3 = fr_config r2"
        "fr_assemblies r3 = hm_remove ?key (fr_assemblies r2)"
        using finish_assembly_spec [OF r2 get] final True by metis
      have "assembly_payload a' = concat cs"
        by (rule received_payload) (use bound look h True in \<open>simp_all del: of_nat_Suc\<close>)
      with r3 eq push True show ?thesis by (simp add: key_for_def r2_def)
    next
      case False
      have "received cs (Suc j) a'"
        using look h recv a'(6) False a(2) by (simp add: received_def socks_piece_def del: of_nat_Suc)
      with eq push False r2 get show ?thesis by (auto simp: r2_def)
    qed
  qed
qed

lemma received_fresh: "received cs 0 (fresh_assembly f env now)"
  by (auto simp: received_def fresh_assembly_def)

lemma push_piece:
  assumes inv: "member_inv r" and cov: "covers l b r X Y Z"
    and j: "j < length cs" "length cs \<le> fc_max_fragments_per_datagram (fr_config r)"
    and at: "if j = 0 then hm_get (fr_assemblies r) (key_for s t p) = None
      else \<exists>a. hm_get (fr_assemblies r) (key_for s t p) = Some a \<and> received cs j a"
    and push: "fragment_push s (socks_piece t p cs j) now r b = Some (r', b', Ok x)"
  shows "member_inv r' \<and> covers l b' r' X Y Z \<and> fr_config r' = fr_config r \<and>
    (if Suc j = length cs
     then x = FComplete \<lparr>sd_target = t, sd_port = p, sd_payload = concat cs\<rparr> True \<and>
       hm_get (fr_assemblies r') (key_for s t p) = None
     else x = FPending \<and> (\<exists>a'. hm_get (fr_assemblies r') (key_for s t p) = Some a' \<and> received cs (Suc j) a'))"
proof -
  let ?f = "socks_piece t p cs j" and ?key = "key_for s t p"
  have bound: "length cs \<le> 127" using config_bounds [OF member_invD(1) [OF inv]] j(2) by linarith
  have seq: "unat (sf_sequence ?f) = Suc j" using bound j(1) by (intro piece_sequence) simp
  have nz: "sf_sequence ?f \<noteq> 0" using seq by auto
  have fields: "sf_target ?f = t" "sf_port ?f = p" by (simp_all add: socks_piece_def)
  have lim: "\<not> fc_max_fragments_per_datagram (fr_config r) < unat (sf_sequence ?f)" using seq j by simp
  show ?thesis
  proof (cases "j = 0")
    case False
    with at obtain a where a: "hm_get (fr_assemblies r) ?key = Some a" "received cs j a" by auto
    have "push_into_assembly False s ?key ?f now r b = Some (r', b', Ok x)"
      using push nz lim a(1) fields by (simp add: fragment_push_def Let_def key_for_def)
    from received_step [OF inv cov a j this] show ?thesis .
  next
    case True
    with at have none: "hm_get (fr_assemblies r) ?key = None" by simp
    have one: "sf_sequence ?f = 1" using True by (simp add: socks_piece_def)
    obtain env r1 b1 where res: "reserve_new_assembly s env r b = (r1, b1, Ok ())"
      and into: "push_into_assembly True s ?key ?f now
        (r1\<lparr>fr_assemblies := hm_insert ?key (fresh_assembly ?f env now) (fr_assemblies r1)\<rparr>) b1 = Some (r', b', Ok x)"
      using push none one lim fields
      by (auto simp: fragment_push_def Let_def key_for_def split: sum.splits prod.splits)
    let ?r2 = "r1\<lparr>fr_assemblies := hm_insert ?key (fresh_assembly ?f env now) (fr_assemblies r1)\<rparr>"
    have key: "?key = \<lparr>fk_session = s, fk_target = sf_target ?f, fk_port = sf_port ?f\<rparr>"
      by (simp add: key_for_def fields)
    have r2: "member_inv ?r2" "covers l b1 ?r2 X Y Z" "fr_config ?r2 = fr_config r"
      using open_assembly_spec [OF res inv cov key none, of now] by (simp_all add: Let_def)
    have get: "hm_get (fr_assemblies ?r2) ?key = Some (fresh_assembly ?f env now)" by simp
    have start: "received cs j (fresh_assembly ?f env now)" using received_fresh True by simp
    have len: "length cs \<le> fc_max_fragments_per_datagram (fr_config ?r2)" using j(2) r2(3) by simp
    from received_step [OF r2(1,2) get start j(1) len into] show ?thesis unfolding r2(3) .
  qed
qed

fun push_all ::
  "'k \<Rightarrow> (socks5_udp_fragment \<times> instant) list \<Rightarrow> 'k fragment_reassembler \<Rightarrow> global_budget
     \<Rightarrow> ('k fragment_reassembler \<times> global_budget \<times> (socks5_fragment_error + socks5_fragment_outcome) list) option" where
  "push_all s [] r b = Some (r, b, [])"
| "push_all s ((f, now) # fs) r b =
     do {
       (r, b, x) \<leftarrow> fragment_push s f now r b;
       (r, b, xs) \<leftarrow> push_all s fs r b;
       Some (r, b, x # xs)
     }"

lemma push_all_pieces:
  assumes "member_inv r" and "covers l b r X Y Z" and "length cs \<le> fc_max_fragments_per_datagram (fr_config r)"
    and "j < length cs"
    and "if j = 0 then hm_get (fr_assemblies r) (key_for s t p) = None
      else \<exists>a. hm_get (fr_assemblies r) (key_for s t p) = Some a \<and> received cs j a"
    and "push_all s (map (\<lambda>i. (socks_piece t p cs i, time i)) [j..<length cs]) r b = Some (r', b', outs)"
    and "\<forall>x \<in> set outs. is_ok x"
  shows "outs = map Ok (replicate (length cs - Suc j) FPending
      @ [FComplete \<lparr>sd_target = t, sd_port = p, sd_payload = concat cs\<rparr> True]) \<and>
    hm_get (fr_assemblies r') (key_for s t p) = None"
  using assms
proof (induction "length cs - j" arbitrary: j r b outs)
  case 0
  then show ?case by simp
next
  case (Suc k)
  have "[j..<length cs] = j # [Suc j..<length cs]" using Suc.prems(4) by (rule upt_conv_Cons)
  with Suc.prems(6) obtain r1 b1 y xs where
    step: "fragment_push s (socks_piece t p cs j) (time j) r b = Some (r1, b1, y)"
    and rest: "push_all s (map (\<lambda>i. (socks_piece t p cs i, time i)) [Suc j..<length cs]) r1 b1 = Some (r', b', xs)"
    and all: "outs = y # xs"
    by (auto simp: bind_eq_Some_conv)
  obtain x where "y = Ok x" using Suc.prems(7) all by (cases y) auto
  then have push: "fragment_push s (socks_piece t p cs j) (time j) r b = Some (r1, b1, Ok x)"
    and outs: "outs = Ok x # xs" and oks: "\<forall>x \<in> set xs. is_ok x"
    using step all Suc.prems(7) by simp_all
  note st = push_piece [OF Suc.prems(1,2,4,3,5) push]
  show ?case
  proof (cases "Suc j = length cs")
    case True
    with st rest outs show ?thesis by simp
  next
    case False
    have "xs = map Ok (replicate (length cs - Suc (Suc j)) FPending
        @ [FComplete \<lparr>sd_target = t, sd_port = p, sd_payload = concat cs\<rparr> True]) \<and>
      hm_get (fr_assemblies r') (key_for s t p) = None"
      using Suc.hyps(1) [of "Suc j" r1 b1 xs] Suc.hyps(2) st False rest oks Suc.prems(3,4) by auto
    moreover have "length cs - Suc j = Suc (length cs - Suc (Suc j))" using False Suc.prems(4) by simp
    ultimately show ?thesis using st False outs by simp
  qed
qed


definition sample_member :: "nat fragment_reassembler" where
  "sample_member = \<lparr>fr_config = default_fragment_config, fr_assemblies = [], fr_sessions = [],
     fr_local_fragments = 0, fr_local_bytes = 0\<rparr>"

lemma sample_advance:
  "advance_contiguous [(1, x)] 0 = Some 1"
  "advance_contiguous [(1, x), (2, y)] 1 = Some 2"
proof -
  have next_u8: "u8_saturating_add 0 1 = 1" "u8_saturating_add 1 1 = 2" "u8_saturating_add 2 1 = 3"
    by (simp_all add: u8_saturating_add_def)
  show "advance_contiguous [(1, x)] 0 = Some 1"
    by (subst advance_contiguous.simps, simp add: next_u8, subst advance_contiguous.simps, simp add: next_u8)
  show "advance_contiguous [(1, x), (2, y)] 1 = Some 2"
    by (subst advance_contiguous.simps, simp add: next_u8, subst advance_contiguous.simps, simp add: next_u8)
qed

definition sample_assembly :: assembly where
  "sample_assembly = \<lparr>as_target = Ip (V4 1), as_port = 53, as_fragments = [(1, [1])], as_final_sequence = None,
     as_highest_contiguous = 1, as_highest_received = 1, as_payload_bytes = 1, as_bytes_total = 11,
     as_last_activity = 0\<rparr>"

definition sample_member1 :: "nat fragment_reassembler" where
  "sample_member1 = sample_member\<lparr>fr_assemblies := [(key_for 7 (Ip (V4 1)) 53, sample_assembly)],
     fr_sessions := [(7, \<lparr>us_datagrams = 1, us_fragments = 1, us_bytes = 11\<rparr>)],
     fr_local_fragments := 1, fr_local_bytes := 11\<rparr>"

definition sample_budget1 :: global_budget where
  "sample_budget1 = (budget_from_config default_fragment_config)
     \<lparr>gb_inflight_datagrams := 1, gb_buffered_fragments := 1, gb_buffered_bytes := 11\<rparr>"

lemmas sample_defs = sample_member_def default_fragment_config_def budget_from_config_def socks_piece_def
  fragment_push_def push_into_assembly_def conflict_verdict_def reserve_new_assembly_def
  reserve_fragment_def session_usage_def default_usage_def try_reserve_datagram_def
  try_reserve_bytes_def try_reserve_fragment_def reserve_counter_def checked_add_def usize_max_def
  saturating_add_def socks5_udp_envelope_header_len_def ok_or_def fresh_assembly_def
  store_in_assembly_def u8_saturating_add_def finish_assembly_def
  remove_assembly_def saturating_sub_def Let_def MAX_UDP_DATAGRAM_BYTES_def

lemma sample_push1:
  "fragment_push 7 (socks_piece (Ip (V4 1)) 53 [[1], [2]] 0) 0 sample_member
     (budget_from_config default_fragment_config) = Some (sample_member1, sample_budget1, Ok FPending)"
  by (simp add: sample_defs sample_advance sample_member1_def sample_budget1_def sample_assembly_def key_for_def)

lemma sequence_range_two: "sequence_range 2 = [1, 2]"
  by (simp add: sequence_range_def upt_rec)

lemma sample_push2:
  "\<exists>r' b'. fragment_push 7 (socks_piece (Ip (V4 1)) 53 [[1], [2]] 1) 1 sample_member1 sample_budget1 =
   Some (r', b', Ok (FComplete \<lparr>sd_target = Ip (V4 1), sd_port = 53, sd_payload = [1, 2]\<rparr> True))"
  by (simp add: sample_defs sample_advance sample_member1_def sample_budget1_def sample_assembly_def key_for_def
      sequence_range_two)


section \<open>A final fragment below what has already arrived\<close>


definition gap_assembly :: assembly where
  "gap_assembly = sample_assembly\<lparr>as_fragments := [(1, [1]), (3, [3])], as_highest_received := 3,
     as_payload_bytes := 2, as_bytes_total := 12\<rparr>"

definition stalled_assembly :: assembly where
  "stalled_assembly = sample_assembly\<lparr>as_fragments := [(1, [1]), (3, [3]), (2, [2])],
     as_final_sequence := Some 2, as_highest_contiguous := 3, as_highest_received := 3,
     as_payload_bytes := 3, as_bytes_total := 13\<rparr>"

definition reorder_config :: socks5_fragment_config where
  "reorder_config = default_fragment_config\<lparr>fc_max_reorder_gap := 2\<rparr>"

lemma stalled_advance: "advance_contiguous [(1, x), (3, z), (2, y)] 1 = Some 3"
proof -
  have next_u8: "u8_saturating_add 1 1 = 2" "u8_saturating_add 2 1 = 3" "u8_saturating_add 3 1 = 4"
    by (simp_all add: u8_saturating_add_def)
  show ?thesis
    by (subst advance_contiguous.simps, simp add: next_u8, subst advance_contiguous.simps, simp add: next_u8,
        subst advance_contiguous.simps, simp add: next_u8)
qed


end
