(* ===== verification/Rust_Net.thy ===== *)
theory Rust_Net
  imports Rust_Strings
begin

text \<open>
  Textual IP addresses as the Rust standard library parses them
  (\<open>Ipv4Addr::from_str\<close>, \<open>Ipv6Addr::from_str\<close>). A reader takes the remaining text and returns
  the value read with the text that is left, or \<open>None\<close> without consuming anything.
\<close>

type_synonym 'a reader = "str \<Rightarrow> ('a \<times> str) option"

definition hex_digit :: "nat \<Rightarrow> nat option" where
  "hex_digit c =
     (if 48 \<le> c \<and> c \<le> 57 then Some (c - 48)
      else if 97 \<le> c \<and> c \<le> 102 then Some (c - 87)
      else if 65 \<le> c \<and> c \<le> 70 then Some (c - 55) else None)"

definition digit_of :: "nat \<Rightarrow> nat \<Rightarrow> nat option" where
  "digit_of radix c = (case hex_digit c of Some d \<Rightarrow> if d < radix then Some d else None | None \<Rightarrow> None)"

text \<open>The digits at the front of the text, in order.\<close>

fun take_digits :: "nat \<Rightarrow> str \<Rightarrow> nat list \<times> str" where
  "take_digits radix [] = ([], [])"
| "take_digits radix (c # s) =
     (case digit_of radix c of
        Some d \<Rightarrow> (let (ds, r) = take_digits radix s in (d # ds, r))
      | None \<Rightarrow> ([], c # s))"

definition read_number :: "nat \<Rightarrow> nat \<Rightarrow> bool \<Rightarrow> nat \<Rightarrow> nat reader" where
  "read_number radix max_digits allow_zero_prefix mx s =
     (case take_digits radix s of (ds, r) \<Rightarrow>
        let v = foldl (\<lambda>acc d. acc * radix + d) 0 ds in
        if ds = [] \<or> length ds > max_digits \<or> v > mx then None
        else if \<not> allow_zero_prefix \<and> hd ds = 0 \<and> length ds > 1 then None
        else Some (v, r))"

definition read_given_char :: "nat \<Rightarrow> str \<Rightarrow> str option" where
  "read_given_char c s = (case s of x # r \<Rightarrow> if x = c then Some r else None | [] \<Rightarrow> None)"

definition read_separator :: "nat \<Rightarrow> nat \<Rightarrow> 'a reader \<Rightarrow> 'a reader" where
  "read_separator sep index inner s =
     (if index > 0 then (case read_given_char sep s of Some r \<Rightarrow> inner r | None \<Rightarrow> None) else inner s)"

fun read_octets :: "nat \<Rightarrow> nat \<Rightarrow> nat list reader" where
  "read_octets i 0 s = Some ([], s)"
| "read_octets i (Suc n) s =
     (case read_separator 46 i (read_number 10 3 False 255) s of
        Some (o1, r) \<Rightarrow> map_option (\<lambda>(os, r'). (o1 # os, r')) (read_octets (Suc i) n r)
      | None \<Rightarrow> None)"

definition read_ipv4_addr :: "u32 reader" where
  "read_ipv4_addr s =
     map_option (\<lambda>(os, r). (of_nat (foldl (\<lambda>acc b. acc * 256 + b) 0 os), r)) (read_octets 0 4 s)"

text \<open>
  \<open>read_groups\<close>: up to \<open>n\<close> sixteen-bit groups, the last two of which may be spelled as an IPv4
  address; the flag says whether they were.
\<close>

fun read_groups :: "nat \<Rightarrow> nat \<Rightarrow> str \<Rightarrow> nat list \<times> bool \<times> str" where
  "read_groups i 0 s = ([], False, s)"
| "read_groups i (Suc n) s =
     (case (if n > 0 then read_separator 58 i read_ipv4_addr s else None) of
        Some (v4, r) \<Rightarrow> ([unat v4 div 65536, unat v4 mod 65536], True, r)
      | None \<Rightarrow>
          (case read_separator 58 i (read_number 16 4 True 65535) s of
             Some (g, r) \<Rightarrow> (let (gs, b, r') = read_groups (Suc i) n r in (g # gs, b, r'))
           | None \<Rightarrow> ([], False, s)))"

definition groups_value :: "nat list \<Rightarrow> u128" where
  "groups_value gs = of_nat (foldl (\<lambda>acc g. acc * 65536 + g) 0 gs)"

definition read_ipv6_addr :: "u128 reader" where
  "read_ipv6_addr s =
     (case read_groups 0 8 s of (head, head_ipv4, r) \<Rightarrow>
        if length head = 8 then Some (groups_value head, r)
        else if head_ipv4 then None
        else case read_given_char 58 r of None \<Rightarrow> None | Some r1 \<Rightarrow>
          case read_given_char 58 r1 of None \<Rightarrow> None | Some r2 \<Rightarrow>
            case read_groups 0 (7 - length head) r2 of (tail, _, r3) \<Rightarrow>
              Some (groups_value (head @ replicate (8 - length head - length tail) 0 @ tail), r3))"

definition parse_ipv4 :: "str \<Rightarrow> u32 option" where
  "parse_ipv4 s =
     (if len s > 15 then None
      else case read_ipv4_addr s of Some (a, []) \<Rightarrow> Some a | _ \<Rightarrow> None)"

definition parse_ipv6 :: "str \<Rightarrow> u128 option" where
  "parse_ipv6 s = (case read_ipv6_addr s of Some (a, []) \<Rightarrow> Some a | _ \<Rightarrow> None)"

end
