(* ===== verification/Port_Mapping.thy ===== *)
theory Port_Mapping
  imports Rust_Strings
begin

text \<open>
  Port-group expressions (\<open>linklake-core/src/port_mapping.rs\<close>): comma-separated ports and closed
  ranges are expanded in order, the public and target sides are paired, and both sides are printed
  back in a normalised form. A \<open>u16\<close> port is kept as its value; the one arithmetic operation
  on it, \<open>saturating_add\<close>, is written out.
\<close>

section \<open>Definitions\<close>

type_synonym port = nat

definition u16_max :: nat where
  "u16_max = 65535"

definition u16_saturating_add :: "port \<Rightarrow> port \<Rightarrow> port" where
  "u16_saturating_add a b = min (a + b) u16_max"

definition MAX_PORT_MAPPINGS :: nat where
  "MAX_PORT_MAPPINGS = 256"

record port_pair =
  pp_public_port :: port
  pp_target_port :: port

record parsed_port_mappings =
  pm_public_ports :: str
  pm_target_ports :: str
  pm_pairs :: "port_pair list"

datatype port_mapping_error =
    MappingEmpty
  | MappingInvalidSyntax
  | MappingDescendingRange
  | MappingPortOutOfRange
  | MappingDuplicatePort
  | MappingTooManyPorts
  | MappingCountMismatch

definition mapping_parse_port :: "str \<Rightarrow> port_mapping_error + port" where
  "mapping_parse_port value =
     (if value = [] \<or> \<not> all_bytes byte_is_digit value then Err MappingInvalidSyntax
      else ok_or (parse_uint u16_max value) MappingPortOutOfRange)"

text \<open>One item of the list: its closed range, checked against the allowed one.\<close>

definition parse_item :: "port \<Rightarrow> port \<Rightarrow> str \<Rightarrow> port_mapping_error + (port \<times> port)" where
  "parse_item minimum maximum raw =
     (let item = trim raw in
      if item = [] then Err MappingInvalidSyntax
      else and_then
        (case map trim (split_on 45 item) of
           [p] \<Rightarrow> and_then (mapping_parse_port p) (\<lambda>p. Ok (p, p))
         | [a, b] \<Rightarrow>
             if a \<noteq> [] \<and> b \<noteq> []
             then and_then (mapping_parse_port a) (\<lambda>a. and_then (mapping_parse_port b) (\<lambda>b. Ok (a, b)))
             else Err MappingInvalidSyntax
         | _ \<Rightarrow> Err MappingInvalidSyntax)
        (\<lambda>(a, b).
           if a > b then Err MappingDescendingRange
           else if a < minimum \<or> b > maximum then Err MappingPortOutOfRange
           else Ok (a, b)))"

text \<open>The inner loop over a range and the outer loop over the items, with \<open>ports\<close> and \<open>seen\<close>.\<close>

fun add_ports ::
  "nat \<Rightarrow> port list \<Rightarrow> port list \<times> port set \<Rightarrow> port_mapping_error + (port list \<times> port set)" where
  "add_ports maximum_count [] (ports, seen) = Ok (ports, seen)"
| "add_ports maximum_count (p # ps) (ports, seen) =
     (if p \<in> seen then Err MappingDuplicatePort
      else if length (ports @ [p]) > maximum_count then Err MappingTooManyPorts
      else add_ports maximum_count ps (ports @ [p], insert p seen))"

fun parse_items ::
  "port \<Rightarrow> port \<Rightarrow> nat \<Rightarrow> str list \<Rightarrow> port list \<times> port set \<Rightarrow> port_mapping_error + port list" where
  "parse_items minimum maximum maximum_count [] (ports, seen) = Ok ports"
| "parse_items minimum maximum maximum_count (item # items) acc =
     and_then (parse_item minimum maximum item) (\<lambda>(a, b).
       and_then (add_ports maximum_count [a..<Suc b] acc) (\<lambda>acc'.
         parse_items minimum maximum maximum_count items acc'))"

definition parse_port_set :: "str \<Rightarrow> port \<Rightarrow> port \<Rightarrow> nat \<Rightarrow> port_mapping_error + port list" where
  "parse_port_set expression minimum maximum maximum_count =
     (if trim expression = [] then Err MappingEmpty
      else if minimum = 0 \<or> minimum > maximum \<or> maximum_count = 0 then Err MappingPortOutOfRange
      else parse_items minimum maximum maximum_count (split_on 44 expression) ([], {}))"

text \<open>
  \<open>normalize_port_set\<close>: the inner \<open>while\<close> extends a run of consecutive ports, the outer one starts
  the next run where the last one stopped. The index of the source is the list that remains.
\<close>

fun extend_run :: "port \<Rightarrow> port list \<Rightarrow> port \<times> port list" where
  "extend_run e [] = (e, [])"
| "extend_run e (p # ps) = (if p = u16_saturating_add e 1 then extend_run p ps else (e, p # ps))"

lemma extend_run_length: "length (snd (extend_run e ps)) \<le> length ps"
  by (induction ps arbitrary: e) (auto intro: le_SucI)

definition render_range :: "port \<Rightarrow> port \<Rightarrow> str" where
  "render_range a b =
     (if a = b then nat_to_string a else nat_to_string a @ [45] @ nat_to_string b)"

function port_runs :: "port list \<Rightarrow> str list" where
  "port_runs [] = []"
| "port_runs (p # ps) = render_range p (fst (extend_run p ps)) # port_runs (snd (extend_run p ps))"
  by pat_completeness auto
termination
  by (relation "measure length") (auto simp: le_imp_less_Suc extend_run_length)

definition normalize_port_set :: "port list \<Rightarrow> str" where
  "normalize_port_set ports = join [44] (port_runs ports)"

definition parse_port_mappings ::
  "str \<Rightarrow> str \<Rightarrow> port \<Rightarrow> port \<Rightarrow> nat \<Rightarrow> port_mapping_error + parsed_port_mappings" where
  "parse_port_mappings public_expression target_expression public_minimum public_maximum maximum_count =
     and_then (parse_port_set public_expression public_minimum public_maximum maximum_count) (\<lambda>public_ports.
     and_then (parse_port_set target_expression 1 u16_max maximum_count) (\<lambda>target_ports.
       if length public_ports \<noteq> length target_ports then Err MappingCountMismatch
       else Ok \<lparr> pm_public_ports = normalize_port_set public_ports,
                 pm_target_ports = normalize_port_set target_ports,
                 pm_pairs = map (\<lambda>(p, t). \<lparr> pp_public_port = p, pp_target_port = t \<rparr>)
                   (zip public_ports target_ports) \<rparr>))"

section \<open>What is accepted\<close>

definition port_list_ok :: "port \<Rightarrow> port \<Rightarrow> nat \<Rightarrow> port list \<Rightarrow> bool" where
  "port_list_ok lo hi n ps \<longleftrightarrow>
     distinct ps \<and> list_all (\<lambda>p. lo \<le> p \<and> p \<le> hi) ps \<and> length ps \<le> n"

lemma add_ports_ok:
  assumes "add_ports n ps (qs, S) = Ok (rs, T)" and "S = set qs" and "distinct qs" "length qs \<le> n"
  shows "rs = qs @ ps \<and> T = set rs \<and> distinct rs \<and> length rs \<le> n"
  using assms
  by (induction n ps "(qs, S)" arbitrary: qs S rule: add_ports.induct) (auto split: if_splits)

lemma add_ports_append:
  assumes "distinct (qs @ ps)" and "length (qs @ ps) \<le> n"
  shows "add_ports n ps (qs, set qs) = Ok (qs @ ps, set (qs @ ps))"
  using assms
proof (induction ps arbitrary: qs)
  case Nil
  then show ?case by simp
next
  case (Cons p ps)
  then have "add_ports n ps (qs @ [p], set (qs @ [p])) = Ok ((qs @ [p]) @ ps, set ((qs @ [p]) @ ps))"
    by (intro Cons.IH) auto
  with Cons.prems show ?case by auto
qed

lemma parse_item_ok: "parse_item lo hi s = Ok (a, b) \<Longrightarrow> lo \<le> a \<and> a \<le> b \<and> b \<le> hi"
  by (auto simp: parse_item_def Let_def and_then_ok_iff split: if_splits)

lemma parse_items_ok:
  assumes "parse_items lo hi n items (qs, set qs) = Ok ps" and "port_list_ok lo hi n qs"
  shows "port_list_ok lo hi n ps \<and> length qs + length items \<le> length ps"
  using assms
proof (induction items arbitrary: qs)
  case Nil
  then show ?case by simp
next
  case (Cons item items)
  from Cons.prems(1) obtain a b rs T where item: "parse_item lo hi item = Ok (a, b)"
    and add: "add_ports n [a..<Suc b] (qs, set qs) = Ok (rs, T)"
    and rest: "parse_items lo hi n items (rs, T) = Ok ps"
    by (auto simp: and_then_ok_iff)
  from Cons.prems(2) have qs: "distinct qs" "length qs \<le> n" by (simp_all add: port_list_ok_def)
  note add' = add_ports_ok [OF add refl qs]
  note bounds = parse_item_ok [OF item]
  have "list_all (\<lambda>p. lo \<le> p \<and> p \<le> hi) rs"
    using add' bounds Cons.prems(2) by (simp add: port_list_ok_def list_all_iff) auto
  then have "port_list_ok lo hi n rs" using add' unfolding port_list_ok_def by blast
  with Cons.IH [of rs] rest add' have "port_list_ok lo hi n ps" "length rs + length items \<le> length ps"
    by simp_all
  moreover have "length rs \<ge> Suc (length qs)" using add' bounds by (simp; arith)
  ultimately show ?case by simp
qed

lemma parse_port_set_ok:
  assumes "parse_port_set s lo hi n = Ok ps"
  shows "ps \<noteq> [] \<and> port_list_ok lo hi n ps \<and> 0 < lo"
proof -
  from assms have run: "parse_items lo hi n (split_on 44 s) ([], {}) = Ok ps" and lo: "0 < lo"
    by (auto simp: parse_port_set_def split: if_splits)
  have "port_list_ok lo hi n ps \<and> length (split_on 44 s) \<le> length ps"
    using parse_items_ok [of lo hi n "split_on 44 s" "[]" ps] run by (simp add: port_list_ok_def)
  moreover have "0 < length (split_on 44 s)" by (simp only: length_greater_0_conv split_on_not_Nil) simp
  ultimately show ?thesis using lo by auto
qed

section \<open>Printing and parsing back\<close>

lemma mapping_parse_port_to_string [simp]:
  "n \<le> u16_max \<Longrightarrow> mapping_parse_port (nat_to_string n) = Ok n"
  by (simp add: mapping_parse_port_def parse_uint_to_string all_bytes_digit valid_str_ascii
      digits_ascii nat_to_string_digits)

lemma trim_to_string [simp]: "trim (nat_to_string n) = nat_to_string n"
  by (simp add: trim_id digits_no_space nat_to_string_digits)

lemma to_string_no_sep:
  "45 \<notin> set (nat_to_string n)" "44 \<notin> set (nat_to_string n)"
  by (simp_all add: digits_not_in nat_to_string_digits is_digit_def)

lemma render_range_chars: "list_all (\<lambda>c. is_digit c \<or> c = 45) (render_range a b)"
  using nat_to_string_digits [of a] nat_to_string_digits [of b]
  by (auto simp: render_range_def list_all_iff)

lemma trim_render_range [simp]: "trim (render_range a b) = render_range a b"
  by (rule trim_id, rule list.pred_mono_strong [OF render_range_chars])
    (auto simp: is_digit_def is_whitespace_def)

lemma render_range_no_comma: "44 \<notin> set (render_range a b)"
  using render_range_chars [of a b] by (auto simp: list_all_iff is_digit_def)

lemma render_range_not_Nil [simp]: "render_range a b \<noteq> []"
  by (simp add: render_range_def)

lemma parse_item_render:
  assumes "lo \<le> a" "a \<le> b" "b \<le> hi" "hi \<le> u16_max"
  shows "parse_item lo hi (render_range a b) = Ok (a, b)"
proof (cases "a = b")
  case True
  with assms show ?thesis
    by (simp add: parse_item_def render_range_def split_on_no_sep to_string_no_sep)
next
  case False
  have "split_on 45 (render_range a b) = [nat_to_string a, nat_to_string b]"
    using False
    by (simp add: render_range_def split_on_append split_on_no_sep to_string_no_sep)
  with assms show ?thesis by (simp add: parse_item_def)
qed

lemma extend_run_split:
  assumes "distinct (e # ps)" and "list_all (\<lambda>p. p \<le> u16_max) (e # ps)"
  shows "e \<le> fst (extend_run e ps) \<and> e # ps = [e..<Suc (fst (extend_run e ps))] @ snd (extend_run e ps)"
  using assms
proof (induction ps arbitrary: e)
  case Nil
  then show ?case by simp
next
  case (Cons p ps)
  show ?case
  proof (cases "p = u16_saturating_add e 1")
    case True
    with Cons.prems have p: "p = Suc e" by (auto simp: u16_saturating_add_def min_def split: if_splits)
    from Cons.prems have "distinct (p # ps)" "list_all (\<lambda>p. p \<le> u16_max) (p # ps)" by simp_all
    note IH = Cons.IH [OF this]
    have run: "extend_run e (p # ps) = extend_run p ps" using True by simp
    have "[e..<Suc (fst (extend_run p ps))] = e # [p..<Suc (fst (extend_run p ps))]"
      using IH p upt_conv_Cons [of e "Suc (fst (extend_run p ps))"] by simp
    with IH p show ?thesis unfolding run by (simp del: upt_Suc)
  next
    case False
    then show ?thesis by simp
  qed
qed

lemma parse_port_runs:
  assumes "port_list_ok lo hi n (qs @ ps)" "hi \<le> u16_max"
  shows "parse_items lo hi n (port_runs ps) (qs, set qs) = Ok (qs @ ps)"
  using assms(1)
proof (induction ps arbitrary: qs rule: port_runs.induct)
  case 1
  then show ?case by simp
next
  case (2 p ps)
  define e rest where "e = fst (extend_run p ps)" and "rest = snd (extend_run p ps)"
  have bound: "list_all (\<lambda>x. x \<le> u16_max) (p # ps)" and "distinct (p # ps)"
    using 2(2) assms(2) by (auto simp: port_list_ok_def list_all_iff intro: order_trans)
  then have split: "p \<le> e" "p # ps = [p..<Suc e] @ rest"
    using extend_run_split [of p ps] by (simp_all add: e_def rest_def)
  have ok: "port_list_ok lo hi n (qs @ [p..<Suc e] @ rest)" using 2(2) split(2) by simp
  then have ends: "lo \<le> p" "e \<le> hi" using split(1) by (auto simp: port_list_ok_def list_all_iff)
  have add: "add_ports n [p..<Suc e] (qs, set qs) =
      Ok (qs @ [p..<Suc e], set (qs @ [p..<Suc e]))"
    by (rule add_ports_append) (use ok in \<open>auto simp: port_list_ok_def\<close>)
  have "parse_items lo hi n (port_runs rest) (qs @ [p..<Suc e], set (qs @ [p..<Suc e])) =
      Ok ((qs @ [p..<Suc e]) @ rest)"
    unfolding rest_def by (rule 2(1)) (use ok in \<open>simp add: rest_def\<close>)
  moreover have "port_runs (p # ps) = render_range p e # port_runs rest"
    by (simp add: e_def rest_def)
  ultimately show ?case
    using parse_item_render [OF ends(1) split(1) ends(2) assms(2)] add
    by (simp add: split(2) del: upt_Suc port_runs.simps)
qed

lemma port_runs_no_comma: "s \<in> set (port_runs ps) \<Longrightarrow> 44 \<notin> set s \<and> s \<noteq> []"
  by (induction ps rule: port_runs.induct) (auto simp: render_range_no_comma)

lemma port_runs_not_Nil: "ps \<noteq> [] \<Longrightarrow> port_runs ps \<noteq> []"
  by (cases ps) simp_all

lemma list_all_join:
  "list_all P (join d ss) \<longleftrightarrow> list_all (list_all P) ss \<and> (1 < length ss \<longrightarrow> list_all P d)"
  by (induction d ss rule: join.induct) auto

lemma trim_normalized: "trim (normalize_port_set ps) = normalize_port_set ps"
proof (rule trim_id)
  have "list_all (list_all (\<lambda>c. is_digit c \<or> c = 45)) (port_runs ps)"
    by (induction ps rule: port_runs.induct) (simp_all add: render_range_chars)
  then have "list_all (list_all (\<lambda>c. \<not> is_whitespace c)) (port_runs ps)"
    by (rule list.pred_mono_strong)
      (auto elim!: list.pred_mono_strong simp: is_digit_def is_whitespace_def)
  then show "list_all (\<lambda>c. \<not> is_whitespace c) (normalize_port_set ps)"
    by (simp add: normalize_port_set_def list_all_join is_whitespace_def)
qed

lemma parse_normalized:
  assumes "ps \<noteq> []" "port_list_ok lo hi n ps" "0 < lo" "hi \<le> u16_max"
  shows "parse_port_set (normalize_port_set ps) lo hi n = Ok ps"
proof -
  have split: "split_on 44 (normalize_port_set ps) = port_runs ps"
    unfolding normalize_port_set_def
    by (rule split_on_join) (use assms(1) port_runs_no_comma port_runs_not_Nil in auto)
  obtain s ss where runs: "port_runs ps = s # ss"
    using port_runs_not_Nil [OF assms(1)] by (cases "port_runs ps") auto
  then have "s \<noteq> []" using port_runs_no_comma [of s ps] by simp
  with runs have "normalize_port_set ps \<noteq> []"
    by (cases ss) (simp_all add: normalize_port_set_def)
  moreover have "lo \<le> hi" "0 < n"
    using assms by (cases ps; simp add: port_list_ok_def)+
  moreover have "parse_items lo hi n (port_runs ps) ([], {}) = Ok ps"
    using parse_port_runs [of lo hi n "[]" ps] assms by simp
  ultimately show ?thesis
    using assms by (simp add: parse_port_set_def trim_normalized split)
qed

section \<open>Properties\<close>

text \<open>
  C11. An accepted port group is a one-to-one mapping: no public and no target port occurs twice,
  every public port is inside the allowed range and every target port a non-zero port, and there
  is at least one pair and at most as many as the limit allows.
\<close>

theorem port_mappings_one_to_one:
  assumes "parse_port_mappings public_expr target_expr lo hi n = Ok m"
  shows "distinct (map pp_public_port (pm_pairs m)) \<and> distinct (map pp_target_port (pm_pairs m)) \<and>
    list_all (\<lambda>q. lo \<le> pp_public_port q \<and> pp_public_port q \<le> hi \<and>
      1 \<le> pp_target_port q \<and> pp_target_port q \<le> u16_max) (pm_pairs m) \<and>
    1 \<le> length (pm_pairs m) \<and> length (pm_pairs m) \<le> n"
proof -
  from assms obtain ps ts where ps: "parse_port_set public_expr lo hi n = Ok ps"
    and ts: "parse_port_set target_expr 1 u16_max n = Ok ts" and len: "length ps = length ts"
    and pairs: "pm_pairs m = map (\<lambda>(p, t). \<lparr> pp_public_port = p, pp_target_port = t \<rparr>) (zip ps ts)"
    by (auto simp: parse_port_mappings_def and_then_ok_iff split: if_splits)
  have sides: "map pp_public_port (pm_pairs m) = ps" "map pp_target_port (pm_pairs m) = ts"
    using len by (simp_all add: pairs comp_def case_prod_beta)
  note p_ok = parse_port_set_ok [OF ps] and t_ok = parse_port_set_ok [OF ts]
  have "distinct (map pp_public_port (pm_pairs m))" "distinct (map pp_target_port (pm_pairs m))"
    using p_ok t_ok by (simp_all add: sides port_list_ok_def)
  moreover have "list_all (\<lambda>q. lo \<le> pp_public_port q \<and> pp_public_port q \<le> hi \<and>
           1 \<le> pp_target_port q \<and> pp_target_port q \<le> u16_max) (pm_pairs m)"
    using p_ok t_ok by (auto simp: pairs port_list_ok_def list_all_iff dest: set_zip_leftD set_zip_rightD)
  moreover have "1 \<le> length (pm_pairs m) \<and> length (pm_pairs m) \<le> n"
    using p_ok len by (auto simp: pairs port_list_ok_def Suc_le_eq)
  ultimately show ?thesis by blast
qed

text \<open>
  C12. The normalised expressions a port group is stored with are unambiguous: parsing them again,
  under the same limits, gives exactly the same port group, pairs and expressions included.
\<close>

theorem port_mappings_canonical:
  assumes "parse_port_mappings public_expr target_expr lo hi n = Ok m" and "hi \<le> u16_max"
  shows "parse_port_mappings (pm_public_ports m) (pm_target_ports m) lo hi n = Ok m"
proof -
  from assms obtain ps ts where ps: "parse_port_set public_expr lo hi n = Ok ps"
    and ts: "parse_port_set target_expr 1 u16_max n = Ok ts" and len: "length ps = length ts"
    and m: "m = \<lparr> pm_public_ports = normalize_port_set ps, pm_target_ports = normalize_port_set ts,
      pm_pairs = map (\<lambda>(p, t). \<lparr> pp_public_port = p, pp_target_port = t \<rparr>) (zip ps ts) \<rparr>"
    by (auto simp: parse_port_mappings_def and_then_ok_iff split: if_splits)
  have "parse_port_set (normalize_port_set ps) lo hi n = Ok ps"
    using parse_port_set_ok [OF ps] assms(2) by (intro parse_normalized) auto
  moreover have "parse_port_set (normalize_port_set ts) 1 u16_max n = Ok ts"
    using parse_port_set_ok [OF ts] by (intro parse_normalized) auto
  ultimately show ?thesis using len by (simp add: m parse_port_mappings_def)
qed

definition sample_public :: str where
  "sample_public = lit '' 81 - 83, 90''"

definition sample_target :: str where
  "sample_target = lit ''22,1000-1002''"

lemmas sample_eval = sample_public_def sample_target_def parse_port_set_def trim_def is_whitespace_def
  parse_item_def mapping_parse_port_def parse_uint_def digits_value_def is_digit_def byte_is_digit_def
  utf8_char_def u16_max_def normalize_port_set_def u16_saturating_add_def render_range_def
  nat_to_string.simps upt_rec

lemma sample_parsed:
  "parse_port_set sample_public 80 90 4 = Ok [81, 82, 83, 90]"
  "parse_port_set sample_target 1 u16_max 4 = Ok [22, 1000, 1001, 1002]"
  by (simp_all add: sample_eval)

lemma sample_printed:
  "normalize_port_set [81, 82, 83, 90] = lit ''81-83,90''"
  "normalize_port_set [22, 1000, 1001, 1002] = lit ''22,1000-1002''"
  by (simp_all add: sample_eval)

lemma sample_mapping:
  "parse_port_mappings sample_public sample_target 80 90 4 =
     Ok \<lparr> pm_public_ports = lit ''81-83,90'', pm_target_ports = lit ''22,1000-1002'',
          pm_pairs = [\<lparr> pp_public_port = 81, pp_target_port = 22 \<rparr>,
            \<lparr> pp_public_port = 82, pp_target_port = 1000 \<rparr>,
            \<lparr> pp_public_port = 83, pp_target_port = 1001 \<rparr>,
            \<lparr> pp_public_port = 90, pp_target_port = 1002 \<rparr>] \<rparr>"
  by (simp add: parse_port_mappings_def sample_parsed [unfolded One_nat_def] sample_printed)

theorem port_mappings_one_to_one_witness:
  "\<exists>m. parse_port_mappings sample_public sample_target 80 90 4 = Ok m \<and>
     distinct (map pp_public_port (pm_pairs m)) \<and> distinct (map pp_target_port (pm_pairs m)) \<and>
     length (pm_pairs m) \<le> 4"
  using port_mappings_one_to_one [OF sample_mapping] sample_mapping by blast

theorem port_mappings_canonical_witness:
  "\<exists>m. parse_port_mappings sample_public sample_target 80 90 4 = Ok m \<and>
     parse_port_mappings (pm_public_ports m) (pm_target_ports m) 80 90 4 = Ok m"
  using port_mappings_canonical [OF sample_mapping] sample_mapping
  by (auto simp: u16_max_def)

end
