(* ===== verification/Target_Pool.thy ===== *)
theory Target_Pool
  imports Rust_Net Port_Mapping
begin

text \<open>
  Weighted target pools (\<open>linklake-core/src/target_pool.rs\<close>): parsing of
  \<open>host:port@weight\<close> lists, the address check, and the selection of a target by sequence number.
  Weights are \<open>u32\<close> and the sequence \<open>u64\<close>, kept as their values; the \<open>u64\<close> sum of the
  weights is written with its wrap-around.
\<close>

section \<open>Definitions\<close>

definition MAX_TARGETS :: nat where
  "MAX_TARGETS = 16"

definition MAX_TARGET_WEIGHT :: nat where
  "MAX_TARGET_WEIGHT = 10000"

definition u32_max :: nat where
  "u32_max = 4294967295"

record weighted_target =
  wt_address :: str
  wt_weight :: nat

datatype target_pool_error = PoolEmpty | PoolTooMany | PoolInvalidAddress | PoolInvalidWeight

definition dns_label :: "str \<Rightarrow> bool" where
  "dns_label label \<longleftrightarrow>
     label \<noteq> [] \<and> len label \<le> 63 \<and> hd label \<noteq> 45 \<and> last label \<noteq> 45 \<and>
     all_bytes (\<lambda>b. byte_is_alphanumeric b \<or> b = 45) label"

definition valid_dns_name :: "str \<Rightarrow> bool" where
  "valid_dns_name host \<longleftrightarrow> len host \<le> 253 \<and> list_all dns_label (split_on 46 host)"

text \<open>The host and port texts, by bracketed or plain form.\<close>

definition split_address :: "str \<Rightarrow> target_pool_error + (str \<times> str)" where
  "split_address value =
     (case strip_prefix [91] value of
        Some rest \<Rightarrow>
          (case split_once2 93 58 rest of
             None \<Rightarrow> Err PoolInvalidAddress
           | Some (host, p) \<Rightarrow> if parse_ipv6 host = None then Err PoolInvalidAddress else Ok (host, p))
      | None \<Rightarrow>
          (case rsplit_once 58 value of
             None \<Rightarrow> Err PoolInvalidAddress
           | Some (host, p) \<Rightarrow> if 58 \<in> set host then Err PoolInvalidAddress else Ok (host, p)))"

definition validate_address :: "str \<Rightarrow> target_pool_error + unit" where
  "validate_address value =
     (if value = [] \<or> len value > 255 \<or>
         list_ex (\<lambda>c. is_whitespace c \<or> is_control c \<or> c = 47 \<or> c = 92 \<or> c = 63 \<or> c = 35 \<or> c = 64) value \<or>
         contains_str [58, 47, 47] value
      then Err PoolInvalidAddress
      else and_then (split_address value) (\<lambda>(host, p).
        if host = [] \<or> 91 \<in> set host \<or> 93 \<in> set host then Err PoolInvalidAddress
        else and_then (ok_or (parse_uint u16_max p) PoolInvalidAddress) (\<lambda>port.
          if port = 0 then Err PoolInvalidAddress
          else if \<not> starts_with [91] value \<and> parse_ipv4 host = None \<and> \<not> valid_dns_name host
          then Err PoolInvalidAddress
          else Ok ())))"

definition parse_target :: "str \<Rightarrow> target_pool_error + weighted_target" where
  "parse_target raw =
     (let segment = trim raw in
      and_then
        (case rsplit_once 64 segment of
           Some (address, weight) \<Rightarrow>
             and_then (ok_or (parse_uint u32_max weight) PoolInvalidWeight) (\<lambda>w.
               if w = 0 \<or> w > MAX_TARGET_WEIGHT then Err PoolInvalidWeight else Ok (trim address, w))
         | None \<Rightarrow> Ok (segment, 1))
        (\<lambda>(address, weight).
           and_then (validate_address address) (\<lambda>_.
             Ok \<lparr> wt_address = address, wt_weight = weight \<rparr>)))"

definition parse_target_pool :: "str \<Rightarrow> target_pool_error + weighted_target list" where
  "parse_target_pool raw =
     (let value = trim raw in
      if value = [] then Err PoolEmpty
      else let segments = split_on 44 value in
        if length segments > MAX_TARGETS then Err PoolTooMany
        else map_result parse_target segments)"

fun find_slot :: "weighted_target list \<Rightarrow> nat \<Rightarrow> str option" where
  "find_slot [] slot = None"
| "find_slot (t # ts) slot =
     (if slot < wt_weight t then Some (wt_address t) else find_slot ts (slot - wt_weight t))"

definition total_weight :: "weighted_target list \<Rightarrow> nat" where
  "total_weight ts = sum_list (map wt_weight ts) mod 2 ^ 64"

definition select_weighted_target :: "weighted_target list \<Rightarrow> nat \<Rightarrow> str option" where
  "select_weighted_target ts sequence =
     (if total_weight ts = 0 then None else find_slot ts (sequence mod total_weight ts))"

section \<open>Accepted pools\<close>

definition port_text :: "str \<Rightarrow> bool" where
  "port_text p \<longleftrightarrow> (\<exists>n. parse_uint u16_max p = Some n \<and> 1 \<le> n)"

definition address_form :: "str \<Rightarrow> bool" where
  "address_form a \<longleftrightarrow>
     (\<exists>host p. a = [91] @ host @ [93, 58] @ p \<and> parse_ipv6 host \<noteq> None \<and> port_text p) \<or>
     (\<exists>host p. a = host @ [58] @ p \<and> 58 \<notin> set host \<and>
        (parse_ipv4 host \<noteq> None \<or> valid_dns_name host) \<and> port_text p)"

lemma split_once2_Some: "split_once2 c d s = Some (a, b) \<Longrightarrow> s = a @ [c, d] @ b"
  by (induction c d s arbitrary: a rule: split_once2.induct) (auto split: if_splits)

lemma validate_address_form:
  assumes "validate_address a = Ok u"
  shows "address_form a \<and> list_all (\<lambda>c. \<not> is_whitespace c \<and> \<not> is_control c) a"
proof -
  from assms obtain host p n where split: "split_address a = Ok (host, p)"
    and port: "parse_uint u16_max p = Some n" "n \<noteq> 0"
    and form: "starts_with [91] a \<or> parse_ipv4 host \<noteq> None \<or> valid_dns_name host"
    and chars: "list_all (\<lambda>c. \<not> is_whitespace c \<and> \<not> is_control c) a"
    by (auto simp: validate_address_def and_then_ok_iff list_ex_iff list_all_iff split: if_splits)
  from port have pt: "port_text p" by (auto simp: port_text_def)
  show ?thesis
  proof (cases "starts_with [91] a")
    case True
    then have "strip_prefix [91] a = Some (drop 1 a)" by (simp add: strip_prefix_def)
    with split have "split_once2 93 58 (drop 1 a) = Some (host, p)" "parse_ipv6 host \<noteq> None"
      by (auto simp: split_address_def split: option.splits if_splits)
    moreover have "a = 91 # drop 1 a" using True by (cases a) (auto simp: starts_with_def)
    ultimately have "a = [91] @ host @ [93, 58] @ p" by (metis append_Cons append_Nil split_once2_Some)
    with \<open>parse_ipv6 host \<noteq> None\<close> pt chars show ?thesis unfolding address_form_def by blast
  next
    case False
    then have "strip_prefix [91] a = None" by (simp add: strip_prefix_def)
    with split have "rsplit_once 58 a = Some (host, p)" "58 \<notin> set host"
      by (auto simp: split_address_def split: option.splits if_splits)
    then have "a = host @ [58] @ p" by (simp add: rsplit_once_Some)
    with \<open>58 \<notin> set host\<close> form False pt chars show ?thesis unfolding address_form_def by blast
  qed
qed

lemma parse_target_ok:
  assumes "parse_target s = Ok t"
  shows "1 \<le> wt_weight t \<and> wt_weight t \<le> MAX_TARGET_WEIGHT \<and> address_form (wt_address t)"
proof -
  from assms have "1 \<le> wt_weight t \<and> wt_weight t \<le> MAX_TARGET_WEIGHT" "validate_address (wt_address t) = Ok ()"
    by (auto simp: parse_target_def Let_def and_then_ok_iff MAX_TARGET_WEIGHT_def
        split: option.splits if_splits)
  then show ?thesis using validate_address_form by blast
qed

lemma parse_target_pool_ok:
  assumes "parse_target_pool s = Ok ts"
  shows "1 \<le> length ts \<and> length ts \<le> MAX_TARGETS \<and>
    list_all (\<lambda>t. 1 \<le> wt_weight t \<and> wt_weight t \<le> MAX_TARGET_WEIGHT \<and> address_form (wt_address t)) ts"
proof -
  from assms have run: "map_result parse_target (split_on 44 (trim s)) = Ok ts"
    and few: "length (split_on 44 (trim s)) \<le> MAX_TARGETS"
    by (auto simp: parse_target_pool_def Let_def split: if_splits)
  have "0 < length (split_on 44 (trim s))" by (simp only: length_greater_0_conv split_on_not_Nil) simp
  with few map_result_length [OF run] have "1 \<le> length ts" "length ts \<le> MAX_TARGETS" by linarith+
  moreover have "list_all (\<lambda>t. 1 \<le> wt_weight t \<and> wt_weight t \<le> MAX_TARGET_WEIGHT \<and>
      address_form (wt_address t)) ts"
    unfolding list_all_iff using parse_target_ok map_result_in_set [OF run] by blast
  ultimately show ?thesis by blast
qed

section \<open>Selection\<close>

lemma total_weight_exact:
  assumes "length ts \<le> MAX_TARGETS" "list_all (\<lambda>t. 1 \<le> wt_weight t \<and> wt_weight t \<le> MAX_TARGET_WEIGHT) ts"
  shows "total_weight ts = sum_list (map wt_weight ts)" and "ts \<noteq> [] \<Longrightarrow> 0 < total_weight ts"
proof -
  have "sum_list (map wt_weight ts) \<le> length ts * MAX_TARGET_WEIGHT"
    using assms(2) by (induction ts) auto
  also have "\<dots> \<le> 160000" using assms(1) by (simp add: MAX_TARGETS_def MAX_TARGET_WEIGHT_def)
  finally show eq: "total_weight ts = sum_list (map wt_weight ts)" by (simp add: total_weight_def)
  show "ts \<noteq> [] \<Longrightarrow> 0 < total_weight ts"
    unfolding eq using assms(2) by (cases ts) auto
qed

lemma find_slot_Some:
  "slot < sum_list (map wt_weight ts) \<Longrightarrow> \<exists>t \<in> set ts. find_slot ts slot = Some (wt_address t)"
  by (induction ts arbitrary: slot) auto

definition weight_of :: "str \<Rightarrow> weighted_target list \<Rightarrow> nat" where
  "weight_of a ts = sum_list (map wt_weight (filter (\<lambda>t. wt_address t = a) ts))"

lemma find_slot_share:
  "card {slot. slot < sum_list (map wt_weight ts) \<and> find_slot ts slot = Some a} = weight_of a ts"
proof (induction ts)
  case Nil
  then show ?case by (simp add: weight_of_def)
next
  case (Cons t ts)
  define w n where "w = wt_weight t" and "n = sum_list (map wt_weight ts)"
  define rest where "rest = {slot. slot < n \<and> find_slot ts slot = Some a}"
  define here where "here = (if wt_address t = a then {..<w} else {})"
  have fin: "finite rest" "finite here" by (simp_all add: rest_def here_def)
  have "s \<in> here \<union> (\<lambda>s. s + w) ` rest \<longleftrightarrow>
      s < sum_list (map wt_weight (t # ts)) \<and> find_slot (t # ts) s = Some a" for s
  proof (cases "s < w")
    case True
    then show ?thesis by (auto simp: here_def w_def)
  next
    case False
    then have "s \<in> (\<lambda>s. s + w) ` rest \<longleftrightarrow> s - w \<in> rest"
      by (metis (no_types, lifting) add_diff_cancel_right' diff_add imageE imageI leI)
    with False show ?thesis by (auto simp: here_def w_def rest_def n_def)
  qed
  then have "{slot. slot < sum_list (map wt_weight (t # ts)) \<and> find_slot (t # ts) slot = Some a} =
      here \<union> (\<lambda>s. s + w) ` rest" by blast
  moreover have "here \<inter> (\<lambda>s. s + w) ` rest = {}" by (auto simp: here_def)
  moreover have "card ((\<lambda>s. s + w) ` rest) = card rest" by (rule card_image) (simp add: inj_on_def)
  ultimately have "card {slot. slot < sum_list (map wt_weight (t # ts)) \<and> find_slot (t # ts) slot = Some a} =
      card here + card rest" using fin by (simp only: card_Un_disjoint finite_imageI)
  moreover have "card rest = weight_of a ts" using Cons.IH by (simp add: rest_def n_def)
  moreover have "card here + weight_of a ts = weight_of a (t # ts)"
    by (simp add: here_def w_def weight_of_def)
  ultimately show ?case by simp
qed

lemma mod_window: "0 < n \<Longrightarrow> bij_betw (\<lambda>s. s mod n) {k..<k + n} {..<n :: nat}"
proof -
  assume n: "0 < n"
  have inj: "inj_on (\<lambda>s. s mod n) {k..<k + n}"
  proof (rule linorder_inj_onI)
    fix x y assume xy: "x < y" "x \<in> {k..<k + n}" "y \<in> {k..<k + n}"
    show "x mod n \<noteq> y mod n"
    proof
      assume "x mod n = y mod n"
      then have "n dvd y - x" using mod_eq_dvd_iff_nat [of x y n] xy(1) by simp
      then show False using xy by (auto dest: dvd_imp_le)
    qed
  qed auto
  moreover have "(\<lambda>s. s mod n) ` {k..<k + n} = {..<n}"
    by (rule card_subset_eq) (use n inj in \<open>auto simp: card_image\<close>)
  ultimately show ?thesis by (simp add: bij_betw_def)
qed

lemma bij_filter_card:
  assumes "bij_betw f A B"
  shows "card {x \<in> A. P (f x)} = card {y \<in> B. P y}"
proof -
  have "f ` {x \<in> A. P (f x)} = {y \<in> B. P y}" using assms unfolding bij_betw_def by blast
  moreover have "inj_on f {x \<in> A. P (f x)}"
    by (rule inj_on_subset [of f A]) (use assms in \<open>auto simp: bij_betw_def\<close>)
  ultimately show ?thesis by (metis card_image)
qed

lemma window_share:
  fixes n :: nat
  assumes "0 < n"
  shows "card {s. k \<le> s \<and> s < k + n \<and> P (s mod n)} = card {s. s < n \<and> P s}"
  using bij_filter_card [OF mod_window [OF assms, of k], of P] by (simp add: conj_assoc)

section \<open>Properties\<close>

text \<open>
  C15. An accepted pool has one to sixteen targets with weights from 1 to 10000, every address is
  a bracketed IPv6 literal, an IPv4 literal or a DNS name followed by a non-zero port, and
  selection never fails: every sequence number yields an address of the pool.
\<close>

theorem target_pool_sound:
  assumes "parse_target_pool s = Ok ts"
  shows "1 \<le> length ts \<and> length ts \<le> MAX_TARGETS \<and>
    list_all (\<lambda>t. 1 \<le> wt_weight t \<and> wt_weight t \<le> MAX_TARGET_WEIGHT \<and> address_form (wt_address t)) ts \<and>
    (\<exists>t. t \<in> set ts \<and> select_weighted_target ts sequence = Some (wt_address t))"
proof -
  note ok = parse_target_pool_ok [OF assms]
  have w: "total_weight ts = sum_list (map wt_weight ts)" "0 < total_weight ts"
    using ok by (auto intro!: total_weight_exact elim!: list.pred_mono_strong)
  then have "sequence mod total_weight ts < sum_list (map wt_weight ts)" by simp
  from find_slot_Some [OF this] w(2)
  have "\<exists>t. t \<in> set ts \<and> select_weighted_target ts sequence = Some (wt_address t)"
    by (auto simp: select_weighted_target_def)
  with ok show ?thesis by blast
qed

text \<open>
  C16. The round robin is exactly proportional: among any run of consecutive sequence numbers as
  long as the sum of the weights, an address is chosen as often as its weight says (the sum of
  its weights when it is listed more than once).
\<close>

theorem weighted_shares_exact:
  assumes "parse_target_pool s = Ok ts"
  shows "card {i. k \<le> i \<and> i < k + sum_list (map wt_weight ts) \<and>
      select_weighted_target ts i = Some a} = weight_of a ts"
proof -
  note ok = parse_target_pool_ok [OF assms]
  have w: "total_weight ts = sum_list (map wt_weight ts)" "0 < total_weight ts"
    using ok by (auto intro!: total_weight_exact elim!: list.pred_mono_strong)
  then have "card {i. k \<le> i \<and> i < k + total_weight ts \<and> find_slot ts (i mod total_weight ts) = Some a} =
      card {i. i < total_weight ts \<and> find_slot ts i = Some a}"
    by (intro window_share)
  moreover have "select_weighted_target ts i = find_slot ts (i mod total_weight ts)" for i
    using w(2) by (simp add: select_weighted_target_def)
  ultimately show ?thesis
    unfolding find_slot_share [symmetric] w(1) [symmetric] by simp
qed

definition sample_pool :: str where
  "sample_pool = lit ''a.b:80@2, c-d:81''"

lemmas pool_eval = parse_target_def validate_address_def split_address_def trim_def is_whitespace_def
  rsplit_once_def parse_uint_def digits_value_def is_digit_def is_control_def starts_with_def
  strip_prefix_def u16_max_def u32_max_def MAX_TARGET_WEIGHT_def utf8_char_def

lemma sample_targets:
  "parse_target (lit ''a.b:80@2'') = Ok \<lparr> wt_address = lit ''a.b:80'', wt_weight = 2 \<rparr>"
  "parse_target (lit '' c-d:81'') = Ok \<lparr> wt_address = lit ''c-d:81'', wt_weight = 1 \<rparr>"
  by (simp_all add: pool_eval valid_dns_name_def dns_label_def byte_is_alphanumeric_def
      byte_is_digit_def)

lemma sample_pool_parsed:
  "parse_target_pool sample_pool =
     Ok [\<lparr> wt_address = lit ''a.b:80'', wt_weight = 2 \<rparr>, \<lparr> wt_address = lit ''c-d:81'', wt_weight = 1 \<rparr>]"
  using sample_targets
  by (simp add: parse_target_pool_def sample_pool_def trim_def is_whitespace_def MAX_TARGETS_def)

theorem target_pool_sound_witness:
  "\<exists>ts. parse_target_pool sample_pool = Ok ts \<and> length ts \<le> MAX_TARGETS \<and>
     (\<exists>t. t \<in> set ts \<and> select_weighted_target ts 5 = Some (wt_address t))"
  using target_pool_sound [OF sample_pool_parsed] sample_pool_parsed by blast

theorem weighted_shares_exact_witness:
  "\<exists>ts. parse_target_pool sample_pool = Ok ts \<and>
     card {i. 7 \<le> i \<and> i < 7 + sum_list (map wt_weight ts) \<and>
       select_weighted_target ts i = Some (lit ''a.b:80'')} = 2"
  using weighted_shares_exact [OF sample_pool_parsed, of 7 "lit ''a.b:80''"] sample_pool_parsed
  by (simp add: weight_of_def)

end
