(* ===== verification/Egress_Policy.thy ===== *)
theory Egress_Policy
  imports Rust_Strings
begin

text \<open>
  The egress policy of the dynamic proxies (\<open>linklake-core/src/egress_policy.rs\<close>): every IP
  address a SOCKS5 or HTTP proxy client asks for is classified by its prefix, and only public
  addresses (and private ones when the administrator allows them) pass. Addresses are the
  32- and 128-bit words of \<open>u32::from(Ipv4Addr)\<close> and \<open>u128::from(Ipv6Addr)\<close>; the prefix test is
  the masked comparison of the source.
\<close>

unbundle bit_operations_syntax

section \<open>Definitions\<close>

datatype egress_address_class = Public | PrivateNetwork | CloudMetadata | Sensitive

record egress_policy =
  ep_allow_private_networks :: bool

datatype egress_policy_error = PrivateNetworkDenied | CloudMetadataDenied | SensitiveAddressDenied

definition public_only :: egress_policy where
  "public_only = \<lparr> ep_allow_private_networks = False \<rparr>"

definition egress_policy_new :: "bool \<Rightarrow> egress_policy" where
  "egress_policy_new allow = \<lparr> ep_allow_private_networks = allow \<rparr>"

definition egress_error_code :: "egress_policy_error \<Rightarrow> str" where
  "egress_error_code e = (case e of
     PrivateNetworkDenied \<Rightarrow> lit ''private_network_target_denied''
   | CloudMetadataDenied \<Rightarrow> lit ''cloud_metadata_target_denied''
   | SensitiveAddressDenied \<Rightarrow> lit ''sensitive_network_target_denied'')"

text \<open>\<open>Ipv4Addr::new\<close> and \<open>Ipv6Addr::new\<close> from octets and sixteen-bit segments.\<close>

definition ipv4_new :: "nat \<Rightarrow> nat \<Rightarrow> nat \<Rightarrow> nat \<Rightarrow> u32" where
  "ipv4_new a b c d = of_nat (((a * 256 + b) * 256 + c) * 256 + d)"

definition ipv6_new :: "nat list \<Rightarrow> u128" where
  "ipv6_new segments = of_nat (foldl (\<lambda>acc s. acc * 65536 + s) 0 segments)"

definition ipv4_in_prefix :: "u32 \<Rightarrow> u32 \<Rightarrow> nat \<Rightarrow> bool" where
  "ipv4_in_prefix address network prefix =
     (let mask = (if prefix = 0 then 0 else push_bit (32 - prefix) (- 1)) :: u32
      in (address AND mask) = (network AND mask))"

definition ipv6_in_prefix :: "u128 \<Rightarrow> u128 \<Rightarrow> nat \<Rightarrow> bool" where
  "ipv6_in_prefix address network prefix =
     (let mask = (if prefix = 0 then 0 else push_bit (128 - prefix) (- 1)) :: u128
      in (address AND mask) = (network AND mask))"

text \<open>
  \<open>Ipv6Addr::to_ipv4_mapped\<close>: the first ten octets are zero and the next two \<open>0xff\<close>; the last
  four octets are the IPv4 address.
\<close>

definition to_ipv4_mapped :: "u128 \<Rightarrow> u32 option" where
  "to_ipv4_mapped a = (if drop_bit 32 a = 0xFFFF then Some (ucast a) else None)"

definition classify_ipv4 :: "u32 \<Rightarrow> egress_address_class" where
  "classify_ipv4 a =
     (if a = ipv4_new 169 254 169 254 \<or> a = ipv4_new 100 100 100 200 \<or> a = ipv4_new 168 63 129 16
      then CloudMetadata
      else if ipv4_in_prefix a (ipv4_new 10 0 0 0) 8 \<or> ipv4_in_prefix a (ipv4_new 100 64 0 0) 10 \<or>
        ipv4_in_prefix a (ipv4_new 172 16 0 0) 12 \<or> ipv4_in_prefix a (ipv4_new 192 168 0 0) 16
      then PrivateNetwork
      else if ipv4_in_prefix a (ipv4_new 0 0 0 0) 8 \<or> ipv4_in_prefix a (ipv4_new 127 0 0 1) 8 \<or>
        ipv4_in_prefix a (ipv4_new 169 254 0 0) 16 \<or> ipv4_in_prefix a (ipv4_new 192 0 0 0) 24 \<or>
        ipv4_in_prefix a (ipv4_new 192 0 2 0) 24 \<or> ipv4_in_prefix a (ipv4_new 192 88 99 0) 24 \<or>
        ipv4_in_prefix a (ipv4_new 198 18 0 0) 15 \<or> ipv4_in_prefix a (ipv4_new 198 51 100 0) 24 \<or>
        ipv4_in_prefix a (ipv4_new 203 0 113 0) 24 \<or> ipv4_in_prefix a (ipv4_new 224 0 0 0) 4 \<or>
        ipv4_in_prefix a (ipv4_new 240 0 0 0) 4
      then Sensitive
      else Public)"

definition classify_ipv6 :: "u128 \<Rightarrow> egress_address_class" where
  "classify_ipv6 a =
     (case to_ipv4_mapped a of
        Some mapped \<Rightarrow> classify_ipv4 mapped
      | None \<Rightarrow>
          if ipv6_in_prefix a (ipv6_new [0x0064, 0xff9b, 0, 0, 0, 0, 0, 0]) 96 then classify_ipv4 (ucast a)
          else if a = ipv6_new [0xfd00, 0x0ec2, 0, 0, 0, 0, 0, 0x0254] then CloudMetadata
          else if ipv6_in_prefix a (ipv6_new [0xfc00, 0, 0, 0, 0, 0, 0, 0]) 7 then PrivateNetwork
          else if a = 0 \<or> a = 1 \<or>
            ipv6_in_prefix a 0 96 \<or>
            ipv6_in_prefix a (ipv6_new [0x0064, 0xff9b, 0x0001, 0, 0, 0, 0, 0]) 48 \<or>
            ipv6_in_prefix a (ipv6_new [0x0100, 0, 0, 0, 0, 0, 0, 0]) 64 \<or>
            ipv6_in_prefix a (ipv6_new [0x2001, 0, 0, 0, 0, 0, 0, 0]) 23 \<or>
            ipv6_in_prefix a (ipv6_new [0x2001, 0x0db8, 0, 0, 0, 0, 0, 0]) 32 \<or>
            ipv6_in_prefix a (ipv6_new [0x2002, 0, 0, 0, 0, 0, 0, 0]) 16 \<or>
            ipv6_in_prefix a (ipv6_new [0x3fff, 0, 0, 0, 0, 0, 0, 0]) 20 \<or>
            ipv6_in_prefix a (ipv6_new [0x5f00, 0, 0, 0, 0, 0, 0, 0]) 16 \<or>
            ipv6_in_prefix a (ipv6_new [0xfe80, 0, 0, 0, 0, 0, 0, 0]) 10 \<or>
            ipv6_in_prefix a (ipv6_new [0xfec0, 0, 0, 0, 0, 0, 0, 0]) 10 \<or>
            ipv6_in_prefix a (ipv6_new [0xff00, 0, 0, 0, 0, 0, 0, 0]) 8 \<or>
            \<not> ipv6_in_prefix a (ipv6_new [0x2000, 0, 0, 0, 0, 0, 0, 0]) 3
          then Sensitive
          else Public)"

definition classify_ip :: "ip_addr \<Rightarrow> egress_address_class" where
  "classify_ip address = (case address of V4 a \<Rightarrow> classify_ipv4 a | V6 a \<Rightarrow> classify_ipv6 a)"

definition validate_ip :: "egress_policy \<Rightarrow> ip_addr \<Rightarrow> egress_policy_error + unit" where
  "validate_ip policy address =
     (case classify_ip address of
        Public \<Rightarrow> Ok ()
      | PrivateNetwork \<Rightarrow>
          if ep_allow_private_networks policy then Ok () else Err PrivateNetworkDenied
      | CloudMetadata \<Rightarrow> Err CloudMetadataDenied
      | Sensitive \<Rightarrow> Err SensitiveAddressDenied)"

section \<open>Prefixes are intervals\<close>

lemma masked_eq_iff:
  fixes a n :: "'a::len word"
  shows "(a AND NOT (mask m)) = (n AND NOT (mask m)) \<longleftrightarrow> drop_bit m a = drop_bit m n"
proof
  assume masked: "(a AND NOT (mask m)) = (n AND NOT (mask m))"
  have "bit (a AND NOT (mask m)) (m + i) = bit (n AND NOT (mask m)) (m + i)" for i
    by (simp only: masked)
  then show "drop_bit m a = drop_bit m n"
    by (intro bit_word_eqI) (auto simp: bit_simps dest: bit_imp_le_length)
next
  assume dropped: "drop_bit m a = drop_bit m n"
  have "bit a i = bit n i" if "m \<le> i" for i
    using arg_cong [OF dropped, of "\<lambda>w. bit w (i - m)"] that by (simp add: bit_drop_bit_eq)
  then show "(a AND NOT (mask m)) = (n AND NOT (mask m))"
    by (intro bit_word_eqI) (auto simp: bit_simps)
qed

lemma unat_drop_bit: "unat (drop_bit m (a :: 'a::len word)) = unat a div 2 ^ m"
proof -
  have "take_bit LENGTH('a) (unat a) = unat a" by (simp add: take_bit_nat_eq_self)
  then show ?thesis by (simp add: unsigned_drop_bit_eq drop_bit_nat_def)
qed

lemma drop_bit_eq_iff_div:
  fixes a n :: "'a::len word"
  shows "drop_bit m a = drop_bit m n \<longleftrightarrow> unat a div 2 ^ m = unat n div 2 ^ m"
  by (simp add: word_unat_eq_iff unat_drop_bit)

lemma div_eq_interval: "0 < d \<Longrightarrow> x div d = (q :: nat) \<longleftrightarrow> q * d \<le> x \<and> x < q * d + d"
  by (metis add.commute div_nat_eqI div_times_less_eq_dividend dividend_less_div_times mult_Suc mult.commute)

lemma ipv4_prefix_interval:
  assumes "0 < k" "k \<le> 32" "unat n div 2 ^ (32 - k) = q"
  shows "ipv4_in_prefix a n k \<longleftrightarrow> q * 2 ^ (32 - k) \<le> unat a \<and> unat a < q * 2 ^ (32 - k) + 2 ^ (32 - k)"
  using assms(1,2)
  by (simp add: ipv4_in_prefix_def Let_def masked_eq_iff drop_bit_eq_iff_div assms(3) div_eq_interval)

lemma ipv6_prefix_interval:
  assumes "0 < k" "k \<le> 128" "unat n div 2 ^ (128 - k) = q"
  shows "ipv6_in_prefix a n k \<longleftrightarrow> q * 2 ^ (128 - k) \<le> unat a \<and> unat a < q * 2 ^ (128 - k) + 2 ^ (128 - k)"
  using assms(1,2)
  by (simp add: ipv6_in_prefix_def Let_def masked_eq_iff drop_bit_eq_iff_div assms(3) div_eq_interval)

lemma ipv4_prefix_bounds:
  "ipv4_in_prefix a (ipv4_new 10 0 0 0) 8 \<longleftrightarrow> 0x0A000000 \<le> unat a \<and> unat a < 0xB000000"
  "ipv4_in_prefix a (ipv4_new 100 64 0 0) 10 \<longleftrightarrow> 0x64400000 \<le> unat a \<and> unat a < 0x64800000"
  "ipv4_in_prefix a (ipv4_new 172 16 0 0) 12 \<longleftrightarrow> 0xAC100000 \<le> unat a \<and> unat a < 0xAC200000"
  "ipv4_in_prefix a (ipv4_new 192 168 0 0) 16 \<longleftrightarrow> 0xC0A80000 \<le> unat a \<and> unat a < 0xC0A90000"
  "ipv4_in_prefix a (ipv4_new 0 0 0 0) 8 \<longleftrightarrow> unat a < 0x1000000"
  "ipv4_in_prefix a (ipv4_new 127 0 0 1) 8 \<longleftrightarrow> 0x7F000000 \<le> unat a \<and> unat a < 0x80000000"
  "ipv4_in_prefix a (ipv4_new 169 254 0 0) 16 \<longleftrightarrow> 0xA9FE0000 \<le> unat a \<and> unat a < 0xA9FF0000"
  "ipv4_in_prefix a (ipv4_new 192 0 0 0) 24 \<longleftrightarrow> 0xC0000000 \<le> unat a \<and> unat a < 0xC0000100"
  "ipv4_in_prefix a (ipv4_new 192 0 2 0) 24 \<longleftrightarrow> 0xC0000200 \<le> unat a \<and> unat a < 0xC0000300"
  "ipv4_in_prefix a (ipv4_new 192 88 99 0) 24 \<longleftrightarrow> 0xC0586300 \<le> unat a \<and> unat a < 0xC0586400"
  "ipv4_in_prefix a (ipv4_new 198 18 0 0) 15 \<longleftrightarrow> 0xC6120000 \<le> unat a \<and> unat a < 0xC6140000"
  "ipv4_in_prefix a (ipv4_new 198 51 100 0) 24 \<longleftrightarrow> 0xC6336400 \<le> unat a \<and> unat a < 0xC6336500"
  "ipv4_in_prefix a (ipv4_new 203 0 113 0) 24 \<longleftrightarrow> 0xCB007100 \<le> unat a \<and> unat a < 0xCB007200"
  "ipv4_in_prefix a (ipv4_new 224 0 0 0) 4 \<longleftrightarrow> 0xE0000000 \<le> unat a \<and> unat a < 0xF0000000"
  "ipv4_in_prefix a (ipv4_new 240 0 0 0) 4 \<longleftrightarrow> 0xF0000000 \<le> unat a \<and> unat a < 0x100000000"
  by (simp_all add: ipv4_prefix_interval [OF _ _ refl] ipv4_new_def)

lemma unat_u128_less: "unat (a :: u128) < 2 ^ 128"
  by (rule order_less_le_trans [OF unsigned_less]) simp

lemma ipv6_prefix_bounds:
  "ipv6_in_prefix a (ipv6_new [0x0064, 0xff9b, 0, 0, 0, 0, 0, 0]) 96 \<longleftrightarrow>
     0x0064ff9b * 2 ^ 96 \<le> unat a \<and> unat a < 0x0064ff9b * 2 ^ 96 + 2 ^ 32"
  "ipv6_in_prefix a (ipv6_new [0xfc00, 0, 0, 0, 0, 0, 0, 0]) 7 \<longleftrightarrow>
     0xfc * 2 ^ 120 \<le> unat a \<and> unat a < 0xfe * 2 ^ 120"
  "ipv6_in_prefix a (ipv6_new [0x2001, 0, 0, 0, 0, 0, 0, 0]) 23 \<longleftrightarrow>
     0x2001 * 2 ^ 112 \<le> unat a \<and> unat a < 0x20010200 * 2 ^ 96"
  "ipv6_in_prefix a (ipv6_new [0x2001, 0x0db8, 0, 0, 0, 0, 0, 0]) 32 \<longleftrightarrow>
     0x20010db8 * 2 ^ 96 \<le> unat a \<and> unat a < 0x20010db9 * 2 ^ 96"
  "ipv6_in_prefix a (ipv6_new [0x2002, 0, 0, 0, 0, 0, 0, 0]) 16 \<longleftrightarrow>
     0x2002 * 2 ^ 112 \<le> unat a \<and> unat a < 0x2003 * 2 ^ 112"
  "ipv6_in_prefix a (ipv6_new [0x3fff, 0, 0, 0, 0, 0, 0, 0]) 20 \<longleftrightarrow>
     0x3fff * 2 ^ 112 \<le> unat a \<and> unat a < 0x3fff1 * 2 ^ 108"
  "ipv6_in_prefix a (ipv6_new [0x2000, 0, 0, 0, 0, 0, 0, 0]) 3 \<longleftrightarrow>
     0x2 * 2 ^ 124 \<le> unat a \<and> unat a < 0x4 * 2 ^ 124"
  "ipv6_in_prefix a 0 96 \<longleftrightarrow> unat a < 2 ^ 32"
  "ipv6_in_prefix a (ipv6_new [0x0064, 0xff9b, 0x0001, 0, 0, 0, 0, 0]) 48 \<longleftrightarrow>
     0x0064ff9b0001 * 2 ^ 80 \<le> unat a \<and> unat a < 0x0064ff9b0002 * 2 ^ 80"
  "ipv6_in_prefix a (ipv6_new [0x0100, 0, 0, 0, 0, 0, 0, 0]) 64 \<longleftrightarrow>
     0x01 * 2 ^ 120 \<le> unat a \<and> unat a < 0x01 * 2 ^ 120 + 2 ^ 64"
  "ipv6_in_prefix a (ipv6_new [0x5f00, 0, 0, 0, 0, 0, 0, 0]) 16 \<longleftrightarrow>
     0x5f00 * 2 ^ 112 \<le> unat a \<and> unat a < 0x5f01 * 2 ^ 112"
  "ipv6_in_prefix a (ipv6_new [0xfe80, 0, 0, 0, 0, 0, 0, 0]) 10 \<longleftrightarrow>
     0xfe80 * 2 ^ 112 \<le> unat a \<and> unat a < 0xfec0 * 2 ^ 112"
  "ipv6_in_prefix a (ipv6_new [0xfec0, 0, 0, 0, 0, 0, 0, 0]) 10 \<longleftrightarrow>
     0xfec0 * 2 ^ 112 \<le> unat a \<and> unat a < 0xff00 * 2 ^ 112"
  "ipv6_in_prefix a (ipv6_new [0xff00, 0, 0, 0, 0, 0, 0, 0]) 8 \<longleftrightarrow> 0xff * 2 ^ 120 \<le> unat a"
  using unat_u128_less [of a]
  by (simp_all add: ipv6_prefix_interval [OF _ _ refl] ipv6_new_def)

section \<open>The address plan\<close>

text \<open>The intervals the policy is meant to enforce, on the numeric value of an address.\<close>

definition metadata_v4 :: "nat \<Rightarrow> bool" where
  "metadata_v4 x \<longleftrightarrow> x = 0xA9FEA9FE \<or> x = 0x646464C8 \<or> x = 0xA83F8110"

definition private_v4 :: "nat \<Rightarrow> bool" where
  "private_v4 x \<longleftrightarrow>
     0x0A000000 \<le> x \<and> x < 0x0B000000 \<or> 0x64400000 \<le> x \<and> x < 0x64800000 \<or>
     0xAC100000 \<le> x \<and> x < 0xAC200000 \<or> 0xC0A80000 \<le> x \<and> x < 0xC0A90000"

definition reserved_v4 :: "nat \<Rightarrow> bool" where
  "reserved_v4 x \<longleftrightarrow>
     x < 0x01000000 \<or> 0x7F000000 \<le> x \<and> x < 0x80000000 \<or> 0xA9FE0000 \<le> x \<and> x < 0xA9FF0000 \<or>
     0xC0000000 \<le> x \<and> x < 0xC0000100 \<or> 0xC0000200 \<le> x \<and> x < 0xC0000300 \<or>
     0xC0586300 \<le> x \<and> x < 0xC0586400 \<or> 0xC6120000 \<le> x \<and> x < 0xC6140000 \<or>
     0xC6336400 \<le> x \<and> x < 0xC6336500 \<or> 0xCB007100 \<le> x \<and> x < 0xCB007200 \<or> 0xE0000000 \<le> x"

definition embedded_v4 :: "nat \<Rightarrow> nat option" where
  "embedded_v4 x =
     (if x div 2 ^ 32 = 0xFFFF \<or> x div 2 ^ 32 = 0x0064FF9B * 2 ^ 64 then Some (x mod 2 ^ 32) else None)"

definition unique_local_v6 :: "nat \<Rightarrow> bool" where
  "unique_local_v6 x \<longleftrightarrow> 0xFC * 2 ^ 120 \<le> x \<and> x < 0xFE * 2 ^ 120"

definition metadata_v6 :: nat where
  "metadata_v6 = 0xFD000EC2 * 2 ^ 96 + 0x0254"

definition global_v6 :: "nat \<Rightarrow> bool" where
  "global_v6 x \<longleftrightarrow>
     0x2 * 2 ^ 124 \<le> x \<and> x < 0x4 * 2 ^ 124 \<and>
     \<not> (0x2001 * 2 ^ 112 \<le> x \<and> x < 0x20010200 * 2 ^ 96) \<and>
     \<not> (0x20010DB8 * 2 ^ 96 \<le> x \<and> x < 0x20010DB9 * 2 ^ 96) \<and>
     \<not> (0x2002 * 2 ^ 112 \<le> x \<and> x < 0x2003 * 2 ^ 112) \<and>
     \<not> (0x3FFF * 2 ^ 112 \<le> x \<and> x < 0x3FFF1 * 2 ^ 108)"

lemma classify_ipv4_intervals:
  "classify_ipv4 a =
     (if metadata_v4 (unat a) then CloudMetadata else if private_v4 (unat a) then PrivateNetwork
      else if reserved_v4 (unat a) then Sensitive else Public)"
proof -
  have "a = ipv4_new 169 254 169 254 \<longleftrightarrow> unat a = 0xA9FEA9FE"
    "a = ipv4_new 100 100 100 200 \<longleftrightarrow> unat a = 0x646464C8"
    "a = ipv4_new 168 63 129 16 \<longleftrightarrow> unat a = 0xA83F8110"
    by (simp_all add: ipv4_new_def word_unat_eq_iff)
  then have "metadata_v4 (unat a) \<longleftrightarrow> a = ipv4_new 169 254 169 254 \<or> a = ipv4_new 100 100 100 200 \<or>
      a = ipv4_new 168 63 129 16" by (simp only: metadata_v4_def)
  moreover have "0xE0000000 \<le> unat a \<longleftrightarrow>
      (0xE0000000 \<le> unat a \<and> unat a < 0xF0000000) \<or> (0xF0000000 \<le> unat a \<and> unat a < 0x100000000)"
    using unsigned_less [of a] by auto
  ultimately show ?thesis
    unfolding classify_ipv4_def ipv4_prefix_bounds private_v4_def reserved_v4_def by presburger
qed

lemma unat_low_word: "unat (ucast (a :: u128) :: u32) = unat a mod 2 ^ 32"
  by (simp add: unsigned_ucast_eq take_bit_eq_mod)

lemma to_ipv4_mapped_iff:
  "to_ipv4_mapped a = (if unat a div 2 ^ 32 = 0xFFFF then Some (of_nat (unat a mod 2 ^ 32)) else None)"
proof -
  have "drop_bit 32 a = 0xFFFF \<longleftrightarrow> unat a div 2 ^ 32 = 0xFFFF"
    by (simp add: word_unat_eq_iff unat_drop_bit)
  moreover have "ucast a = (of_nat (unat a mod 2 ^ 32) :: u32)"
    by (simp add: word_unat_eq_iff unat_low_word unat_of_nat)
  ultimately show ?thesis by (simp add: to_ipv4_mapped_def)
qed

lemma embedded_v4_iff:
  "embedded_v4 (unat a) =
     (case to_ipv4_mapped a of Some v \<Rightarrow> Some (unat v)
      | None \<Rightarrow> if ipv6_in_prefix a (ipv6_new [0x0064, 0xff9b, 0, 0, 0, 0, 0, 0]) 96
                then Some (unat (ucast a :: u32)) else None)"
proof -
  have "unat a div 2 ^ 32 = 0x0064FF9B * 2 ^ 64 \<longleftrightarrow>
      0x0064ff9b * 2 ^ 96 \<le> unat a \<and> unat a < 0x0064ff9b * 2 ^ 96 + 2 ^ 32"
    by (simp add: div_eq_interval)
  moreover have "unat (of_nat (unat a mod 2 ^ 32) :: u32) = unat a mod 2 ^ 32"
    by (simp add: unat_of_nat)
  ultimately show ?thesis
    unfolding embedded_v4_def to_ipv4_mapped_iff ipv6_prefix_bounds unat_low_word by simp
qed

lemma not_global_iff:
  "\<not> global_v6 (unat a) \<longleftrightarrow>
     a = 0 \<or> a = 1 \<or> ipv6_in_prefix a 0 96 \<or>
     ipv6_in_prefix a (ipv6_new [0x0064, 0xff9b, 0x0001, 0, 0, 0, 0, 0]) 48 \<or>
     ipv6_in_prefix a (ipv6_new [0x0100, 0, 0, 0, 0, 0, 0, 0]) 64 \<or>
     ipv6_in_prefix a (ipv6_new [0x2001, 0, 0, 0, 0, 0, 0, 0]) 23 \<or>
     ipv6_in_prefix a (ipv6_new [0x2001, 0x0db8, 0, 0, 0, 0, 0, 0]) 32 \<or>
     ipv6_in_prefix a (ipv6_new [0x2002, 0, 0, 0, 0, 0, 0, 0]) 16 \<or>
     ipv6_in_prefix a (ipv6_new [0x3fff, 0, 0, 0, 0, 0, 0, 0]) 20 \<or>
     ipv6_in_prefix a (ipv6_new [0x5f00, 0, 0, 0, 0, 0, 0, 0]) 16 \<or>
     ipv6_in_prefix a (ipv6_new [0xfe80, 0, 0, 0, 0, 0, 0, 0]) 10 \<or>
     ipv6_in_prefix a (ipv6_new [0xfec0, 0, 0, 0, 0, 0, 0, 0]) 10 \<or>
     ipv6_in_prefix a (ipv6_new [0xff00, 0, 0, 0, 0, 0, 0, 0]) 8 \<or>
     \<not> ipv6_in_prefix a (ipv6_new [0x2000, 0, 0, 0, 0, 0, 0, 0]) 3"
proof -
  have "a = 0 \<longleftrightarrow> unat a = 0" "a = 1 \<longleftrightarrow> unat a = 1"
    by (simp_all add: word_unat_eq_iff)
  then show ?thesis
    unfolding global_v6_def ipv6_prefix_bounds by (simp only:) auto
qed

lemma classify_ipv6_intervals:
  "classify_ipv6 a =
     (case embedded_v4 (unat a) of
        Some v \<Rightarrow> classify_ipv4 (of_nat v)
      | None \<Rightarrow>
          if unat a = metadata_v6 then CloudMetadata
          else if unique_local_v6 (unat a) then PrivateNetwork
          else if global_v6 (unat a) then Public else Sensitive)"
proof -
  have meta: "a = ipv6_new [0xfd00, 0x0ec2, 0, 0, 0, 0, 0, 0x0254] \<longleftrightarrow> unat a = metadata_v6"
    by (simp add: ipv6_new_def word_unat_eq_iff metadata_v6_def)
  have ula: "ipv6_in_prefix a (ipv6_new [0xfc00, 0, 0, 0, 0, 0, 0, 0]) 7 \<longleftrightarrow> unique_local_v6 (unat a)"
    by (simp only: ipv6_prefix_bounds unique_local_v6_def)
  show ?thesis
    unfolding classify_ipv6_def embedded_v4_iff meta ula not_global_iff [symmetric]
    by (simp split: option.split)
qed

section \<open>Properties\<close>

text \<open>
  C17. For IPv4 the policy is exactly the address plan: the three metadata addresses are refused
  under every policy (also the one inside the shared address space), private addresses pass only
  when the policy allows them, and of the rest exactly the addresses outside the reserved,
  loopback, link-local, documentation, benchmarking and multicast intervals pass.
\<close>

theorem egress_ipv4_exact:
  "validate_ip policy (V4 a) =
     (if metadata_v4 (unat a) then Err CloudMetadataDenied
      else if private_v4 (unat a)
      then (if ep_allow_private_networks policy then Ok () else Err PrivateNetworkDenied)
      else if reserved_v4 (unat a) then Err SensitiveAddressDenied else Ok ())"
  by (simp add: validate_ip_def classify_ip_def classify_ipv4_intervals)

text \<open>
  C18. No IPv6 spelling bypasses the IPv4 rules: an IPv4-mapped or NAT64 address gets exactly the
  answer of the IPv4 address inside it. Any other IPv6 address passes only if it is a unique local
  address (other than the metadata one) under a policy that allows private networks, or lies in
  \<open>2000::/3\<close> outside the protocol-assignment, documentation and 6to4 blocks.
\<close>

theorem egress_ipv6_no_bypass:
  "validate_ip policy (V6 a) =
     (case embedded_v4 (unat a) of
        Some v \<Rightarrow> validate_ip policy (V4 (of_nat v))
      | None \<Rightarrow>
          if unat a = metadata_v6 then Err CloudMetadataDenied
          else if unique_local_v6 (unat a)
          then (if ep_allow_private_networks policy then Ok () else Err PrivateNetworkDenied)
          else if global_v6 (unat a) then Ok () else Err SensitiveAddressDenied)"
  by (simp add: validate_ip_def classify_ip_def classify_ipv6_intervals split: option.split)

end
