(* ===== verification/Ha_Coordination.thy ===== *)
theory Ha_Coordination
  imports Port_Mapping "HOL-Library.Product_Lexorder" "HOL-Library.List_Lexorder"
begin

text \<open>
  Coordination of several server instances (\<open>linklake-server/src/ha_coordination.rs\<close>): member
  leases, the leader row and the fencing token every protected write carries. The database is a
  record of the tables the coordination modules share; an operation is one immediate transaction,
  so it either returns an error and leaves the database alone, or returns its answer with the new
  database. The clock readings of a transaction (\<open>unixepoch('now')\<close>) are arguments. The SQLite
  branch of each operation is modelled; the PostgreSQL branch runs the same steps under row locks.
  The JSON library is the parameter \<open>json\<close>.
\<close>

section \<open>Tables\<close>

type_synonym unix = nat
type_synonym token = nat

record ha_member =
  hm_instance_id :: str
  hm_incarnation_id :: str
  hm_started :: unix
  hm_last_seen :: unix
  hm_lease_until :: unix
  hm_metadata_json :: str

record leadership_lease =
  ll_instance_id :: str
  ll_incarnation_id :: str
  ll_fencing_token :: token
  ll_acquired :: unix
  ll_renewed :: unix
  ll_lease_until :: unix

datatype public_port_protocol = Tcp | Udp

record public_port_lease =
  pl_protocol :: public_port_protocol
  pl_public_port :: port
  pl_lease_id :: uuid
  pl_owner_instance_id :: str
  pl_owner_incarnation_id :: str
  pl_fencing_token :: token
  pl_policy_id :: uuid
  pl_acquired :: unix
  pl_renewed :: unix
  pl_lease_until :: unix

record job_lease =
  jl_job_key :: str
  jl_job_kind :: str
  jl_lease_id :: uuid
  jl_owner_instance_id :: str
  jl_owner_incarnation_id :: str
  jl_fencing_token :: token
  jl_acquired :: unix
  jl_renewed :: unix
  jl_lease_until :: unix
  jl_last_completed :: "unix option"
  jl_last_error_code :: "str option"

record ha_db =
  db_members :: "(str, ha_member) hashmap"
  db_next_token :: token
  db_leader :: "leadership_lease option"
  db_ports :: "(public_port_protocol \<times> port, public_port_lease) hashmap"
  db_jobs :: "(str, job_lease) hashmap"

text \<open>The tables as the schema creates them.\<close>

definition initial_db :: ha_db where
  "initial_db = \<lparr> db_members = [], db_next_token = 1, db_leader = None, db_ports = [], db_jobs = [] \<rparr>"

record ha_coordinator =
  co_instance_id :: str
  co_incarnation_id :: str
  co_metadata_json :: str
  co_member_lease_seconds :: nat
  co_leader_lease_seconds :: nat

datatype ha_error =
    InstanceIdRequired
  | InstanceIdTooLong
  | InstanceIdControlCharacter
  | MetadataTooLong
  | MetadataInvalidJson
  | MetadataNotObject
  | LeaseTooShort
  | LeaseTooLong
  | LeaderLeaseExceedsMemberLease
  | AnotherIncarnationActive
  | MemberDisappeared
  | MemberLeaseRequired
  | ValueExceedsInteger
  | TokenNotPositive
  | SequenceOverflow
  | StaleFence
  | PortOutOfRange
  | NewerFencingToken
  | TokenReusedAcrossSessions
  | LeaseDisappeared
  | IdentifierRequired
  | IdentifierTooLong
  | IdentifierControlCharacter
  | JobKindMismatch
  | StaleJobLease

text \<open>What the coordinator uses of the JSON library.\<close>

record json_lib =
  js_valid :: "str \<Rightarrow> bool"
  js_is_object :: "str \<Rightarrow> bool"
  js_normalize :: "str \<Rightarrow> str"

section \<open>Validation\<close>

definition MAX_INSTANCE_ID_BYTES :: nat where
  "MAX_INSTANCE_ID_BYTES = 128"

definition MAX_METADATA_JSON_BYTES :: nat where
  "MAX_METADATA_JSON_BYTES = 16 * 1024"

definition MAX_MEMBER_LEASE_SECONDS :: nat where
  "MAX_MEMBER_LEASE_SECONDS = 5 * 60"

definition MAX_LEADER_LEASE_SECONDS :: nat where
  "MAX_LEADER_LEASE_SECONDS = 2 * 60"

definition EXPIRED_LEASE_BATCH_SIZE :: nat where
  "EXPIRED_LEASE_BATCH_SIZE = 128"

definition i64_max :: nat where
  "i64_max = 2 ^ 63 - 1"

definition as_i64 :: "nat \<Rightarrow> ha_error + unit" where
  "as_i64 v = check (v \<le> i64_max) ValueExceedsInteger"

definition validate_instance_id :: "str \<Rightarrow> ha_error + unit" where
  "validate_instance_id i =
     (if i = [] then Err InstanceIdRequired
      else if len i > MAX_INSTANCE_ID_BYTES then Err InstanceIdTooLong
      else check (\<not> list_ex is_control i) InstanceIdControlCharacter)"

definition validate_metadata_json :: "json_lib \<Rightarrow> str \<Rightarrow> ha_error + unit" where
  "validate_metadata_json js m =
     (if len m > MAX_METADATA_JSON_BYTES then Err MetadataTooLong
      else if \<not> js_valid js m then Err MetadataInvalidJson
      else check (js_is_object js m) MetadataNotObject)"

definition normalize_metadata_json :: "json_lib \<Rightarrow> str \<Rightarrow> ha_error + str" where
  "normalize_metadata_json js m =
     and_then (validate_metadata_json js m) (\<lambda>_.
       if len (js_normalize js m) > MAX_METADATA_JSON_BYTES then Err MetadataTooLong
       else Ok (js_normalize js m))"

definition lease_seconds :: "nat \<Rightarrow> nat \<Rightarrow> ha_error + nat" where
  "lease_seconds seconds maximum =
     (if seconds < 2 then Err LeaseTooShort
      else if seconds > maximum then Err LeaseTooLong else Ok seconds)"

text \<open>\<open>HaCoordinator::open\<close>, with the generated incarnation id as an argument.\<close>

definition coordinator_open ::
  "json_lib \<Rightarrow> str \<Rightarrow> str \<Rightarrow> str \<Rightarrow> nat \<Rightarrow> nat \<Rightarrow> ha_error + ha_coordinator" where
  "coordinator_open js incarnation instance_id metadata member_lease leader_lease =
     and_then (validate_instance_id (trim instance_id)) (\<lambda>_.
     and_then (normalize_metadata_json js metadata) (\<lambda>metadata.
     and_then (lease_seconds member_lease MAX_MEMBER_LEASE_SECONDS) (\<lambda>member_seconds.
     and_then (lease_seconds leader_lease MAX_LEADER_LEASE_SECONDS) (\<lambda>leader_seconds.
       if leader_seconds > member_seconds then Err LeaderLeaseExceedsMemberLease
       else Ok \<lparr> co_instance_id = trim instance_id, co_incarnation_id = incarnation,
                 co_metadata_json = metadata, co_member_lease_seconds = member_seconds,
                 co_leader_lease_seconds = leader_seconds \<rparr>))))"

section \<open>Members\<close>

definition read_member :: "json_lib \<Rightarrow> str \<Rightarrow> ha_db \<Rightarrow> ha_error + ha_member option" where
  "read_member js i db =
     (case hm_get (db_members db) i of
        None \<Rightarrow> Ok None
      | Some m \<Rightarrow> and_then (validate_metadata_json js (hm_metadata_json m)) (\<lambda>_. Ok (Some m)))"

definition member_is_active :: "str \<Rightarrow> str \<Rightarrow> unix \<Rightarrow> ha_db \<Rightarrow> bool" where
  "member_is_active i inc now db =
     (case hm_get (db_members db) i of
        None \<Rightarrow> False
      | Some m \<Rightarrow> hm_incarnation_id m = inc \<and> hm_lease_until m > now)"

definition write_member :: "json_lib \<Rightarrow> str \<Rightarrow> ha_member \<Rightarrow> ha_db \<Rightarrow> ha_error + ha_member \<times> ha_db" where
  "write_member js i m db =
     and_then (as_i64 (hm_last_seen m)) (\<lambda>_.
     and_then (as_i64 (hm_lease_until m)) (\<lambda>_.
       let db' = db\<lparr> db_members := hm_insert i m (db_members db) \<rparr> in
       and_then (read_member js i db') (\<lambda>r.
         case r of Some m' \<Rightarrow> Ok (m', db') | None \<Rightarrow> Err MemberDisappeared)))"

definition register_or_renew_member ::
  "json_lib \<Rightarrow> ha_coordinator \<Rightarrow> unix \<Rightarrow> ha_db \<Rightarrow> ha_error + ha_member \<times> ha_db" where
  "register_or_renew_member js c now db =
     (let lease_until = saturating_add now (co_member_lease_seconds c);
          fresh = \<lparr> hm_instance_id = co_instance_id c, hm_incarnation_id = co_incarnation_id c,
                    hm_started = now, hm_last_seen = now, hm_lease_until = lease_until,
                    hm_metadata_json = co_metadata_json c \<rparr>
      in and_then (read_member js (co_instance_id c) db) (\<lambda>current.
        case current of
          Some m \<Rightarrow>
            if hm_incarnation_id m = co_incarnation_id c
            then write_member js (co_instance_id c) (m\<lparr> hm_last_seen := now,
                   hm_lease_until := lease_until, hm_metadata_json := co_metadata_json c \<rparr>) db
            else if hm_lease_until m > now then Err AnotherIncarnationActive
            else write_member js (co_instance_id c) fresh db
        | None \<Rightarrow> write_member js (co_instance_id c) fresh db))"

definition active_members :: "unix \<Rightarrow> ha_db \<Rightarrow> ha_member list" where
  "active_members now db =
     map snd (sort_key fst (filter (\<lambda>(i, m). hm_lease_until m > now) (db_members db)))"

text \<open>
  \<open>prune_expired_lease_batch\<close>: the expired rows in the order of the query, at most one batch.
\<close>

definition prune_batch ::
  "('v \<Rightarrow> unix) \<Rightarrow> unix \<Rightarrow> ('k::linorder, 'v) hashmap \<Rightarrow> ('k, 'v) hashmap \<times> nat" where
  "prune_batch until now table =
     (let expired = filter (\<lambda>(k, v). until v \<le> now) table;
          victims = take EXPIRED_LEASE_BATCH_SIZE (sort_key (\<lambda>(k, v). (until v, k)) expired)
      in (filter (\<lambda>(k, v). k \<notin> fst ` set victims) table, length victims))"

definition prune_expired_members :: "unix \<Rightarrow> ha_db \<Rightarrow> nat \<times> ha_db" where
  "prune_expired_members now db =
     (let (members, n) = prune_batch hm_lease_until now (db_members db)
      in (n, db\<lparr> db_members := members \<rparr>))"

text \<open>
  \<open>recover_stale_sqlite_leases\<close>: only the first runtime of the process that holds the exclusive
  lock on the data directory (\<open>claimed\<close>) clears the leases of the process before.
\<close>

definition recover_stale_leases :: "bool \<Rightarrow> ha_db \<Rightarrow> bool \<times> ha_db" where
  "recover_stale_leases claimed db =
     (if \<not> claimed then (False, db)
      else (True, db\<lparr>
        db_members := map (\<lambda>(k, m). (k, m\<lparr> hm_lease_until := 0 \<rparr>)) (db_members db),
        db_leader := map_option (\<lambda>l. l\<lparr> ll_lease_until := 0 \<rparr>) (db_leader db),
        db_ports := map (\<lambda>(k, p). (k, p\<lparr> pl_lease_until := 0 \<rparr>)) (db_ports db),
        db_jobs := map (\<lambda>(k, j). (k, j\<lparr> jl_lease_until := 0 \<rparr>)) (db_jobs db) \<rparr>))"

section \<open>Leadership\<close>

definition is_leader :: "ha_coordinator \<Rightarrow> leadership_lease \<Rightarrow> bool" where
  "is_leader c l \<longleftrightarrow> ll_instance_id l = co_instance_id c \<and> ll_incarnation_id l = co_incarnation_id c"

definition renew_leader ::
  "ha_coordinator \<Rightarrow> token \<Rightarrow> unix \<Rightarrow> ha_db \<Rightarrow> ha_error + leadership_lease option \<times> ha_db" where
  "renew_leader c token now db =
     (let lease_until = saturating_add now (co_leader_lease_seconds c) in
      and_then (as_i64 token) (\<lambda>_. and_then (as_i64 now) (\<lambda>_. and_then (as_i64 lease_until) (\<lambda>_.
        case db_leader db of
          Some l \<Rightarrow>
            if is_leader c l \<and> ll_fencing_token l = token \<and> ll_lease_until l > now
            then let l' = l\<lparr> ll_renewed := now, ll_lease_until := lease_until \<rparr>
                 in Ok (Some l', db\<lparr> db_leader := Some l' \<rparr>)
            else Ok (None, db)
        | None \<Rightarrow> Ok (None, db)))))"

text \<open>
  Taking over: the token is the counter before its increment; the counter overflowing the 64-bit
  integer column makes the transaction fail.
\<close>

definition install_leader ::
  "ha_coordinator \<Rightarrow> unix \<Rightarrow> ha_db \<Rightarrow> ha_error + leadership_lease option \<times> ha_db" where
  "install_leader c now db =
     (let token = db_next_token db; lease_until = saturating_add now (co_leader_lease_seconds c) in
      if Suc token > i64_max then Err SequenceOverflow
      else if token = 0 then Err TokenNotPositive
      else and_then (as_i64 now) (\<lambda>_. and_then (as_i64 lease_until) (\<lambda>_.
        let l = \<lparr> ll_instance_id = co_instance_id c, ll_incarnation_id = co_incarnation_id c,
                  ll_fencing_token = token, ll_acquired = now, ll_renewed = now,
                  ll_lease_until = lease_until \<rparr>
        in Ok (Some l, db\<lparr> db_next_token := Suc token, db_leader := Some l \<rparr>))))"

definition try_acquire_leadership ::
  "ha_coordinator \<Rightarrow> unix \<Rightarrow> ha_db \<Rightarrow> ha_error + leadership_lease option \<times> ha_db" where
  "try_acquire_leadership c now db =
     and_then (as_i64 now) (\<lambda>_.
       if \<not> member_is_active (co_instance_id c) (co_incarnation_id c) now db then Err MemberLeaseRequired
       else case db_leader db of
         Some l \<Rightarrow>
           (let current_member_active = member_is_active (ll_instance_id l) (ll_incarnation_id l) now db in
            if current_member_active \<and> is_leader c l \<and> ll_lease_until l > now
            then renew_leader c (ll_fencing_token l) now db
            else if current_member_active \<and> ll_lease_until l > now then Ok (None, db)
            else install_leader c now db)
       | None \<Rightarrow> install_leader c now db)"

definition renew_leadership ::
  "ha_coordinator \<Rightarrow> token \<Rightarrow> unix \<Rightarrow> ha_db \<Rightarrow> ha_error + leadership_lease option \<times> ha_db" where
  "renew_leadership c token now db =
     and_then (as_i64 now) (\<lambda>_.
       if \<not> member_is_active (co_instance_id c) (co_incarnation_id c) now db then Ok (None, db)
       else renew_leader c token now db)"

definition current_leader :: "unix \<Rightarrow> ha_db \<Rightarrow> leadership_lease option" where
  "current_leader now db =
     (case db_leader db of
        Some l \<Rightarrow>
          if ll_lease_until l > now \<and> member_is_active (ll_instance_id l) (ll_incarnation_id l) now db
          then Some l else None
      | None \<Rightarrow> None)"

text \<open>The fence every protected transaction passes first.\<close>

definition assert_fence :: "ha_coordinator \<Rightarrow> token \<Rightarrow> unix \<Rightarrow> ha_db \<Rightarrow> ha_error + unit" where
  "assert_fence c token now db =
     (if token = 0 then Err TokenNotPositive
      else and_then (as_i64 token) (\<lambda>_.
        check (case db_leader db of
                 Some l \<Rightarrow>
                   is_leader c l \<and> ll_fencing_token l = token \<and> ll_lease_until l > now \<and>
                   member_is_active (ll_instance_id l) (ll_incarnation_id l) now db
               | None \<Rightarrow> False) StaleFence))"

end
