(* ===== verification/Port_Ownership.thy ===== *)
theory Port_Ownership
  imports Ha_Coordination
begin

text \<open>
  Cross-instance ownership of public TCP and UDP ports
  (\<open>linklake-server/src/public_port_ownership.rs\<close>). A lease row is bound to its owner, its lease
  id, its policy and the fencing token of the leadership it was acquired under. The transactions
  read the clock twice, once for the fence and once for the lease; both readings are arguments, and
  so is the fresh lease id.
\<close>

record public_port_ownership =
  po_coordinator :: ha_coordinator
  po_lease_seconds :: nat

definition ownership_open :: "ha_coordinator \<Rightarrow> nat \<Rightarrow> ha_error + public_port_ownership" where
  "ownership_open c seconds =
     and_then (lease_seconds seconds (5 * 60)) (\<lambda>s. Ok \<lparr> po_coordinator = c, po_lease_seconds = s \<rparr>)"

definition validate_port_and_fence :: "port \<Rightarrow> token \<Rightarrow> ha_error + unit" where
  "validate_port_and_fence p token =
     (if p = 0 then Err PortOutOfRange else check (token > 0) TokenNotPositive)"

datatype claim_mode = Conflict | Fresh

definition port_claim_mode ::
  "public_port_lease option \<Rightarrow> str \<Rightarrow> str \<Rightarrow> token \<Rightarrow> unix \<Rightarrow> ha_error + claim_mode" where
  "port_claim_mode current i inc token now =
     (case current of
        None \<Rightarrow> Ok Fresh
      | Some l \<Rightarrow>
          if pl_fencing_token l > token then Err NewerFencingToken
          else if pl_fencing_token l < token then Ok Fresh
          else if \<not> (pl_owner_instance_id l = i \<and> pl_owner_incarnation_id l = inc)
          then Err TokenReusedAcrossSessions
          else if pl_lease_until l \<le> now then Ok Fresh
          else Ok Conflict)"

definition port_acquire ::
  "public_port_ownership \<Rightarrow> public_port_protocol \<Rightarrow> port \<Rightarrow> uuid \<Rightarrow> token \<Rightarrow> uuid \<Rightarrow> unix \<Rightarrow> unix \<Rightarrow> ha_db \<Rightarrow>
     ha_error + public_port_lease option \<times> ha_db" where
  "port_acquire po protocol p policy token lease_id now fence_now db =
     (let c = po_coordinator po in
      and_then (validate_port_and_fence p token) (\<lambda>_.
      and_then (assert_fence c token fence_now db) (\<lambda>_.
      and_then (port_claim_mode (hm_get (db_ports db) (protocol, p))
          (co_instance_id c) (co_incarnation_id c) token now) (\<lambda>mode.
        case mode of
          Conflict \<Rightarrow> Ok (None, db)
        | Fresh \<Rightarrow>
            let lease_until = saturating_add now (po_lease_seconds po) in
            and_then (as_i64 token) (\<lambda>_. and_then (as_i64 now) (\<lambda>_. and_then (as_i64 lease_until) (\<lambda>_.
              let l = \<lparr> pl_protocol = protocol, pl_public_port = p, pl_lease_id = lease_id,
                        pl_owner_instance_id = co_instance_id c,
                        pl_owner_incarnation_id = co_incarnation_id c, pl_fencing_token = token,
                        pl_policy_id = policy, pl_acquired = now, pl_renewed = now,
                        pl_lease_until = lease_until \<rparr>;
                  db' = db\<lparr> db_ports := hm_insert (protocol, p) l (db_ports db) \<rparr>
              in case hm_get (db_ports db') (protocol, p) of
                   Some l' \<Rightarrow> Ok (Some l', db')
                 | None \<Rightarrow> Err LeaseDisappeared)))))))"

text \<open>The identity a renewal or release must present.\<close>

definition port_lease_matches ::
  "ha_coordinator \<Rightarrow> uuid \<Rightarrow> uuid \<Rightarrow> token \<Rightarrow> public_port_lease \<Rightarrow> bool" where
  "port_lease_matches c policy lease_id token l \<longleftrightarrow>
     pl_lease_id l = lease_id \<and> pl_owner_instance_id l = co_instance_id c \<and>
     pl_owner_incarnation_id l = co_incarnation_id c \<and> pl_fencing_token l = token \<and> pl_policy_id l = policy"

definition port_renew ::
  "public_port_ownership \<Rightarrow> public_port_protocol \<Rightarrow> port \<Rightarrow> uuid \<Rightarrow> uuid \<Rightarrow> token \<Rightarrow> unix \<Rightarrow> unix \<Rightarrow> ha_db \<Rightarrow>
     ha_error + public_port_lease option \<times> ha_db" where
  "port_renew po protocol p policy lease_id token fence_now now db =
     (let c = po_coordinator po; lease_until = saturating_add now (po_lease_seconds po) in
      and_then (validate_port_and_fence p token) (\<lambda>_.
      and_then (assert_fence c token fence_now db) (\<lambda>_.
      and_then (as_i64 token) (\<lambda>_. and_then (as_i64 now) (\<lambda>_. and_then (as_i64 lease_until) (\<lambda>_.
        case hm_get (db_ports db) (protocol, p) of
          Some l \<Rightarrow>
            if port_lease_matches c policy lease_id token l \<and> pl_lease_until l > now
            then let l' = l\<lparr> pl_renewed := now, pl_lease_until := lease_until \<rparr>
                 in Ok (Some l', db\<lparr> db_ports := hm_insert (protocol, p) l' (db_ports db) \<rparr>)
            else Ok (None, db)
        | None \<Rightarrow> Ok (None, db)))))))"

definition port_release ::
  "public_port_ownership \<Rightarrow> public_port_protocol \<Rightarrow> port \<Rightarrow> uuid \<Rightarrow> uuid \<Rightarrow> token \<Rightarrow> unix \<Rightarrow> ha_db \<Rightarrow>
     ha_error + bool \<times> ha_db" where
  "port_release po protocol p policy lease_id token fence_now db =
     (let c = po_coordinator po in
      and_then (validate_port_and_fence p token) (\<lambda>_.
      and_then (assert_fence c token fence_now db) (\<lambda>_.
      and_then (as_i64 token) (\<lambda>_.
        case hm_get (db_ports db) (protocol, p) of
          Some l \<Rightarrow>
            if port_lease_matches c policy lease_id token l
            then Ok (True, db\<lparr> db_ports := hm_remove (protocol, p) (db_ports db) \<rparr>)
            else Ok (False, db)
        | None \<Rightarrow> Ok (False, db)))))"

text \<open>
  \<open>active\<close> joins the leases with the leader and member rows; \<open>'tcp'\<close> sorts before \<open>'udp'\<close>.
\<close>

definition protocol_rank :: "public_port_protocol \<Rightarrow> nat" where
  "protocol_rank protocol = (case protocol of Tcp \<Rightarrow> 0 | Udp \<Rightarrow> 1)"

definition port_lease_active :: "unix \<Rightarrow> ha_db \<Rightarrow> public_port_lease \<Rightarrow> bool" where
  "port_lease_active now db l \<longleftrightarrow>
     pl_lease_until l > now \<and>
     (case current_leader now db of
        Some leader \<Rightarrow>
          ll_instance_id leader = pl_owner_instance_id l \<and>
          ll_incarnation_id leader = pl_owner_incarnation_id l \<and>
          ll_fencing_token leader = pl_fencing_token l
      | None \<Rightarrow> False)"

definition ports_active :: "unix \<Rightarrow> ha_db \<Rightarrow> public_port_lease list" where
  "ports_active now db =
     map snd (sort_key (\<lambda>((protocol, p), l). (protocol_rank protocol, p))
       (filter (\<lambda>(k, l). port_lease_active now db l) (db_ports db)))"

instantiation public_port_protocol :: linorder
begin

definition less_eq_public_port_protocol :: "public_port_protocol \<Rightarrow> public_port_protocol \<Rightarrow> bool" where
  "less_eq_public_port_protocol a b \<longleftrightarrow> protocol_rank a \<le> protocol_rank b"

definition less_public_port_protocol :: "public_port_protocol \<Rightarrow> public_port_protocol \<Rightarrow> bool" where
  "less_public_port_protocol a b \<longleftrightarrow> protocol_rank a < protocol_rank b"

instance
  by standard (auto simp: less_eq_public_port_protocol_def less_public_port_protocol_def
      protocol_rank_def split: public_port_protocol.splits)

end

definition ports_prune_expired :: "unix \<Rightarrow> ha_db \<Rightarrow> nat \<times> ha_db" where
  "ports_prune_expired now db =
     (let (ports, n) = prune_batch pl_lease_until now (db_ports db)
      in (n, db\<lparr> db_ports := ports \<rparr>))"

end
