(* ===== verification/Job_Leases.thy ===== *)
theory Job_Leases
  imports Port_Ownership
begin

text \<open>
  Leases for background jobs that only one instance may run
  (\<open>linklake-server/src/job_leases.rs\<close>): acquisition, renewal, completion or failure, and the check
  a job makes inside the transaction that writes its result.
\<close>

record job_leases =
  jo_coordinator :: ha_coordinator
  jo_lease_seconds :: nat

definition MAX_JOB_KEY_BYTES :: nat where
  "MAX_JOB_KEY_BYTES = 256"

definition MAX_JOB_KIND_BYTES :: nat where
  "MAX_JOB_KIND_BYTES = 64"

definition MAX_ERROR_CODE_BYTES :: nat where
  "MAX_ERROR_CODE_BYTES = 128"

definition jobs_open :: "ha_coordinator \<Rightarrow> nat \<Rightarrow> ha_error + job_leases" where
  "jobs_open c seconds =
     and_then (lease_seconds seconds (5 * 60)) (\<lambda>s. Ok \<lparr> jo_coordinator = c, jo_lease_seconds = s \<rparr>)"

definition renewal_interval :: "job_leases \<Rightarrow> nat" where
  "renewal_interval jo = max (jo_lease_seconds jo div 3) 1"

definition normalize_identifier :: "str \<Rightarrow> nat \<Rightarrow> ha_error + str" where
  "normalize_identifier raw maximum =
     (let value = trim raw in
      if value = [] then Err IdentifierRequired
      else if len value > maximum then Err IdentifierTooLong
      else if list_ex is_control value then Err IdentifierControlCharacter
      else Ok value)"

definition job_claim_mode ::
  "job_lease option \<Rightarrow> str \<Rightarrow> str \<Rightarrow> str \<Rightarrow> token \<Rightarrow> unix \<Rightarrow> ha_error + claim_mode" where
  "job_claim_mode current kind i inc token now =
     (case current of
        None \<Rightarrow> Ok Fresh
      | Some l \<Rightarrow>
          if jl_job_kind l \<noteq> kind then Err JobKindMismatch
          else if jl_fencing_token l > token then Err NewerFencingToken
          else if jl_fencing_token l < token then Ok Fresh
          else if \<not> (jl_owner_instance_id l = i \<and> jl_owner_incarnation_id l = inc)
          then Err TokenReusedAcrossSessions
          else if jl_lease_until l \<le> now then Ok Fresh
          else Ok Conflict)"

text \<open>
  The upsert of an acquisition: an existing row keeps its kind and the time of its last
  completion.
\<close>

definition job_row ::
  "ha_coordinator \<Rightarrow> str \<Rightarrow> str \<Rightarrow> uuid \<Rightarrow> token \<Rightarrow> unix \<Rightarrow> unix \<Rightarrow> job_lease option \<Rightarrow> job_lease" where
  "job_row c key kind lease_id token now lease_until current =
     (let l = \<lparr> jl_job_key = key, jl_job_kind = kind, jl_lease_id = lease_id,
                jl_owner_instance_id = co_instance_id c, jl_owner_incarnation_id = co_incarnation_id c,
                jl_fencing_token = token, jl_acquired = now, jl_renewed = now,
                jl_lease_until = lease_until, jl_last_completed = None, jl_last_error_code = None \<rparr>
      in case current of
           None \<Rightarrow> l
         | Some old \<Rightarrow> l\<lparr> jl_job_kind := jl_job_kind old, jl_last_completed := jl_last_completed old \<rparr>)"

definition job_acquire ::
  "job_leases \<Rightarrow> str \<Rightarrow> str \<Rightarrow> token \<Rightarrow> uuid \<Rightarrow> unix \<Rightarrow> unix \<Rightarrow> ha_db \<Rightarrow>
     ha_error + job_lease option \<times> ha_db" where
  "job_acquire jo raw_key raw_kind token lease_id fence_now now db =
     (let c = jo_coordinator jo in
      and_then (normalize_identifier raw_key MAX_JOB_KEY_BYTES) (\<lambda>key.
      and_then (normalize_identifier raw_kind MAX_JOB_KIND_BYTES) (\<lambda>kind.
      if token = 0 then Err TokenNotPositive
      else and_then (assert_fence c token fence_now db) (\<lambda>_.
      and_then (job_claim_mode (hm_get (db_jobs db) key) kind
          (co_instance_id c) (co_incarnation_id c) token now) (\<lambda>mode.
        case mode of
          Conflict \<Rightarrow> Ok (None, db)
        | Fresh \<Rightarrow>
            let lease_until = saturating_add now (jo_lease_seconds jo) in
            and_then (as_i64 token) (\<lambda>_. and_then (as_i64 now) (\<lambda>_. and_then (as_i64 lease_until) (\<lambda>_.
              let db' = db\<lparr> db_jobs := hm_insert key
                    (job_row c key kind lease_id token now lease_until (hm_get (db_jobs db) key)) (db_jobs db) \<rparr>
              in case hm_get (db_jobs db') key of
                   Some l \<Rightarrow> Ok (Some l, db')
                 | None \<Rightarrow> Err LeaseDisappeared))))))))"

definition job_lease_matches ::
  "ha_coordinator \<Rightarrow> str \<Rightarrow> uuid \<Rightarrow> token \<Rightarrow> unix \<Rightarrow> job_lease \<Rightarrow> bool" where
  "job_lease_matches c kind lease_id token now l \<longleftrightarrow>
     jl_job_kind l = kind \<and> jl_lease_id l = lease_id \<and> jl_owner_instance_id l = co_instance_id c \<and>
     jl_owner_incarnation_id l = co_incarnation_id c \<and> jl_fencing_token l = token \<and> jl_lease_until l > now"

definition job_renew ::
  "job_leases \<Rightarrow> str \<Rightarrow> str \<Rightarrow> uuid \<Rightarrow> token \<Rightarrow> unix \<Rightarrow> unix \<Rightarrow> ha_db \<Rightarrow>
     ha_error + job_lease option \<times> ha_db" where
  "job_renew jo raw_key raw_kind lease_id token fence_now now db =
     (let c = jo_coordinator jo; lease_until = saturating_add now (jo_lease_seconds jo) in
      and_then (normalize_identifier raw_key MAX_JOB_KEY_BYTES) (\<lambda>key.
      and_then (normalize_identifier raw_kind MAX_JOB_KIND_BYTES) (\<lambda>kind.
      if token = 0 then Err TokenNotPositive
      else and_then (assert_fence c token fence_now db) (\<lambda>_.
      and_then (as_i64 token) (\<lambda>_. and_then (as_i64 now) (\<lambda>_. and_then (as_i64 lease_until) (\<lambda>_.
        case hm_get (db_jobs db) key of
          Some l \<Rightarrow>
            if job_lease_matches c kind lease_id token now l
            then let l' = l\<lparr> jl_renewed := now, jl_lease_until := lease_until \<rparr>
                 in Ok (Some l', db\<lparr> db_jobs := hm_insert key l' (db_jobs db) \<rparr>)
            else Ok (None, db)
        | None \<Rightarrow> Ok (None, db))))))))"

definition job_finish ::
  "job_leases \<Rightarrow> str \<Rightarrow> str \<Rightarrow> uuid \<Rightarrow> token \<Rightarrow> str option \<Rightarrow> unix \<Rightarrow> unix \<Rightarrow> ha_db \<Rightarrow>
     ha_error + bool \<times> ha_db" where
  "job_finish jo raw_key raw_kind lease_id token error_code fence_now now db =
     (let c = jo_coordinator jo in
      and_then (normalize_identifier raw_key MAX_JOB_KEY_BYTES) (\<lambda>key.
      and_then (normalize_identifier raw_kind MAX_JOB_KIND_BYTES) (\<lambda>kind.
      if token = 0 then Err TokenNotPositive
      else and_then (assert_fence c token fence_now db) (\<lambda>_.
      and_then (as_i64 token) (\<lambda>_. and_then (as_i64 now) (\<lambda>_.
        case hm_get (db_jobs db) key of
          Some l \<Rightarrow>
            if job_lease_matches c kind lease_id token now l
            then let l' = l\<lparr> jl_renewed := now, jl_lease_until := now,
                     jl_last_completed := (if error_code = None then Some now else jl_last_completed l),
                     jl_last_error_code := error_code \<rparr>
                 in Ok (True, db\<lparr> db_jobs := hm_insert key l' (db_jobs db) \<rparr>)
            else Ok (False, db)
        | None \<Rightarrow> Ok (False, db)))))))"

definition job_complete ::
  "job_leases \<Rightarrow> str \<Rightarrow> str \<Rightarrow> uuid \<Rightarrow> token \<Rightarrow> unix \<Rightarrow> unix \<Rightarrow> ha_db \<Rightarrow> ha_error + bool \<times> ha_db" where
  "job_complete jo key kind lease_id token fence_now now db =
     job_finish jo key kind lease_id token None fence_now now db"

definition job_fail ::
  "job_leases \<Rightarrow> str \<Rightarrow> str \<Rightarrow> uuid \<Rightarrow> token \<Rightarrow> str \<Rightarrow> unix \<Rightarrow> unix \<Rightarrow> ha_db \<Rightarrow> ha_error + bool \<times> ha_db" where
  "job_fail jo key kind lease_id token error_code fence_now now db =
     and_then (normalize_identifier error_code MAX_ERROR_CODE_BYTES) (\<lambda>code.
       job_finish jo key kind lease_id token (Some code) fence_now now db)"

text \<open>\<open>assert_sqlite_transaction_lease\<close>: the check inside the transaction that commits the work.\<close>

definition assert_job_lease :: "job_leases \<Rightarrow> job_lease \<Rightarrow> unix \<Rightarrow> unix \<Rightarrow> ha_db \<Rightarrow> ha_error + unit" where
  "assert_job_lease jo lease fence_now now db =
     and_then (assert_fence (jo_coordinator jo) (jl_fencing_token lease) fence_now db) (\<lambda>_.
       check (case hm_get (db_jobs db) (jl_job_key lease) of
                Some l \<Rightarrow> job_lease_matches (jo_coordinator jo) (jl_job_kind lease) (jl_lease_id lease)
                  (jl_fencing_token lease) now l
              | None \<Rightarrow> False) StaleJobLease)"

definition job_lease_active :: "unix \<Rightarrow> ha_db \<Rightarrow> job_lease \<Rightarrow> bool" where
  "job_lease_active now db l \<longleftrightarrow>
     jl_lease_until l > now \<and>
     (case current_leader now db of
        Some leader \<Rightarrow>
          ll_instance_id leader = jl_owner_instance_id l \<and>
          ll_incarnation_id leader = jl_owner_incarnation_id l \<and>
          ll_fencing_token leader = jl_fencing_token l
      | None \<Rightarrow> False)"

definition jobs_active :: "unix \<Rightarrow> ha_db \<Rightarrow> job_lease list" where
  "jobs_active now db = map snd (sort_key fst (filter (\<lambda>(k, l). job_lease_active now db l) (db_jobs db)))"

end
