(* ===== verification/Ha_System.thy ===== *)
theory Ha_System
  imports Job_Leases
begin

text \<open>
  The coordination database under any interleaving of the transactions of any number of server
  processes. Every operation is summarised by the few ways it can change the database
  (\<open>ha_change\<close>); the invariant and the monotonicity of fencing are proved once per kind of
  change.
\<close>

section \<open>Transactions as steps\<close>

datatype ha_op =
    Register ha_coordinator unix
  | TryAcquire ha_coordinator unix
  | RenewLeadership ha_coordinator token unix
  | PruneMembers unix
  | Recover bool
  | PortAcquire public_port_ownership public_port_protocol port uuid token uuid unix unix
  | PortRenew public_port_ownership public_port_protocol port uuid uuid token unix unix
  | PortRelease public_port_ownership public_port_protocol port uuid uuid token unix
  | PrunePorts unix
  | JobAcquire job_leases str str token uuid unix unix
  | JobRenew job_leases str str uuid token unix unix
  | JobFinish job_leases str str uuid token "str option" unix unix

datatype ha_result =
    Failed ha_error
  | MemberIs ha_member
  | LeaderIs "leadership_lease option"
  | Pruned nat
  | Recovered bool
  | PortIs "public_port_lease option"
  | Released bool
  | JobIs "job_lease option"
  | Finished bool

definition commit :: "('a \<Rightarrow> ha_result) \<Rightarrow> ha_db \<Rightarrow> ha_error + 'a \<times> ha_db \<Rightarrow> (ha_db \<times> ha_result) option" where
  "commit f db r = Some (case r of Inl e \<Rightarrow> (db, Failed e) | Inr (x, db') \<Rightarrow> (db', f x))"

fun ha_step :: "json_lib \<Rightarrow> ha_op \<Rightarrow> ha_db \<Rightarrow> (ha_db \<times> ha_result) option" where
  "ha_step js (Register c now) db = commit MemberIs db (register_or_renew_member js c now db)"
| "ha_step js (TryAcquire c now) db = commit LeaderIs db (try_acquire_leadership c now db)"
| "ha_step js (RenewLeadership c k now) db = commit LeaderIs db (renew_leadership c k now db)"
| "ha_step js (PruneMembers now) db = commit Pruned db (Ok (prune_expired_members now db))"
| "ha_step js (Recover claimed) db = commit Recovered db (Ok (recover_stale_leases claimed db))"
| "ha_step js (PortAcquire po protocol p policy k u now fnow) db =
     commit PortIs db (port_acquire po protocol p policy k u now fnow db)"
| "ha_step js (PortRenew po protocol p policy u k fnow now) db =
     commit PortIs db (port_renew po protocol p policy u k fnow now db)"
| "ha_step js (PortRelease po protocol p policy u k fnow) db =
     commit Released db (port_release po protocol p policy u k fnow db)"
| "ha_step js (PrunePorts now) db = commit Pruned db (Ok (ports_prune_expired now db))"
| "ha_step js (JobAcquire jo key kind k u fnow now) db =
     commit JobIs db (job_acquire jo key kind k u fnow now db)"
| "ha_step js (JobRenew jo key kind u k fnow now) db =
     commit JobIs db (job_renew jo key kind u k fnow now db)"
| "ha_step js (JobFinish jo key kind u k e fnow now) db =
     commit Finished db (job_finish jo key kind u k e fnow now db)"

text \<open>The token a protected write presents.\<close>

fun op_token :: "ha_op \<Rightarrow> token option" where
  "op_token (PortAcquire po protocol p policy k u now fnow) = Some k"
| "op_token (PortRenew po protocol p policy u k fnow now) = Some k"
| "op_token (PortRelease po protocol p policy u k fnow) = Some k"
| "op_token (JobAcquire jo key kind k u fnow now) = Some k"
| "op_token (JobRenew jo key kind u k fnow now) = Some k"
| "op_token (JobFinish jo key kind u k e fnow now) = Some k"
| "op_token _ = None"

section \<open>Kinds of change\<close>

definition port_row_ok :: "leadership_lease \<Rightarrow> public_port_protocol \<times> port \<Rightarrow> public_port_lease \<Rightarrow> bool" where
  "port_row_ok l key p \<longleftrightarrow>
     (pl_protocol p, pl_public_port p) = key \<and> pl_owner_instance_id p = ll_instance_id l \<and>
     pl_owner_incarnation_id p = ll_incarnation_id l \<and> pl_fencing_token p = ll_fencing_token l"

definition job_row_ok :: "leadership_lease \<Rightarrow> str \<Rightarrow> job_lease \<Rightarrow> bool" where
  "job_row_ok l key j \<longleftrightarrow>
     jl_job_key j = key \<and> jl_owner_instance_id j = ll_instance_id l \<and>
     jl_owner_incarnation_id j = ll_incarnation_id l \<and> jl_fencing_token j = ll_fencing_token l"

definition sub_table :: "('k, 'v) hashmap \<Rightarrow> ('k, 'v) hashmap \<Rightarrow> bool" where
  "sub_table m' m \<longleftrightarrow> set m' \<subseteq> set m \<and> (hm_distinct m \<longrightarrow> hm_distinct m')"

definition ha_inv :: "ha_db \<Rightarrow> bool" where
  "ha_inv db \<longleftrightarrow>
     hm_distinct (db_members db) \<and> hm_distinct (db_ports db) \<and> hm_distinct (db_jobs db) \<and>
     0 < db_next_token db \<and> db_next_token db \<le> i64_max \<and>
     (\<forall>l. db_leader db = Some l \<longrightarrow> 0 < ll_fencing_token l \<and> ll_fencing_token l < db_next_token db) \<and>
     (\<forall>key p. (key, p) \<in> set (db_ports db) \<longrightarrow>
        (pl_protocol p, pl_public_port p) = key \<and> pl_fencing_token p < db_next_token db \<and>
        (\<forall>l. db_leader db = Some l \<longrightarrow> ll_fencing_token l = pl_fencing_token p \<longrightarrow> port_row_ok l key p)) \<and>
     (\<forall>key j. (key, j) \<in> set (db_jobs db) \<longrightarrow>
        jl_job_key j = key \<and> jl_fencing_token j < db_next_token db \<and>
        (\<forall>l. db_leader db = Some l \<longrightarrow> ll_fencing_token l = jl_fencing_token j \<longrightarrow> job_row_ok l key j))"

text \<open>A change of the database by one transaction.\<close>

inductive ha_change :: "ha_db \<Rightarrow> ha_db \<Rightarrow> bool" where
  unchanged: "ha_change db db"
| members_changed:
    "(hm_distinct (db_members db) \<longrightarrow> hm_distinct ms) \<Longrightarrow> ha_change db (db\<lparr> db_members := ms \<rparr>)"
| leader_renewed:
    "db_leader db = Some l \<Longrightarrow> ha_change db (db\<lparr> db_leader :=
       Some (l\<lparr> ll_renewed := now, ll_lease_until := until \<rparr>) \<rparr>)"
| leader_installed:
    "ll_fencing_token l = db_next_token db \<Longrightarrow> Suc (db_next_token db) \<le> i64_max \<Longrightarrow>
     ha_change db (db\<lparr> db_next_token := Suc (db_next_token db), db_leader := Some l \<rparr>)"
| port_written:
    "db_leader db = Some l \<Longrightarrow> port_row_ok l key p \<Longrightarrow>
     ha_change db (db\<lparr> db_ports := hm_insert key p (db_ports db) \<rparr>)"
| ports_removed: "sub_table ps (db_ports db) \<Longrightarrow> ha_change db (db\<lparr> db_ports := ps \<rparr>)"
| job_written:
    "db_leader db = Some l \<Longrightarrow> job_row_ok l key j \<Longrightarrow>
     ha_change db (db\<lparr> db_jobs := hm_insert key j (db_jobs db) \<rparr>)"
| recovered: "ha_change db (snd (recover_stale_leases True db))"

lemma assert_fence_ok:
  assumes "assert_fence c k now db = Ok u"
  obtains l where "db_leader db = Some l" "ll_instance_id l = co_instance_id c"
    "ll_incarnation_id l = co_incarnation_id c" "ll_fencing_token l = k" "0 < k" "now < ll_lease_until l"
    "member_is_active (co_instance_id c) (co_incarnation_id c) now db"
  using assms
  by (auto simp: assert_fence_def and_then_ok_iff is_leader_def split: if_splits option.splits)

lemma distinct_filter_keys: "hm_distinct m \<Longrightarrow> hm_distinct (filter P m)"
  by (induction m) auto

lemma prune_sub_table: "sub_table (fst (prune_batch until now m)) m"
  by (auto simp: prune_batch_def Let_def sub_table_def distinct_filter_keys)

lemma sub_table_remove: "sub_table (hm_remove k m) m"
  by (auto simp: sub_table_def AList.delete_eq distinct_filter_keys)

section \<open>Every transaction is one change\<close>

lemma not_Conflict [simp]: "m \<noteq> Conflict \<longleftrightarrow> m = Fresh"
  by (cases m) simp_all

lemma write_member_change: "write_member js i m db = Ok (x, db') \<Longrightarrow> ha_change db db'"
  by (auto simp: write_member_def Let_def and_then_ok_iff split: option.splits intro!: members_changed)

lemma register_change: "register_or_renew_member js c now db = Ok (x, db') \<Longrightarrow> ha_change db db'"
  by (auto simp: register_or_renew_member_def Let_def and_then_ok_iff
      split: option.splits if_splits intro: write_member_change)

lemma renew_leader_change: "renew_leader c k now db = Ok (x, db') \<Longrightarrow> ha_change db db'"
  by (auto simp: renew_leader_def Let_def and_then_ok_iff
      split: option.splits if_splits intro: leader_renewed unchanged)

lemma install_leader_change: "install_leader c now db = Ok (x, db') \<Longrightarrow> ha_change db db'"
  by (auto simp: install_leader_def Let_def and_then_ok_iff split: if_splits intro!: leader_installed)

lemma try_acquire_change: "try_acquire_leadership c now db = Ok (x, db') \<Longrightarrow> ha_change db db'"
  by (auto simp: try_acquire_leadership_def Let_def and_then_ok_iff
      split: option.splits if_splits intro: renew_leader_change install_leader_change unchanged)

lemma renew_leadership_change: "renew_leadership c k now db = Ok (x, db') \<Longrightarrow> ha_change db db'"
  by (auto simp: renew_leadership_def and_then_ok_iff
      split: if_splits intro: renew_leader_change unchanged)

lemma prune_members_change: "prune_expired_members now db = (x, db') \<Longrightarrow> ha_change db db'"
  using prune_sub_table [of hm_lease_until now "db_members db"]
  by (auto simp: prune_expired_members_def sub_table_def split: prod.splits intro!: members_changed)

lemma recover_change: "recover_stale_leases b db = (x, db') \<Longrightarrow> ha_change db db'"
  using recovered [of db] by (cases b) (auto simp: recover_stale_leases_def intro: unchanged)

lemma port_acquire_change:
  assumes "port_acquire po protocol p policy k u now fnow db = Ok (x, db')"
  shows "ha_change db db'"
proof -
  let ?c = "po_coordinator po"
  from assms obtain v where fence: "assert_fence ?c k fnow db = Ok v"
    by (auto simp: port_acquire_def Let_def and_then_ok_iff)
  from fence obtain l where l: "db_leader db = Some l" "ll_instance_id l = co_instance_id ?c"
    "ll_incarnation_id l = co_incarnation_id ?c" "ll_fencing_token l = k" by (rule assert_fence_ok)
  show ?thesis using assms l
    by (auto simp: port_acquire_def Let_def and_then_ok_iff port_row_ok_def
        split: claim_mode.splits option.splits intro!: unchanged port_written)
qed

lemma port_renew_change:
  assumes "port_renew po protocol p policy u k fnow now db = Ok (x, db')" and "ha_inv db"
  shows "ha_change db db'"
proof -
  let ?c = "po_coordinator po"
  from assms(1) obtain v where fence: "assert_fence ?c k fnow db = Ok v"
    by (auto simp: port_renew_def Let_def and_then_ok_iff)
  from fence obtain l where l: "db_leader db = Some l" "ll_instance_id l = co_instance_id ?c"
    "ll_incarnation_id l = co_incarnation_id ?c" "ll_fencing_token l = k" by (rule assert_fence_ok)
  have key: "(pl_protocol q, pl_public_port q) = (protocol, p)"
    if "hm_get (db_ports db) (protocol, p) = Some q" for q
    using assms(2) map_of_SomeD [OF that] by (auto simp: ha_inv_def)
  show ?thesis
    using assms(1) l key
    by (auto simp: port_renew_def Let_def and_then_ok_iff port_row_ok_def port_lease_matches_def
        simp del: map_of_eq_Some_iff split: option.splits if_splits intro!: unchanged port_written)
qed

lemma port_release_change:
  "port_release po protocol p policy u k fnow db = Ok (x, db') \<Longrightarrow> ha_change db db'"
  by (auto simp: port_release_def Let_def and_then_ok_iff sub_table_remove
      split: option.splits if_splits intro!: unchanged ports_removed)

lemma prune_ports_change: "ports_prune_expired now db = (x, db') \<Longrightarrow> ha_change db db'"
  using prune_sub_table [of pl_lease_until now "db_ports db"]
  by (auto simp: ports_prune_expired_def split: prod.splits intro!: ports_removed)

lemma job_acquire_change:
  assumes "job_acquire jo key kind k u fnow now db = Ok (x, db')"
  shows "ha_change db db'"
proof -
  let ?c = "jo_coordinator jo"
  from assms obtain v where fence: "assert_fence ?c k fnow db = Ok v"
    by (auto simp: job_acquire_def Let_def and_then_ok_iff split: if_splits)
  from fence obtain l where l: "db_leader db = Some l" "ll_instance_id l = co_instance_id ?c"
    "ll_incarnation_id l = co_incarnation_id ?c" "ll_fencing_token l = k" by (rule assert_fence_ok)
  show ?thesis using assms l
    by (auto simp: job_acquire_def job_row_def Let_def and_then_ok_iff job_row_ok_def
        split: claim_mode.splits option.splits if_splits intro!: unchanged job_written)
qed

lemma job_renew_cases:
  assumes "job_renew jo key kind u k fnow now db = Ok (x, db')"
  obtains (refused) "x = None" "db' = db"
  | (renewed) i kd l where "normalize_identifier key MAX_JOB_KEY_BYTES = Ok i"
      "assert_fence (jo_coordinator jo) k fnow db = Ok ()" "hm_get (db_jobs db) i = Some l"
      "job_lease_matches (jo_coordinator jo) kd u k now l"
      "db' = db\<lparr> db_jobs := hm_insert i (l\<lparr> jl_renewed := now,
         jl_lease_until := saturating_add now (jo_lease_seconds jo) \<rparr>) (db_jobs db) \<rparr>"
proof -
  from assms obtain i kd where i: "normalize_identifier key MAX_JOB_KEY_BYTES = Ok i"
    and fence: "assert_fence (jo_coordinator jo) k fnow db = Ok ()"
    and run: "(case hm_get (db_jobs db) i of
        Some l \<Rightarrow>
          if job_lease_matches (jo_coordinator jo) kd u k now l
          then let l' = l\<lparr> jl_renewed := now, jl_lease_until := saturating_add now (jo_lease_seconds jo) \<rparr>
               in Ok (Some l', db\<lparr> db_jobs := hm_insert i l' (db_jobs db) \<rparr>)
          else Ok (None, db)
      | None \<Rightarrow> Ok (None, db)) = (Ok (x, db') :: ha_error + job_lease option \<times> ha_db)"
    by (auto simp: job_renew_def Let_def and_then_ok_iff split: if_splits)
  show thesis
  proof (cases "hm_get (db_jobs db) i")
    case None
    with run show ?thesis by (intro refused) simp_all
  next
    case (Some l)
    show ?thesis
    proof (cases "job_lease_matches (jo_coordinator jo) kd u k now l")
      case True
      show ?thesis
        by (rule renewed [OF i fence Some True]) (use run Some True in \<open>simp add: Let_def\<close>)
    next
      case False
      with run Some show ?thesis by (intro refused) simp_all
    qed
  qed
qed

lemma job_finish_cases:
  assumes "job_finish jo key kind u k e fnow now db = Ok (x, db')"
  obtains (refused) "x = False" "db' = db"
  | (finished) i kd l where "x = True" "normalize_identifier key MAX_JOB_KEY_BYTES = Ok i"
      "assert_fence (jo_coordinator jo) k fnow db = Ok ()" "hm_get (db_jobs db) i = Some l"
      "job_lease_matches (jo_coordinator jo) kd u k now l"
      "db' = db\<lparr> db_jobs := hm_insert i (l\<lparr> jl_renewed := now, jl_lease_until := now,
         jl_last_completed := (if e = None then Some now else jl_last_completed l),
         jl_last_error_code := e \<rparr>) (db_jobs db) \<rparr>"
proof -
  from assms obtain i kd where i: "normalize_identifier key MAX_JOB_KEY_BYTES = Ok i"
    and fence: "assert_fence (jo_coordinator jo) k fnow db = Ok ()"
    and run: "(case hm_get (db_jobs db) i of
        Some l \<Rightarrow>
          if job_lease_matches (jo_coordinator jo) kd u k now l
          then let l' = l\<lparr> jl_renewed := now, jl_lease_until := now,
                   jl_last_completed := (if e = None then Some now else jl_last_completed l),
                   jl_last_error_code := e \<rparr>
               in Ok (True, db\<lparr> db_jobs := hm_insert i l' (db_jobs db) \<rparr>)
          else Ok (False, db)
      | None \<Rightarrow> Ok (False, db)) = (Ok (x, db') :: ha_error + bool \<times> ha_db)"
    by (auto simp: job_finish_def Let_def and_then_ok_iff split: if_splits)
  show thesis
  proof (cases "hm_get (db_jobs db) i")
    case None
    with run show ?thesis by (intro refused) simp_all
  next
    case (Some l)
    show ?thesis
    proof (cases "job_lease_matches (jo_coordinator jo) kd u k now l")
      case True
      show ?thesis
        by (rule finished [OF _ i fence Some True]) (use run Some True in \<open>simp_all add: Let_def\<close>)
    next
      case False
      with run Some show ?thesis by (intro refused) simp_all
    qed
  qed
qed

lemma job_written_by_owner:
  assumes "ha_inv db" "assert_fence c k fnow db = Ok ()" "hm_get (db_jobs db) i = Some l"
    and "job_lease_matches c kd u k now l"
    and "jl_job_key l' = jl_job_key l" "jl_owner_instance_id l' = jl_owner_instance_id l"
    "jl_owner_incarnation_id l' = jl_owner_incarnation_id l" "jl_fencing_token l' = jl_fencing_token l"
  shows "ha_change db (db\<lparr> db_jobs := hm_insert i l' (db_jobs db) \<rparr>)"
proof -
  obtain ld where ld: "db_leader db = Some ld" "ll_instance_id ld = co_instance_id c"
    "ll_incarnation_id ld = co_incarnation_id c" "ll_fencing_token ld = k"
    using assms(2) by (rule assert_fence_ok)
  have "jl_job_key l = i"
    using assms(1) map_of_SomeD [OF assms(3)] by (auto simp: ha_inv_def)
  with assms(4-8) ld have "job_row_ok ld i l'" by (simp add: job_row_ok_def job_lease_matches_def)
  with ld(1) show ?thesis by (rule job_written)
qed

lemma job_renew_change:
  assumes "job_renew jo key kind u k fnow now db = Ok (x, db')" and "ha_inv db"
  shows "ha_change db db'"
  using assms(1)
proof (cases rule: job_renew_cases)
  case refused
  then show ?thesis by (simp add: unchanged)
next
  case renewed
  then show ?thesis using job_written_by_owner [OF assms(2) renewed(2,3,4)] by simp
qed

lemma job_finish_change:
  assumes "job_finish jo key kind u k e fnow now db = Ok (x, db')" and "ha_inv db"
  shows "ha_change db db'"
  using assms(1)
proof (cases rule: job_finish_cases)
  case refused
  then show ?thesis by (simp add: unchanged)
next
  case finished
  then show ?thesis using job_written_by_owner [OF assms(2) finished(3,4,5)] by simp
qed

lemmas transaction_changes = register_change try_acquire_change renew_leadership_change
  prune_members_change recover_change port_acquire_change port_renew_change port_release_change
  prune_ports_change job_acquire_change job_renew_change job_finish_change

lemma commit_cases:
  assumes "commit f db r = Some (db', x)"
  obtains (failed) e where "r = Err e" "db' = db" "x = Failed e" | (committed) y where "r = Ok (y, db')" "x = f y"
  using assms by (auto simp: commit_def split: sum.splits)

lemma commit_change:
  "commit f db r = Some (db', x) \<Longrightarrow> (\<And>y. r = Ok (y, db') \<Longrightarrow> ha_change db db') \<Longrightarrow> ha_change db db'"
  by (erule commit_cases) (auto intro: unchanged)

lemma ha_step_change:
  assumes "ha_step js op db = Some (db', x)" and "ha_inv db"
  shows "ha_change db db'"
  using assms by (cases op) (auto elim!: commit_change dest: transaction_changes)

section \<open>The invariant and the fence\<close>

lemma ha_change_inv:
  assumes "ha_change db db'" "ha_inv db"
  shows "ha_inv db'"
  using assms
proof (cases rule: ha_change.cases)
  case (port_written l key p)
  have "e \<in> set (hm_insert key p (db_ports db)) \<Longrightarrow> e = (key, p) \<or> e \<in> set (db_ports db)" for e
    by (rule hm_insert_subset)
  then show ?thesis using assms(2) port_written by (fastforce simp: ha_inv_def port_row_ok_def)
next
  case (job_written l key j)
  have "e \<in> set (hm_insert key j (db_jobs db)) \<Longrightarrow> e = (key, j) \<or> e \<in> set (db_jobs db)" for e
    by (rule hm_insert_subset)
  then show ?thesis using assms(2) job_written by (fastforce simp: ha_inv_def job_row_ok_def)
next
  case (ports_removed ps)
  then show ?thesis using assms(2) by (auto simp: ha_inv_def sub_table_def)
next
  case (leader_renewed l now until)
  then show ?thesis using assms(2) by (auto simp: ha_inv_def port_row_ok_def job_row_ok_def)
next
  case (leader_installed l)
  then show ?thesis using assms(2) by (fastforce simp: ha_inv_def)
next
  case recovered
  then show ?thesis using assms(2)
    by (auto simp: recover_stale_leases_def ha_inv_def port_row_ok_def job_row_ok_def
        comp_def case_prod_beta)
qed (simp_all add: ha_inv_def)

text \<open>A token that has been handed out and is not the leader's any more.\<close>

definition superseded :: "token \<Rightarrow> ha_db \<Rightarrow> bool" where
  "superseded k db \<longleftrightarrow>
     k < db_next_token db \<and> (\<forall>l. db_leader db = Some l \<longrightarrow> ll_fencing_token l \<noteq> k)"

lemma superseded_change: "ha_change db db' \<Longrightarrow> superseded k db \<Longrightarrow> superseded k db'"
  by (cases rule: ha_change.cases) (auto simp: superseded_def recover_stale_leases_def)

lemma superseded_fence: "superseded k db \<Longrightarrow> \<exists>e. assert_fence c k now db = Err e"
proof (cases "assert_fence c k now db")
  case (Inr u)
  assume "superseded k db"
  with Inr show ?thesis by (auto simp: superseded_def elim: assert_fence_ok)
qed simp

lemma port_writes_fenced:
  assumes "superseded k db"
  shows "\<exists>e. port_acquire po protocol p policy k u now fnow db = Err e"
    and "\<exists>e. port_renew po protocol p policy u k fnow now db = Err e"
    and "\<exists>e. port_release po protocol p policy u k fnow db = Err e"
proof -
  obtain e where "assert_fence (po_coordinator po) k fnow db = Err e"
    using superseded_fence [OF assms] by blast
  then show "\<exists>e. port_acquire po protocol p policy k u now fnow db = Err e"
    and "\<exists>e. port_renew po protocol p policy u k fnow now db = Err e"
    and "\<exists>e. port_release po protocol p policy u k fnow db = Err e"
    by (cases "validate_port_and_fence p k";
        simp add: port_acquire_def port_renew_def port_release_def Let_def)+
qed

lemma job_writes_fenced:
  assumes "superseded k db"
  shows "\<exists>e. job_acquire jo key kind k u fnow now db = Err e"
    and "\<exists>e. job_renew jo key kind u k fnow now db = Err e"
    and "\<exists>e. job_finish jo key kind u k ec fnow now db = Err e"
proof -
  obtain e where "assert_fence (jo_coordinator jo) k fnow db = Err e"
    using superseded_fence [OF assms] by blast
  then show "\<exists>e. job_acquire jo key kind k u fnow now db = Err e"
    and "\<exists>e. job_renew jo key kind u k fnow now db = Err e"
    and "\<exists>e. job_finish jo key kind u k ec fnow now db = Err e"
    by (cases "normalize_identifier key MAX_JOB_KEY_BYTES"; cases "normalize_identifier kind MAX_JOB_KIND_BYTES";
        simp add: job_acquire_def job_renew_def job_finish_def Let_def)+
qed

lemma token_op_refused:
  assumes "superseded k db" "op_token op = Some k"
  shows "\<exists>e. ha_step js op db = Some (db, Failed e)"
proof -
  have fails: "\<exists>e. commit f db r = Some (db, Failed e)" if "\<exists>e. r = Err e"
    for f and r :: "ha_error + 'x \<times> ha_db" using that by (auto simp: commit_def)
  from assms(2) show ?thesis
    by (cases op) (simp_all add: fails port_writes_fenced [OF assms(1)] job_writes_fenced [OF assms(1)])
qed

definition token_order :: "ha_db \<Rightarrow> ha_db \<Rightarrow> bool" where
  "token_order db db' \<longleftrightarrow> (\<forall>k. superseded k db \<longrightarrow> superseded k db')"

lemma ha_step_total: "\<exists>db' x. ha_step js op db = Some (db', x)"
  by (cases op) (simp_all add: commit_def split: sum.split)

interpretation ha_machine: monotone_machine ha_inv "ha_step js" token_order for js
proof unfold_locales
  fix db op
  assume inv: "ha_inv db"
  obtain db' x where "ha_step js op db = Some (db', x)" using ha_step_total by blast
  with inv show "\<exists>db' x. ha_step js op db = Some (db', x) \<and> ha_inv db'"
    by (blast intro: ha_change_inv ha_step_change)
qed (auto simp: token_order_def intro: superseded_change ha_step_change)

lemma initial_inv: "ha_inv initial_db"
  by (simp add: ha_inv_def initial_db_def i64_max_def)

end
