(* ===== verification/Ha_Leadership.thy ===== *)
theory Ha_Leadership
  imports Ha_System
begin

text \<open>
  Leader election across processes: a superseded leader is fenced off for good, a leader cannot be
  displaced while its leases run, and an expired leader is replaced by the next member that asks.
\<close>

section \<open>Operations that leave the leader alone\<close>

lemma port_ops_frame:
  "port_acquire po protocol p policy k u now fnow db = Ok (x, db') \<Longrightarrow>
     db_leader db' = db_leader db \<and> db_members db' = db_members db"
  "port_renew po protocol p policy u k fnow now db = Ok (x, db') \<Longrightarrow>
     db_leader db' = db_leader db \<and> db_members db' = db_members db"
  "port_release po protocol p policy u k fnow db = Ok (y, db') \<Longrightarrow>
     db_leader db' = db_leader db \<and> db_members db' = db_members db"
  "ports_prune_expired now db = (n, db') \<Longrightarrow> db_leader db' = db_leader db \<and> db_members db' = db_members db"
  by (auto simp: port_acquire_def port_renew_def port_release_def ports_prune_expired_def Let_def
      and_then_ok_iff split: claim_mode.splits option.splits if_splits prod.splits)

lemma job_ops_frame:
  "job_acquire jo key kind k u fnow now db = Ok (z, db') \<Longrightarrow>
     db_leader db' = db_leader db \<and> db_members db' = db_members db"
  "job_renew jo key kind u k fnow now db = Ok (z, db') \<Longrightarrow>
     db_leader db' = db_leader db \<and> db_members db' = db_members db"
  "job_finish jo key kind u k e fnow now db = Ok (y, db') \<Longrightarrow>
     db_leader db' = db_leader db \<and> db_members db' = db_members db"
  by (auto simp: job_acquire_def Let_def and_then_ok_iff
      split: claim_mode.splits option.splits if_splits elim!: job_renew_cases job_finish_cases)

lemma map_of_filter_keys: "map_of (filter (\<lambda>(k, v). P k) m) k = (if P k then map_of m k else None)"
  by (induction m) auto

lemma prune_batch_keeps:
  assumes "hm_distinct m" "hm_get m k = Some v" "until v > now"
  shows "hm_get (fst (prune_batch until now m)) k = Some v"
proof -
  let ?victims = "take EXPIRED_LEASE_BATCH_SIZE
    (sort_key (\<lambda>(k, v). (until v, k)) (filter (\<lambda>(k, v). until v \<le> now) m))"
  have "k \<notin> fst ` set ?victims"
  proof
    assume "k \<in> fst ` set ?victims"
    then obtain w where "(k, w) \<in> set ?victims" by auto
    then have w: "(k, w) \<in> set m" "until w \<le> now" by (auto dest!: in_set_takeD)
    then have "hm_get m k = Some w" using hm_in_iff [OF assms(1)] by blast
    with assms(2) have "w = v" by (metis option.inject)
    with w(2) assms(3) show False by simp
  qed
  then show ?thesis
    using assms(2) by (simp add: prune_batch_def Let_def map_of_filter_keys del: map_of_eq_Some_iff)
qed

section \<open>Keeping the lead\<close>

definition ident :: "ha_coordinator \<Rightarrow> str \<times> str" where
  "ident c = (co_instance_id c, co_incarnation_id c)"

text \<open>The process an operation on members or the leader row runs in, and its clock.\<close>

fun op_actor :: "ha_op \<Rightarrow> (str \<times> str) option" where
  "op_actor (Register c now) = Some (ident c)"
| "op_actor (TryAcquire c now) = Some (ident c)"
| "op_actor (RenewLeadership c k now) = Some (ident c)"
| "op_actor _ = None"

fun op_clock :: "ha_op \<Rightarrow> unix option" where
  "op_clock (Register c now) = Some now"
| "op_clock (TryAcquire c now) = Some now"
| "op_clock (RenewLeadership c k now) = Some now"
| "op_clock (PruneMembers now) = Some now"
| "op_clock _ = None"

definition leads :: "ha_coordinator \<Rightarrow> token \<Rightarrow> unix \<Rightarrow> ha_db \<Rightarrow> bool" where
  "leads c k t db \<longleftrightarrow>
     (case db_leader db of
        Some l \<Rightarrow> is_leader c l \<and> ll_fencing_token l = k \<and> t \<le> ll_lease_until l
      | None \<Rightarrow> False) \<and>
     (case hm_get (db_members db) (co_instance_id c) of
        Some m \<Rightarrow> hm_incarnation_id m = co_incarnation_id c \<and> t \<le> hm_lease_until m
      | None \<Rightarrow> False)"

lemma leadsE:
  assumes "leads c k t db"
  obtains l m where "db_leader db = Some l" "is_leader c l" "ll_fencing_token l = k" "t \<le> ll_lease_until l"
    "hm_get (db_members db) (co_instance_id c) = Some m" "hm_incarnation_id m = co_incarnation_id c"
    "t \<le> hm_lease_until m"
  using assms unfolding leads_def by (cases "db_leader db"; cases "hm_get (db_members db) (co_instance_id c)") auto

lemma leads_active:
  "leads c k t db \<Longrightarrow> now < t \<Longrightarrow> member_is_active (co_instance_id c) (co_incarnation_id c) now db"
  by (erule leadsE) (simp add: member_is_active_def)

lemma leads_frame:
  "leads c k t db \<Longrightarrow> db_leader db' = db_leader db \<Longrightarrow> db_members db' = db_members db \<Longrightarrow> leads c k t db'"
  by (simp add: leads_def)

text \<open>No other process gets the lead while it is held.\<close>

lemma try_acquire_held:
  assumes "leads c k t db" "ident c' \<noteq> ident c" "now < t"
  shows "(\<exists>e. try_acquire_leadership c' now db = Err e) \<or> try_acquire_leadership c' now db = Ok (None, db)"
proof -
  obtain l where l: "db_leader db = Some l" "is_leader c l" "t \<le> ll_lease_until l"
    using assms(1) by (rule leadsE)
  then have "member_is_active (ll_instance_id l) (ll_incarnation_id l) now db"
    using leads_active [OF assms(1,3)] by (simp add: is_leader_def)
  moreover have "\<not> is_leader c' l" using l(2) assms(2) by (auto simp: is_leader_def ident_def)
  ultimately show ?thesis
    using l assms(3) by (cases "as_i64 now") (simp_all add: try_acquire_leadership_def)
qed

lemma renew_other:
  assumes "leads c k t db" "ident c' \<noteq> ident c"
  shows "renew_leadership c' k' now db = Ok (x, db') \<Longrightarrow> db' = db"
proof -
  obtain l where l: "db_leader db = Some l" "is_leader c l" using assms(1) by (rule leadsE)
  have "\<not> is_leader c' l" using l(2) assms(2) by (auto simp: is_leader_def ident_def)
  then show "renew_leadership c' k' now db = Ok (x, db') \<Longrightarrow> db' = db"
    using l(1) by (auto simp: renew_leadership_def renew_leader_def Let_def and_then_ok_iff split: if_splits)
qed

lemma write_member_effect:
  "write_member js i m db = Ok (x, db') \<Longrightarrow> db' = db\<lparr> db_members := hm_insert i m (db_members db) \<rparr>"
  by (auto simp: write_member_def Let_def and_then_ok_iff split: option.splits)

lemma register_effect:
  assumes "register_or_renew_member js c now db = Ok (x, db')"
  shows "db_leader db' = db_leader db \<and>
    (\<forall>i. i \<noteq> co_instance_id c \<longrightarrow> hm_get (db_members db') i = hm_get (db_members db) i)"
  using assms
  by (auto simp: register_or_renew_member_def Let_def and_then_ok_iff
      split: option.splits if_splits dest!: write_member_effect)

lemma register_other:
  assumes "leads c k t db" "ident c' \<noteq> ident c" "now < t"
    and "register_or_renew_member js c' now db = Ok (x, db')"
  shows "leads c k t db'"
proof (cases "co_instance_id c' = co_instance_id c")
  case True
  obtain m where m: "hm_get (db_members db) (co_instance_id c) = Some m"
      "hm_incarnation_id m = co_incarnation_id c" "t \<le> hm_lease_until m"
    using assms(1) by (rule leadsE)
  have "co_incarnation_id c \<noteq> co_incarnation_id c'" using assms(2) True by (auto simp: ident_def)
  with m True assms(3,4) show ?thesis
    by (auto simp: register_or_renew_member_def read_member_def Let_def and_then_ok_iff
        simp del: map_of_eq_Some_iff)
next
  case False
  with assms(1) register_effect [OF assms(4)] show ?thesis by (simp add: leads_def)
qed

text \<open>Operations of other processes, at times before the leases of \<open>c\<close> run out.\<close>

definition quiet :: "ha_coordinator \<Rightarrow> unix \<Rightarrow> ha_op \<Rightarrow> bool" where
  "quiet c t op \<longleftrightarrow>
     op_actor op \<noteq> Some (ident c) \<and> (case op_clock op of Some now \<Rightarrow> now < t | None \<Rightarrow> True) \<and>
     op \<noteq> Recover True"

lemma prune_members_keeps:
  assumes "leads c k t db" "hm_distinct (db_members db)" "now < t"
  shows "leads c k t (snd (prune_expired_members now db))"
proof -
  obtain m where m: "hm_get (db_members db) (co_instance_id c) = Some m" "t \<le> hm_lease_until m"
      "hm_incarnation_id m = co_incarnation_id c"
    using assms(1) by (rule leadsE)
  then have "hm_get (fst (prune_batch hm_lease_until now (db_members db))) (co_instance_id c) = Some m"
    using assms(2,3) by (intro prune_batch_keeps) auto
  with assms(1) m show ?thesis
    by (auto simp: leads_def prune_expired_members_def split: prod.splits simp del: map_of_eq_Some_iff)
qed

lemma leads_step:
  assumes "leads c k t db" "ha_inv db" "quiet c t op" "ha_step js op db = Some (db', x)"
  shows "leads c k t db'"
proof (cases op)
  case (Register c' now)
  with assms show ?thesis
    by (auto simp: quiet_def elim!: commit_cases intro: register_other)
next
  case (TryAcquire c' now)
  with assms try_acquire_held [of c k t db c' now] show ?thesis
    by (auto simp: quiet_def elim!: commit_cases)
next
  case (RenewLeadership c' k' now)
  with assms renew_other [of c k t db c' k' now] show ?thesis
    by (auto simp: quiet_def elim!: commit_cases)
next
  case (PruneMembers now)
  with assms prune_members_keeps [of c k t db now] show ?thesis
    by (auto simp: quiet_def ha_inv_def commit_def split: prod.splits)
next
  case (Recover b)
  with assms show ?thesis by (auto simp: quiet_def commit_def recover_stale_leases_def)
next
  case (PrunePorts now)
  with assms port_ops_frame(4) [of now db] show ?thesis
    by (auto simp: commit_def split: prod.splits intro: leads_frame)
qed (use assms in \<open>auto elim!: commit_cases dest: port_ops_frame job_ops_frame intro: leads_frame\<close>)

lemma leads_run:
  assumes "leads c k t db" "ha_inv db" "list_all (quiet c t) ops"
    and "run_machine (ha_step js) ops db = Some (db', xs)"
  shows "leads c k t db'"
  using assms
proof (induction ops arbitrary: db xs)
  case Nil
  then show ?case by simp
next
  case (Cons op ops)
  from Cons.prems(4) obtain d x ys where d: "ha_step js op db = Some (d, x)"
    and run: "run_machine (ha_step js) ops d = Some (db', ys)"
    by (auto split: option.splits)
  have "leads c k t d" using leads_step [OF Cons.prems(1,2) _ d] Cons.prems(3) by simp
  moreover have "ha_inv d" using ha_change_inv [OF ha_step_change [OF d Cons.prems(2)] Cons.prems(2)] .
  ultimately show ?case using Cons.IH [OF _ _ _ run] Cons.prems(3) by simp
qed

lemma reachable_inv: "run_machine (ha_step js) ops initial_db = Some (db, xs) \<Longrightarrow> ha_inv db"
  by (rule ha_machine.run_inv [OF initial_inv])

section \<open>Properties\<close>

text \<open>
  C19. A stale leader can do no harm. Once the leader row carries another fencing token, whatever
  transactions any processes run afterwards, every acquisition, renewal or release of a port and
  every acquisition, renewal or completion of a job that presents the old token fails and leaves
  the database unchanged.
\<close>

theorem stale_token_refused:
  assumes "run_machine (ha_step js) ops initial_db = Some (db, xs)"
    and "superseded k db"
    and "run_machine (ha_step js) ops' db = Some (db', ys)"
    and "op_token op = Some k"
  shows "\<exists>e. ha_step js op db' = Some (db', Failed e)"
proof -
  have "token_order db db'"
    by (rule ha_machine.run_le [OF reachable_inv [OF assms(1)] assms(3)])
  with assms(2) have "superseded k db'" by (simp add: token_order_def)
  from token_op_refused [OF this assms(4)] show ?thesis .
qed

text \<open>
  C20. There is one leader at a time. A process that holds the leader row and its member row with
  leases until \<open>t\<close> keeps its fencing token whatever the other processes do before \<open>t\<close>: its fence
  still passes at any time before \<open>t\<close>, no other process passes a fence, and none can acquire the
  leadership.
\<close>

theorem leader_not_displaced:
  assumes "run_machine (ha_step js) ops initial_db = Some (db, xs)"
    and "leads c k t db" and "list_all (quiet c t) ops'"
    and "run_machine (ha_step js) ops' db = Some (db', ys)" and "now < t"
  shows "assert_fence c k now db' = Ok () \<and>
    (assert_fence c' k' now' db' = Ok () \<longrightarrow> ident c' = ident c \<and> k' = k) \<and>
    (ident c' \<noteq> ident c \<longrightarrow> try_acquire_leadership c' now db' \<noteq> Ok (Some l, db''))"
proof -
  have inv: "ha_inv db" by (rule reachable_inv [OF assms(1)])
  have leads: "leads c k t db'" by (rule leads_run [OF assms(2) inv assms(3,4)])
  have inv': "ha_inv db'" by (rule ha_machine.run_inv [OF inv assms(4)])
  obtain ld where ld: "db_leader db' = Some ld" "is_leader c ld" "ll_fencing_token ld = k" "t \<le> ll_lease_until ld"
    using leads by (rule leadsE)
  then have "0 < k" "k \<le> i64_max" using inv' by (auto simp: ha_inv_def)
  then have "assert_fence c k now db' = Ok ()"
    using ld leads_active [OF leads assms(5)] assms(5)
    by (simp add: assert_fence_def as_i64_def is_leader_def)
  moreover have "ident c' = ident c \<and> k' = k" if "assert_fence c' k' now' db' = Ok ()"
    using that ld by (auto simp: ident_def is_leader_def elim: assert_fence_ok)
  moreover have "try_acquire_leadership c' now db' \<noteq> Ok (Some l, db'')" if "ident c' \<noteq> ident c"
    using try_acquire_held [OF leads that assms(5)] by auto
  ultimately show ?thesis by blast
qed

text \<open>
  C21. Leadership is not lost with its holder. When the leader's lease or its member lease has run
  out (or there never was a leader), the first active member that asks becomes leader: it gets a
  token larger than every token before, its fence passes at once, and the token of the leader
  before is superseded.
\<close>

theorem expired_leader_replaced:
  assumes "run_machine (ha_step js) ops initial_db = Some (db, xs)"
    and "member_is_active (co_instance_id c) (co_incarnation_id c) now db"
    and "current_leader now db = None"
    and "db_next_token db < i64_max" and "now + co_leader_lease_seconds c \<le> i64_max"
    and "0 < co_leader_lease_seconds c"
  shows "\<exists>l db'. try_acquire_leadership c now db = Ok (Some l, db') \<and> is_leader c l \<and>
    ll_fencing_token l = db_next_token db \<and> assert_fence c (ll_fencing_token l) now db' = Ok () \<and>
    (\<forall>l0. db_leader db = Some l0 \<longrightarrow> superseded (ll_fencing_token l0) db')"
proof -
  have inv: "ha_inv db" by (rule reachable_inv [OF assms(1)])
  then have pos: "0 < db_next_token db" by (simp add: ha_inv_def)
  have until: "saturating_add now (co_leader_lease_seconds c) = now + co_leader_lease_seconds c"
    using assms(5) by (intro saturating_add_exact) (simp add: i64_max_def usize_max_def)
  define l where "l = \<lparr> ll_instance_id = co_instance_id c, ll_incarnation_id = co_incarnation_id c,
    ll_fencing_token = db_next_token db, ll_acquired = now, ll_renewed = now,
    ll_lease_until = now + co_leader_lease_seconds c \<rparr>"
  define db' where "db' = db\<lparr> db_next_token := Suc (db_next_token db), db_leader := Some l \<rparr>"
  have "try_acquire_leadership c now db = install_leader c now db"
    using assms(2,3,5)
    by (auto simp: try_acquire_leadership_def current_leader_def as_i64_def Let_def split: option.splits if_splits)
  also have "\<dots> = Ok (Some l, db')"
    using assms(4,5) pos by (simp add: install_leader_def Let_def until as_i64_def l_def db'_def)
  finally have run: "try_acquire_leadership c now db = Ok (Some l, db')" .
  have "assert_fence c (ll_fencing_token l) now db' = Ok ()"
    using pos assms(2,4,6)
    by (simp add: assert_fence_def as_i64_def l_def db'_def is_leader_def member_is_active_def)
  moreover have "superseded (ll_fencing_token l0) db'" if "db_leader db = Some l0" for l0
    using inv that by (auto simp: superseded_def ha_inv_def l_def db'_def)
  ultimately show ?thesis using run by (auto simp: l_def is_leader_def)
qed

section \<open>A run of two processes\<close>

definition sample_js :: json_lib where
  "sample_js = \<lparr> js_valid = (\<lambda>_. True), js_is_object = (\<lambda>_. True), js_normalize = (\<lambda>s. s) \<rparr>"

definition alice :: ha_coordinator where
  "alice = \<lparr> co_instance_id = lit ''a'', co_incarnation_id = lit ''1'', co_metadata_json = [],
     co_member_lease_seconds = 30, co_leader_lease_seconds = 10 \<rparr>"

definition bob :: ha_coordinator where
  "bob = \<lparr> co_instance_id = lit ''b'', co_incarnation_id = lit ''2'', co_metadata_json = [],
     co_member_lease_seconds = 30, co_leader_lease_seconds = 10 \<rparr>"

definition member_row :: "ha_coordinator \<Rightarrow> unix \<Rightarrow> ha_member" where
  "member_row c now = \<lparr> hm_instance_id = co_instance_id c, hm_incarnation_id = co_incarnation_id c,
     hm_started = now, hm_last_seen = now, hm_lease_until = now + co_member_lease_seconds c,
     hm_metadata_json = [] \<rparr>"

definition leader_row :: "ha_coordinator \<Rightarrow> token \<Rightarrow> unix \<Rightarrow> leadership_lease" where
  "leader_row c k now = \<lparr> ll_instance_id = co_instance_id c, ll_incarnation_id = co_incarnation_id c,
     ll_fencing_token = k, ll_acquired = now, ll_renewed = now,
     ll_lease_until = now + co_leader_lease_seconds c \<rparr>"

definition db1 :: ha_db where
  "db1 = \<lparr> db_members = [(lit ''a'', member_row alice 100)], db_next_token = 2,
     db_leader = Some (leader_row alice 1 100), db_ports = [], db_jobs = [] \<rparr>"

definition db2 :: ha_db where
  "db2 = db1\<lparr> db_members := [(lit ''a'', member_row alice 100), (lit ''b'', member_row bob 120)] \<rparr>"

definition db3 :: ha_db where
  "db3 = db2\<lparr> db_next_token := 3, db_leader := Some (leader_row bob 2 120) \<rparr>"

lemmas ha_eval = alice_def bob_def sample_js_def member_row_def leader_row_def commit_def
  register_or_renew_member_def write_member_def read_member_def validate_metadata_json_def
  try_acquire_leadership_def install_leader_def member_is_active_def as_i64_def i64_max_def
  saturating_add_def usize_max_def MAX_METADATA_JSON_BYTES_def is_leader_def Let_def

lemma run_to_db1:
  "run_machine (ha_step sample_js) [Register alice 100, TryAcquire alice 100] initial_db =
     Some (db1, [MemberIs (member_row alice 100), LeaderIs (Some (leader_row alice 1 100))])"
  by (simp add: initial_db_def db1_def ha_eval)

lemma run_to_db2: "run_machine (ha_step sample_js) [Register bob 120] db1 = Some (db2, [MemberIs (member_row bob 120)])"
  by (simp add: db1_def db2_def ha_eval)

lemma run_to_db3:
  "run_machine (ha_step sample_js) [TryAcquire bob 120] db2 = Some (db3, [LeaderIs (Some (leader_row bob 2 120))])"
  by (simp add: db1_def db2_def db3_def ha_eval)

lemma run_machine_append:
  "run_machine st is s = Some (t, xs) \<Longrightarrow> run_machine st js t = Some (u, ys) \<Longrightarrow>
     run_machine st (is @ js) s = Some (u, xs @ ys)"
  by (induction "is" arbitrary: s xs) (auto split: option.splits)

lemmas run_to_db2' = run_machine_append [OF run_to_db1 run_to_db2]
lemmas run_to_db3' = run_machine_append [OF run_to_db2' run_to_db3]

definition sample_po :: public_port_ownership where
  "sample_po = \<lparr> po_coordinator = alice, po_lease_seconds = 30 \<rparr>"

theorem stale_token_refused_witness:
  "superseded 1 db3 \<and> (\<exists>e. ha_step sample_js (PortAcquire sample_po Tcp 80 0 1 7 121 121) db3 = Some (db3, Failed e))"
proof -
  have stale: "superseded 1 db3"
    by (simp add: superseded_def db3_def leader_row_def)
  have "\<exists>e. ha_step sample_js (PortAcquire sample_po Tcp 80 0 1 7 121 121) db3 = Some (db3, Failed e)"
    by (rule stale_token_refused [OF run_to_db3' stale, where ops' = "[]" and ys = "[]"]) simp_all
  with stale show ?thesis by blast
qed

theorem leader_not_displaced_witness:
  "leads alice 1 110 db1 \<and> quiet alice 110 (PruneMembers 105) \<and> assert_fence alice 1 109 db1 = Ok () \<and>
   \<not> (\<exists>l db''. try_acquire_leadership bob 109 db1 = Ok (Some l, db''))"
proof -
  have leads: "leads alice 1 110 db1"
    by (simp add: leads_def db1_def ha_eval)
  have quiet: "list_all (quiet alice 110) [PruneMembers 105]" by (simp add: quiet_def)
  have step: "run_machine (ha_step sample_js) [PruneMembers 105] db1 = Some (db1, [Pruned 0])"
    by (simp add: commit_def prune_expired_members_def prune_batch_def db1_def ha_eval)
  note held = leader_not_displaced [OF run_to_db1 leads quiet step, of 109]
  have other: "ident bob \<noteq> ident alice" by (simp add: ident_def alice_def bob_def)
  have "assert_fence alice 1 109 db1 = Ok ()" using held by simp
  moreover have "try_acquire_leadership bob 109 db1 \<noteq> Ok (Some l, db'')" for l db''
    using held [of bob _ _ l db''] other by simp
  ultimately show ?thesis using leads quiet by simp
qed

theorem expired_leader_replaced_witness:
  "current_leader 120 db2 = None \<and>
   (\<exists>l db'. try_acquire_leadership bob 120 db2 = Ok (Some l, db') \<and> ll_fencing_token l = 2 \<and> superseded 1 db')"
proof -
  have active: "member_is_active (co_instance_id bob) (co_incarnation_id bob) 120 db2"
    by (simp add: db2_def db1_def ha_eval)
  have none: "current_leader 120 db2 = None"
    by (simp add: current_leader_def db2_def db1_def ha_eval)
  have room: "db_next_token db2 < i64_max" "120 + co_leader_lease_seconds bob \<le> i64_max"
    "0 < co_leader_lease_seconds bob" by (simp_all add: db2_def db1_def bob_def i64_max_def)
  have "db_next_token db2 = 2" "db_leader db2 = Some (leader_row alice 1 100)" by (simp_all add: db2_def db1_def)
  with expired_leader_replaced [OF run_to_db2' active none room] none show ?thesis
    by (auto simp: leader_row_def)
qed

end
