(* ===== verification/Ha_Leases.thy ===== *)
theory Ha_Leases
  imports Ha_Leadership
begin

text \<open>
  Leases under any interleaving of transactions: a job lease that has ended is never accepted
  again, and a public port stays with the process that leased it until the lease runs out.
\<close>

section \<open>Job leases that have ended\<close>

text \<open>The lease \<open>u\<close> on job \<open>i\<close> is replaced by another one, or has run out by time \<open>t\<close>.\<close>

definition job_ended :: "uuid \<Rightarrow> str \<Rightarrow> unix \<Rightarrow> ha_db \<Rightarrow> bool" where
  "job_ended u i t db \<longleftrightarrow>
     (case hm_get (db_jobs db) i of Some l \<Rightarrow> jl_lease_id l \<noteq> u \<or> jl_lease_until l \<le> t | None \<Rightarrow> True)"

text \<open>
  Operations whose transactions read the clock at \<open>t\<close> or later and whose fresh lease ids differ
  from \<open>u\<close>.
\<close>

fun after :: "uuid \<Rightarrow> unix \<Rightarrow> ha_op \<Rightarrow> bool" where
  "after u t (JobAcquire jo key kind k u' fnow now) \<longleftrightarrow> u' \<noteq> u"
| "after u t (JobRenew jo key kind u' k fnow now) \<longleftrightarrow> t \<le> now"
| "after u t (JobFinish jo key kind u' k e fnow now) \<longleftrightarrow> t \<le> now"
| "after u t _ \<longleftrightarrow> True"

lemma port_ops_jobs:
  "port_acquire po protocol p policy k u now fnow db = Ok (x, db') \<Longrightarrow> db_jobs db' = db_jobs db"
  "port_renew po protocol p policy u k fnow now db = Ok (x, db') \<Longrightarrow> db_jobs db' = db_jobs db"
  "port_release po protocol p policy u k fnow db = Ok (y, db') \<Longrightarrow> db_jobs db' = db_jobs db"
  "ports_prune_expired now db = (n, db') \<Longrightarrow> db_jobs db' = db_jobs db"
  by (auto simp: port_acquire_def port_renew_def port_release_def ports_prune_expired_def Let_def
      and_then_ok_iff split: claim_mode.splits option.splits if_splits prod.splits)

lemma member_ops_tables:
  "register_or_renew_member js c now db = Ok (m, db') \<Longrightarrow> db_jobs db' = db_jobs db \<and> db_ports db' = db_ports db"
  "try_acquire_leadership c now db = Ok (l, db') \<Longrightarrow> db_jobs db' = db_jobs db \<and> db_ports db' = db_ports db"
  "renew_leadership c k now db = Ok (l, db') \<Longrightarrow> db_jobs db' = db_jobs db \<and> db_ports db' = db_ports db"
  "prune_expired_members now db = (n, db') \<Longrightarrow> db_jobs db' = db_jobs db \<and> db_ports db' = db_ports db"
  by (auto simp: register_or_renew_member_def try_acquire_leadership_def renew_leadership_def renew_leader_def
      install_leader_def prune_expired_members_def Let_def and_then_ok_iff
      split: option.splits if_splits prod.splits dest!: write_member_effect)

lemma job_acquire_effect:
  assumes "job_acquire jo key kind k u fnow now db = Ok (x, db')"
  obtains (refused) "db' = db"
  | (acquired) i l where "db' = db\<lparr> db_jobs := hm_insert i l (db_jobs db) \<rparr>" "jl_lease_id l = u"
  using assms
  by (auto simp: job_acquire_def job_row_def Let_def and_then_ok_iff
      split: claim_mode.splits option.splits if_splits)

lemma job_ended_refused:
  assumes "job_ended u i t db" "t \<le> now" "hm_get (db_jobs db) i = Some l"
  shows "\<not> job_lease_matches c kd u k now l"
  using assms by (auto simp: job_ended_def job_lease_matches_def)

lemma job_ended_frame: "job_ended u i t db \<Longrightarrow> db_jobs db' = db_jobs db \<Longrightarrow> job_ended u i t db'"
  by (simp add: job_ended_def)

lemma job_ended_insert:
  "job_ended u i t db \<Longrightarrow> (j = i \<longrightarrow> jl_lease_id l \<noteq> u \<or> jl_lease_until l \<le> t) \<Longrightarrow>
     job_ended u i t (db\<lparr> db_jobs := hm_insert j l (db_jobs db) \<rparr>)"
  by (simp add: job_ended_def)

lemma job_ended_recover: "job_ended u i t db \<Longrightarrow> job_ended u i t (snd (recover_stale_leases b db))"
proof -
  have "map_of (map (\<lambda>(k, j). (k, j\<lparr> jl_lease_until := 0 \<rparr>)) m) i =
      map_option (\<lambda>j. j\<lparr> jl_lease_until := 0 \<rparr>) (map_of m i)" for m :: "(str, job_lease) hashmap"
    by (induction m) auto
  then show "job_ended u i t db \<Longrightarrow> job_ended u i t (snd (recover_stale_leases b db))"
    by (auto simp: job_ended_def recover_stale_leases_def split: option.splits)
qed

lemma job_ended_step:
  assumes ended: "job_ended u i t db" and late: "after u t op" and st: "ha_step js op db = Some (db', x)"
  shows "job_ended u i t db'"
proof (cases op)
  case (JobAcquire jo key kind k u' fnow now)
  with st late ended show ?thesis
    by (auto elim!: commit_cases job_acquire_effect intro!: job_ended_insert)
next
  case (JobRenew jo key kind u' k fnow now)
  with st show ?thesis
  proof (simp, elim commit_cases job_renew_cases)
    fix j kd l
    assume "hm_get (db_jobs db) j = Some l" "job_lease_matches (jo_coordinator jo) kd u' k now l"
      "db' = db\<lparr> db_jobs := hm_insert j (l\<lparr> jl_renewed := now,
         jl_lease_until := saturating_add now (jo_lease_seconds jo) \<rparr>) (db_jobs db) \<rparr>"
    with ended late JobRenew show ?thesis
      by (auto simp: job_lease_matches_def intro!: job_ended_insert) (auto simp: job_ended_def)
  qed (simp_all add: ended)
next
  case (JobFinish jo key kind u' k e fnow now)
  with st show ?thesis
  proof (simp, elim commit_cases job_finish_cases)
    fix j kd l
    assume "hm_get (db_jobs db) j = Some l" "job_lease_matches (jo_coordinator jo) kd u' k now l"
      "db' = db\<lparr> db_jobs := hm_insert j (l\<lparr> jl_renewed := now, jl_lease_until := now,
         jl_last_completed := (if e = None then Some now else jl_last_completed l),
         jl_last_error_code := e \<rparr>) (db_jobs db) \<rparr>"
    with ended late JobFinish show ?thesis
      by (auto simp: job_lease_matches_def intro!: job_ended_insert) (auto simp: job_ended_def)
  qed (simp_all add: ended)
next
  case (Recover b)
  with st show ?thesis using job_ended_recover [OF ended, of b] by (auto simp: commit_def split: prod.splits)
qed (use st ended in \<open>auto elim!: commit_cases dest: port_ops_jobs member_ops_tables intro: job_ended_frame\<close>)

lemma job_ended_run:
  "job_ended u i t db \<Longrightarrow> list_all (after u t) ops \<Longrightarrow> run_machine (ha_step js) ops db = Some (db', xs) \<Longrightarrow>
     job_ended u i t db'"
proof (induction ops arbitrary: db xs)
  case (Cons op ops)
  from Cons.prems(3) obtain d x ys where d: "ha_step js op db = Some (d, x)"
    and run: "run_machine (ha_step js) ops d = Some (db', ys)"
    by (auto split: option.splits)
  have "job_ended u i t d" using job_ended_step [OF Cons.prems(1) _ d] Cons.prems(2) by simp
  then show ?case using Cons.IH [OF _ _ run] Cons.prems(2) by simp
qed simp

lemma job_ended_writes:
  assumes "job_ended u i t db" "normalize_identifier key MAX_JOB_KEY_BYTES = Ok i" "t \<le> now"
  shows "job_finish jo key kind u k e fnow now db \<noteq> Ok (True, db')"
    and "job_renew jo key kind u k fnow now db \<noteq> Ok (Some l, db')"
    and "jl_job_key lease = i \<Longrightarrow> jl_lease_id lease = u \<Longrightarrow> assert_job_lease jo lease fnow now db \<noteq> Ok ()"
proof -
  note refused = job_ended_refused [OF assms(1,3)]
  have renew: "job_renew jo key kind u k fnow now db = Ok (Some l, db') \<Longrightarrow>
      \<exists>l kd. hm_get (db_jobs db) i = Some l \<and> job_lease_matches (jo_coordinator jo) kd u k now l"
    using assms(2) by (auto simp: job_renew_def Let_def and_then_ok_iff simp del: map_of_eq_Some_iff
        split: if_splits option.splits)
  show "job_finish jo key kind u k e fnow now db \<noteq> Ok (True, db')"
    using refused assms(2) by (auto elim!: job_finish_cases simp del: map_of_eq_Some_iff)
  show "job_renew jo key kind u k fnow now db \<noteq> Ok (Some l, db')"
    using refused renew by blast
  show "jl_job_key lease = i \<Longrightarrow> jl_lease_id lease = u \<Longrightarrow> assert_job_lease jo lease fnow now db \<noteq> Ok ()"
    using refused by (auto simp: assert_job_lease_def and_then_ok_iff simp del: map_of_eq_Some_iff
        split: option.splits)
qed

lemma job_finish_ends:
  assumes "job_finish jo key kind u k e fnow now db = Ok (True, db')"
    and "normalize_identifier key MAX_JOB_KEY_BYTES = Ok i"
  shows "job_ended u i now db'"
  using assms(1)
proof (cases rule: job_finish_cases)
  case (finished j kd l)
  then show ?thesis using assms(2) by (simp add: job_ended_def)
qed simp

section \<open>Ports that are held\<close>

definition port_held ::
  "ha_coordinator \<Rightarrow> token \<Rightarrow> uuid \<Rightarrow> public_port_protocol \<times> port \<Rightarrow> unix \<Rightarrow> ha_db \<Rightarrow> bool" where
  "port_held c k u key t db \<longleftrightarrow>
     (case hm_get (db_ports db) key of
        Some l \<Rightarrow> pl_lease_id l = u \<and> pl_owner_instance_id l = co_instance_id c \<and>
          pl_owner_incarnation_id l = co_incarnation_id c \<and> pl_fencing_token l = k \<and> t \<le> pl_lease_until l
      | None \<Rightarrow> False)"

text \<open>
  Operations before \<open>t\<close> that neither release the lease \<open>u\<close> nor shorten it below \<open>t\<close>: a renewal
  writes its own deadline.
\<close>

fun spares :: "uuid \<Rightarrow> public_port_protocol \<times> port \<Rightarrow> unix \<Rightarrow> ha_op \<Rightarrow> bool" where
  "spares u key t (PortAcquire po protocol p policy k u' now fnow) \<longleftrightarrow> now < t"
| "spares u key t (PortRenew po protocol p policy u' k fnow now) \<longleftrightarrow>
     ((protocol, p) = key \<and> u' = u \<longrightarrow> t \<le> saturating_add now (po_lease_seconds po))"
| "spares u key t (PortRelease po protocol p policy u' k fnow) \<longleftrightarrow> \<not> ((protocol, p) = key \<and> u' = u)"
| "spares u key t (PrunePorts now) \<longleftrightarrow> now < t"
| "spares u key t _ \<longleftrightarrow> True"

lemma port_heldE:
  assumes "port_held c k u key t db"
  obtains l where "hm_get (db_ports db) key = Some l" "pl_lease_id l = u"
    "pl_owner_instance_id l = co_instance_id c" "pl_owner_incarnation_id l = co_incarnation_id c"
    "pl_fencing_token l = k" "t \<le> pl_lease_until l"
  using assms unfolding port_held_def by (cases "hm_get (db_ports db) key") auto

lemma port_held_frame:
  "port_held c k u key t db \<Longrightarrow> db_ports db' = db_ports db \<Longrightarrow> port_held c k u key t db'"
  by (simp add: port_held_def)

lemma job_ops_ports:
  "job_acquire jo key kind k u fnow now db = Ok (z, db') \<Longrightarrow> db_ports db' = db_ports db"
  "job_renew jo key kind u k fnow now db = Ok (z, db') \<Longrightarrow> db_ports db' = db_ports db"
  "job_finish jo key kind u k e fnow now db = Ok (y, db') \<Longrightarrow> db_ports db' = db_ports db"
  by (auto simp: job_acquire_def Let_def and_then_ok_iff
      split: claim_mode.splits option.splits if_splits elim!: job_renew_cases job_finish_cases)

text \<open>A held port is not handed out: other keys may be written, this one is not.\<close>

lemma port_row_inv:
  assumes "ha_inv db" "(key, l) \<in> set (db_ports db)"
  shows "pl_fencing_token l < db_next_token db"
    and "db_leader db = Some ld \<Longrightarrow> ll_fencing_token ld = pl_fencing_token l \<Longrightarrow> port_row_ok ld key l"
  using assms by (cases key; simp add: ha_inv_def)+

lemma held_leader:
  assumes "port_held c k u key t db" "ha_inv db" "\<not> superseded k db" "assert_fence c' k' fnow db = Ok v"
  shows "k' = k \<and> co_instance_id c' = co_instance_id c \<and> co_incarnation_id c' = co_incarnation_id c"
proof -
  obtain l where l: "hm_get (db_ports db) key = Some l" "pl_owner_instance_id l = co_instance_id c"
    "pl_owner_incarnation_id l = co_incarnation_id c" "pl_fencing_token l = k"
    using assms(1) by (rule port_heldE)
  have row: "(key, l) \<in> set (db_ports db)" using l(1) by (rule map_of_SomeD)
  then have "k < db_next_token db" using port_row_inv(1) [OF assms(2)] l(4) by blast
  then obtain ld where ld: "db_leader db = Some ld" "ll_fencing_token ld = k"
    using assms(3) by (auto simp: superseded_def)
  then have "port_row_ok ld key l" using port_row_inv(2) [OF assms(2) row] l(4) by simp
  with ld l assms(4) show ?thesis by (auto elim!: assert_fence_ok simp: port_row_ok_def)
qed

lemma port_acquire_held:
  assumes held: "port_held c k u key t db" and inv: "ha_inv db" "\<not> superseded k db" and "now < t"
    and acq: "port_acquire po protocol p policy k' u' now fnow db = Ok (x, db')"
  shows "port_held c k u key t db' \<and> ((protocol, p) = key \<longrightarrow> x = None)"
proof (cases "(protocol, p) = key")
  case True
  let ?c = "po_coordinator po"
  obtain l where l: "hm_get (db_ports db) key = Some l" "pl_owner_instance_id l = co_instance_id c"
    "pl_owner_incarnation_id l = co_incarnation_id c" "pl_fencing_token l = k" "t \<le> pl_lease_until l"
    using held by (rule port_heldE)
  from acq obtain v where "assert_fence ?c k' fnow db = Ok v"
    by (auto simp: port_acquire_def Let_def and_then_ok_iff)
  with held_leader [OF held inv] have
    "port_claim_mode (Some l) (co_instance_id ?c) (co_incarnation_id ?c) k' now = Ok Conflict"
    using l assms(4) by (simp add: port_claim_mode_def)
  then have "x = None \<and> db' = db"
    using acq l(1) True by (auto simp: port_acquire_def Let_def and_then_ok_iff simp del: map_of_eq_Some_iff)
  then show ?thesis using held by simp
next
  case False
  then show ?thesis using acq held
    by (auto simp: port_acquire_def Let_def and_then_ok_iff port_held_def split: claim_mode.splits)
qed

lemma port_renew_held:
  assumes "port_held c k u key t db"
    and "(protocol, p) = key \<and> u' = u \<longrightarrow> t \<le> saturating_add now (po_lease_seconds po)"
    and "port_renew po protocol p policy u' k' fnow now db = Ok (x, db')"
  shows "port_held c k u key t db'"
  using assms
  by (auto simp: port_renew_def port_held_def port_lease_matches_def Let_def and_then_ok_iff
      simp del: map_of_eq_Some_iff split: option.splits if_splits)

lemma port_release_held:
  assumes "port_held c k u key t db" and "\<not> ((protocol, p) = key \<and> u' = u)"
    and "port_release po protocol p policy u' k' fnow db = Ok (x, db')"
  shows "port_held c k u key t db'"
  using assms
  by (auto simp: port_release_def port_held_def port_lease_matches_def Let_def and_then_ok_iff
      simp del: map_of_eq_Some_iff split: option.splits if_splits)

lemma ports_prune_held:
  assumes "port_held c k u key t db" and "hm_distinct (db_ports db)" and "now < t"
  shows "port_held c k u key t (snd (ports_prune_expired now db))"
proof -
  obtain l where l: "hm_get (db_ports db) key = Some l" "t \<le> pl_lease_until l"
    using assms(1) by (rule port_heldE)
  then have "hm_get (fst (prune_batch pl_lease_until now (db_ports db))) key = Some l"
    using assms(2,3) by (intro prune_batch_keeps) auto
  with assms(1) l show ?thesis
    by (auto simp: port_held_def ports_prune_expired_def split: prod.splits simp del: map_of_eq_Some_iff)
qed

lemma port_held_step:
  assumes held: "port_held c k u key t db" and inv: "ha_inv db" "\<not> superseded k db"
    and quiet: "spares u key t op" "op \<noteq> Recover True" and st: "ha_step js op db = Some (db', x)"
  shows "port_held c k u key t db'"
proof (cases op)
  case (PortAcquire po protocol p policy k' u' now fnow)
  with st quiet held show ?thesis by (auto elim!: commit_cases dest: port_acquire_held [OF held inv])
next
  case (PortRenew po protocol p policy u' k' fnow now)
  with st quiet held show ?thesis by (auto elim!: commit_cases dest: port_renew_held [OF held, rotated])
next
  case (PortRelease po protocol p policy u' k' fnow)
  with st quiet held show ?thesis by (auto elim!: commit_cases dest: port_release_held [OF held, rotated])
next
  case (PrunePorts now)
  with st quiet inv show ?thesis using ports_prune_held [OF held, of now]
    by (auto elim!: commit_cases simp: ha_inv_def)
next
  case (Recover b)
  with st quiet held show ?thesis by (auto simp: commit_def recover_stale_leases_def)
qed (use st held in \<open>auto elim!: commit_cases dest: job_ops_ports member_ops_tables intro: port_held_frame\<close>)

lemma port_held_run:
  assumes "port_held c k u key t db" "ha_inv db" "run_machine (ha_step js) ops db = Some (db', xs)"
    and "\<not> superseded k db'" "list_all (spares u key t) ops" "Recover True \<notin> set ops"
  shows "port_held c k u key t db'"
  using assms
proof (induction ops arbitrary: db xs)
  case (Cons op ops)
  from Cons.prems(3) obtain d x ys where d: "ha_step js op db = Some (d, x)"
    and run: "run_machine (ha_step js) ops d = Some (db', ys)"
    by (auto split: option.splits)
  have inv: "ha_inv d" using ha_change_inv [OF ha_step_change [OF d Cons.prems(2)] Cons.prems(2)] .
  have "\<not> superseded k db"
    using ha_machine.run_le [OF Cons.prems(2,3)] Cons.prems(4) by (auto simp: token_order_def)
  with Cons.prems have "port_held c k u key t d"
    by (intro port_held_step [OF _ _ _ _ _ d]) auto
  then show ?case using Cons.IH [OF _ inv run] Cons.prems by simp
qed simp

lemma port_acquire_holds:
  assumes "port_acquire po protocol p policy k u now fnow db = Ok (Some l, db')"
  shows "port_held (po_coordinator po) k u (protocol, p) (saturating_add now (po_lease_seconds po)) db'"
  using assms
  by (auto simp: port_acquire_def Let_def and_then_ok_iff port_held_def split: claim_mode.splits)

section \<open>Properties\<close>


text \<open>
  C23. A job lease ends once. After a job has been completed or failed under a lease, whatever
  transactions run afterwards with later clocks and other fresh lease ids, that lease can neither
  complete the job again nor be renewed, and a transaction that asserts it is aborted.
\<close>

theorem job_lease_ends_once:
  assumes "job_finish jo key kind u k e fnow now db = Ok (True, d1)"
    and "normalize_identifier key MAX_JOB_KEY_BYTES = Ok i"
    and "run_machine (ha_step js) ops d1 = Some (d2, xs)" and "list_all (after u now) ops"
    and "now \<le> now'"
  shows "job_finish jo' key kind' u k' e' fnow' now' d2 \<noteq> Ok (True, d3) \<and>
    job_renew jo' key kind' u k' fnow' now' d2 \<noteq> Ok (Some l, d3) \<and>
    (jl_job_key lease = i \<and> jl_lease_id lease = u \<longrightarrow> assert_job_lease jo' lease fnow' now' d2 \<noteq> Ok ())"
proof -
  have "job_ended u i now d2"
    using job_ended_run [OF job_finish_ends [OF assms(1,2)] assms(4,3)] .
  from job_ended_writes [OF this assms(2,5)] show ?thesis by blast
qed

section \<open>Sample leases\<close>

definition sample_lease :: public_port_lease where
  "sample_lease = \<lparr> pl_protocol = Tcp, pl_public_port = 80, pl_lease_id = 7,
     pl_owner_instance_id = lit ''a'', pl_owner_incarnation_id = lit ''1'', pl_fencing_token = 1,
     pl_policy_id = 3, pl_acquired = 101, pl_renewed = 101, pl_lease_until = 131 \<rparr>"

lemmas lease_eval = ha_eval db1_def assert_fence_def port_acquire_def validate_port_and_fence_def
  port_claim_mode_def sample_po_def sample_lease_def

lemma sample_port_acquired:
  "port_acquire sample_po Tcp 80 3 1 7 101 101 db1 =
     Ok (Some sample_lease, db1\<lparr> db_ports := [((Tcp, 80), sample_lease)] \<rparr>)"
  by (simp add: lease_eval)


definition sample_jo :: job_leases where
  "sample_jo = \<lparr> jo_coordinator = alice, jo_lease_seconds = 30 \<rparr>"

definition sample_job :: job_lease where
  "sample_job = \<lparr> jl_job_key = [106], jl_job_kind = [107], jl_lease_id = 5,
     jl_owner_instance_id = lit ''a'', jl_owner_incarnation_id = lit ''1'', jl_fencing_token = 1,
     jl_acquired = 101, jl_renewed = 101, jl_lease_until = 131, jl_last_completed = None,
     jl_last_error_code = None \<rparr>"

lemma sample_identifiers:
  "normalize_identifier [106] MAX_JOB_KEY_BYTES = Ok [106]"
  "normalize_identifier [107] MAX_JOB_KIND_BYTES = Ok [107]"
  by (simp_all add: normalize_identifier_def text_eval MAX_JOB_KEY_BYTES_def MAX_JOB_KIND_BYTES_def)

theorem job_lease_ends_once_witness:
  "\<exists>d1 d2. job_finish sample_jo [106] [107] 5 1 None 105 105
       (db1\<lparr> db_jobs := [([106], sample_job)] \<rparr>) = Ok (True, d1) \<and>
     run_machine (ha_step sample_js) [JobAcquire sample_jo [106] [107] 1 6 106 106] d1 =
       Some (d2, [JobIs (Some (sample_job\<lparr> jl_lease_id := 6, jl_acquired := 106, jl_renewed := 106,
         jl_lease_until := 136, jl_last_completed := Some 105 \<rparr>))]) \<and>
     \<not> (\<exists>d3. job_finish sample_jo [106] [107] 5 1 None 107 107 d2 = Ok (True, d3))"
proof -
  let ?j = "sample_job\<lparr> jl_renewed := 105, jl_lease_until := 105, jl_last_completed := Some 105 \<rparr>"
  let ?l = "sample_job\<lparr> jl_lease_id := 6, jl_acquired := 106, jl_renewed := 106,
    jl_lease_until := 136, jl_last_completed := Some 105 \<rparr>"
  let ?e1 = "db1\<lparr> db_jobs := [([106], ?j)] \<rparr>"
  let ?e2 = "db1\<lparr> db_jobs := [([106], ?l)] \<rparr>"
  have fin: "job_finish sample_jo [106] [107] 5 1 None 105 105
       (db1\<lparr> db_jobs := [([106], sample_job)] \<rparr>) = Ok (True, ?e1)"
    by (simp add: job_finish_def sample_identifiers sample_jo_def sample_job_def job_lease_matches_def
        lease_eval)
  have run: "run_machine (ha_step sample_js) [JobAcquire sample_jo [106] [107] 1 6 106 106] ?e1 =
      Some (?e2, [JobIs (Some ?l)])"
    by (simp add: job_acquire_def job_claim_mode_def job_row_def sample_identifiers sample_jo_def
        sample_job_def lease_eval)
  have "job_finish sample_jo [106] [107] 5 1 None 107 107 ?e2 \<noteq> Ok (True, d3)" for d3
    using job_lease_ends_once [OF fin sample_identifiers(1) run, of 107] by simp
  with fin run show ?thesis by blast
qed

end
