(* ===== verification/Target_Health.thy ===== *)
theory Target_Health
  imports Ha_Leadership
begin

text \<open>
  Shared health of tunnel targets (\<open>linklake-server/src/target_health.rs\<close>). An observation carries
  a revision and three signals; the stored state changes to healthy or unhealthy only after a
  number of consecutive observations (hysteresis), and counts as unhealthy when no observation
  arrived for a while. The SQLite branch of each operation is modelled: the fence reads the
  coordination database, the write goes to the table of target rows.
\<close>

section \<open>Rows and observations\<close>

definition MAX_TARGET_KEY_BYTES :: nat where
  "MAX_TARGET_KEY_BYTES = 256"

definition MAX_ERROR_SUMMARY_BYTES :: nat where
  "MAX_ERROR_SUMMARY_BYTES = 320"

definition MAX_WEIGHT :: nat where
  "MAX_WEIGHT = 1000000"

definition MAX_REVISION :: nat where
  "MAX_REVISION = i64_max"

record target_health =
  th_target_key :: str
  th_member_alive :: bool
  th_control_channel_healthy :: bool
  th_application_healthy :: bool
  th_effective_healthy :: bool
  th_consecutive_successes :: nat
  th_consecutive_failures :: nat
  th_weight :: nat
  th_revision :: nat
  th_last_probe :: "unix option"
  th_last_transition :: unix
  th_last_error_summary :: "str option"

record target_health_observation =
  ob_target_key :: str
  ob_member_alive :: bool
  ob_control_channel_healthy :: bool
  ob_application_healthy :: bool
  ob_weight :: nat
  ob_revision :: nat
  ob_error_summary :: "str option"

record target_health_update =
  up_accepted :: bool
  up_duplicate :: bool
  up_previous_effective_healthy :: bool
  up_health :: target_health

record target_health_catalog =
  tc_coordinator :: ha_coordinator
  tc_success_threshold :: nat
  tc_failure_threshold :: nat
  tc_stale_after_seconds :: nat

datatype target_health_error =
    ThSuccessThreshold
  | ThFailureThreshold
  | ThStaleTimeout
  | ThKeyRequired
  | ThKeyTooLong
  | ThKeyControlCharacter
  | ThWeightOutOfRange
  | ThRevisionOutOfRange
  | ThSummaryEmpty
  | ThTokenNotPositive
  | ThRevisionConflict
  | ThCoordination ha_error

definition catalog_open ::
  "ha_coordinator \<Rightarrow> nat \<Rightarrow> nat \<Rightarrow> nat \<Rightarrow> target_health_error + target_health_catalog" where
  "catalog_open c success_threshold failure_threshold stale_after_seconds =
     (if \<not> (1 \<le> success_threshold \<and> success_threshold \<le> 1000) then Err ThSuccessThreshold
      else if \<not> (1 \<le> failure_threshold \<and> failure_threshold \<le> 1000) then Err ThFailureThreshold
      else if \<not> (1 \<le> stale_after_seconds \<and> stale_after_seconds \<le> 86400) then Err ThStaleTimeout
      else Ok \<lparr> tc_coordinator = c, tc_success_threshold = success_threshold,
                tc_failure_threshold = failure_threshold, tc_stale_after_seconds = stale_after_seconds \<rparr>)"

section \<open>Normalisation\<close>

definition normalize_target_key :: "str \<Rightarrow> target_health_error + str" where
  "normalize_target_key raw =
     (let value = trim raw in
      if value = [] then Err ThKeyRequired
      else if len value > MAX_TARGET_KEY_BYTES then Err ThKeyTooLong
      else if list_ex is_control value then Err ThKeyControlCharacter
      else Ok value)"

definition normalize_error_summary :: "str \<Rightarrow> target_health_error + str" where
  "normalize_error_summary raw =
     (let summary = map (\<lambda>c. if c = 13 \<or> c = 10 \<or> c = 9 then 32 else c) (trim raw);
          summary = (if length summary > MAX_ERROR_SUMMARY_BYTES
                     then take MAX_ERROR_SUMMARY_BYTES summary else summary)
      in if summary = [] then Err ThSummaryEmpty else Ok summary)"

definition normalize_observation ::
  "target_health_observation \<Rightarrow> target_health_error + target_health_observation" where
  "normalize_observation ob =
     and_then (normalize_target_key (ob_target_key ob)) (\<lambda>key.
       if \<not> (1 \<le> ob_weight ob \<and> ob_weight ob \<le> MAX_WEIGHT) then Err ThWeightOutOfRange
       else if ob_revision ob > MAX_REVISION then Err ThRevisionOutOfRange
       else and_then (case ob_error_summary ob of
                        None \<Rightarrow> Ok None
                      | Some s \<Rightarrow> and_then (normalize_error_summary s) (\<lambda>s. Ok (Some s)))
         (\<lambda>summary. Ok (ob\<lparr> ob_target_key := key, ob_error_summary := summary \<rparr>)))"

section \<open>The update\<close>

definition apply_staleness :: "unix \<Rightarrow> nat \<Rightarrow> target_health \<Rightarrow> target_health" where
  "apply_staleness now stale_after h =
     (let stale = (case th_last_probe h of
                     None \<Rightarrow> True
                   | Some last_probe \<Rightarrow> saturating_sub now last_probe \<ge> stale_after)
      in if stale then h\<lparr> th_effective_healthy := False \<rparr> else h)"

definition instantaneous_healthy :: "target_health_observation \<Rightarrow> bool" where
  "instantaneous_healthy ob \<longleftrightarrow>
     ob_member_alive ob \<and> ob_control_channel_healthy ob \<and> ob_application_healthy ob"

definition new_health :: "target_health_observation \<Rightarrow> bool \<Rightarrow> unix \<Rightarrow> target_health" where
  "new_health ob effective_healthy now =
     \<lparr> th_target_key = ob_target_key ob, th_member_alive = ob_member_alive ob,
       th_control_channel_healthy = ob_control_channel_healthy ob,
       th_application_healthy = ob_application_healthy ob,
       th_effective_healthy = effective_healthy,
       th_consecutive_successes = (if instantaneous_healthy ob then 1 else 0),
       th_consecutive_failures = (if instantaneous_healthy ob then 0 else 1),
       th_weight = ob_weight ob, th_revision = ob_revision ob, th_last_probe = Some now,
       th_last_transition = now, th_last_error_summary = ob_error_summary ob \<rparr>"

definition u32_saturating_add :: "nat \<Rightarrow> nat \<Rightarrow> nat" where
  "u32_saturating_add a b = min (a + b) (2 ^ 32 - 1)"

definition same_observation :: "target_health \<Rightarrow> target_health_observation \<Rightarrow> bool" where
  "same_observation h ob \<longleftrightarrow>
     ob_revision ob = th_revision h \<and> th_member_alive h = ob_member_alive ob \<and>
     th_control_channel_healthy h = ob_control_channel_healthy ob \<and>
     th_application_healthy h = ob_application_healthy ob \<and> th_weight h = ob_weight ob \<and>
     th_last_error_summary h = ob_error_summary ob"

definition calculate_update ::
  "target_health option \<Rightarrow> target_health_observation \<Rightarrow> unix \<Rightarrow> nat \<Rightarrow> nat \<Rightarrow>
     target_health_error + target_health_update" where
  "calculate_update current ob now success_threshold failure_threshold =
     (case current of
        None \<Rightarrow>
          (let effective = (success_threshold \<le> 1 \<and> instantaneous_healthy ob)
           in Ok \<lparr> up_accepted = True, up_duplicate = False, up_previous_effective_healthy = False,
                   up_health = new_health ob effective now \<rparr>)
      | Some h \<Rightarrow>
          if ob_revision ob < th_revision h
          then Ok \<lparr> up_accepted = False, up_duplicate = False,
                    up_previous_effective_healthy = th_effective_healthy h, up_health = h \<rparr>
          else if ob_revision ob = th_revision h
          then (if \<not> same_observation h ob then Err ThRevisionConflict
                else Ok \<lparr> up_accepted = False, up_duplicate = True,
                          up_previous_effective_healthy = th_effective_healthy h, up_health = h \<rparr>)
          else
            let (successes, failures, effective) =
                  (if instantaneous_healthy ob
                   then let s = min (u32_saturating_add (th_consecutive_successes h) 1) success_threshold
                        in (s, 0, th_effective_healthy h \<or> s \<ge> success_threshold)
                   else let f = min (u32_saturating_add (th_consecutive_failures h) 1) failure_threshold
                        in (0, f, th_effective_healthy h \<and> f < failure_threshold));
                transition_at = (if effective \<noteq> th_effective_healthy h then now else th_last_transition h)
            in Ok \<lparr> up_accepted = True, up_duplicate = False,
                    up_previous_effective_healthy = th_effective_healthy h,
                    up_health =
                      \<lparr> th_target_key = ob_target_key ob, th_member_alive = ob_member_alive ob,
                        th_control_channel_healthy = ob_control_channel_healthy ob,
                        th_application_healthy = ob_application_healthy ob,
                        th_effective_healthy = effective, th_consecutive_successes = successes,
                        th_consecutive_failures = failures, th_weight = ob_weight ob,
                        th_revision = ob_revision ob, th_last_probe = Some now,
                        th_last_transition = transition_at,
                        th_last_error_summary = ob_error_summary ob \<rparr> \<rparr>)"

section \<open>Operations\<close>

type_synonym health_table = "(str, target_health) hashmap"

definition write_health :: "target_health \<Rightarrow> health_table \<Rightarrow> target_health_error + health_table" where
  "write_health h table =
     map_err ThCoordination (and_then (as_i64 (th_revision h)) (\<lambda>_.
       and_then (case th_last_probe h of None \<Rightarrow> Ok () | Some t \<Rightarrow> as_i64 t) (\<lambda>_.
       and_then (as_i64 (th_last_transition h)) (\<lambda>_.
         Ok (hm_insert (th_target_key h) h table)))))"

definition observe ::
  "target_health_catalog \<Rightarrow> target_health_observation \<Rightarrow> token \<Rightarrow> unix \<Rightarrow> unix \<Rightarrow> ha_db \<Rightarrow> health_table \<Rightarrow>
     target_health_error + target_health_update \<times> health_table" where
  "observe cat raw token fence_now now db table =
     and_then (normalize_observation raw) (\<lambda>ob.
     if token = 0 then Err ThTokenNotPositive
     else and_then (map_err ThCoordination (assert_fence (tc_coordinator cat) token fence_now db)) (\<lambda>_.
       let current = map_option (apply_staleness now (tc_stale_after_seconds cat))
             (hm_get table (ob_target_key ob))
       in and_then (calculate_update current ob now (tc_success_threshold cat) (tc_failure_threshold cat))
         (\<lambda>update.
           if up_accepted update
           then and_then (write_health (up_health update) table) (\<lambda>table. Ok (update, table))
           else Ok (update, table))))"

definition health_get ::
  "target_health_catalog \<Rightarrow> str \<Rightarrow> unix \<Rightarrow> health_table \<Rightarrow> target_health_error + target_health option" where
  "health_get cat raw_key now table =
     and_then (normalize_target_key raw_key) (\<lambda>key.
       Ok (map_option (apply_staleness now (tc_stale_after_seconds cat)) (hm_get table key)))"

definition health_list :: "target_health_catalog \<Rightarrow> unix \<Rightarrow> health_table \<Rightarrow> target_health list" where
  "health_list cat now table =
     map (\<lambda>(k, h). apply_staleness now (tc_stale_after_seconds cat) h) (sort_key fst table)"

section \<open>The contract: health as a function of the accepted observations\<close>

text \<open>
  The history of a target lists its accepted observations, newest first, as healthy or not with
  the time of the probe. \<open>effective\<close> is what the three parameters promise about it: a target turns
  healthy after \<open>sc\<close> healthy observations in a row, turns unhealthy after \<open>fl\<close> unhealthy ones in a
  row, and is unhealthy after a gap of \<open>w\<close> seconds.
\<close>

type_synonym health_history = "(bool \<times> unix) list"

definition streak :: "bool \<Rightarrow> health_history \<Rightarrow> nat" where
  "streak b hist = length (takeWhile (\<lambda>(x, t). x = b) hist)"

definition recent :: "nat \<Rightarrow> unix \<Rightarrow> health_history \<Rightarrow> bool" where
  "recent w now hist \<longleftrightarrow> (case hist of [] \<Rightarrow> False | (b, t) # _ \<Rightarrow> now - t < w)"

fun effective :: "nat \<Rightarrow> nat \<Rightarrow> nat \<Rightarrow> health_history \<Rightarrow> bool" where
  "effective sc fl w [] = False"
| "effective sc fl w ((b, t) # hist) =
     (let before = effective sc fl w hist \<and> recent w t hist in
      if b then before \<or> sc \<le> streak True ((b, t) # hist)
      else before \<and> streak False ((b, t) # hist) < fl)"

definition signals :: "target_health \<Rightarrow> bool" where
  "signals h \<longleftrightarrow> th_member_alive h \<and> th_control_channel_healthy h \<and> th_application_healthy h"

text \<open>The operations as a machine, and the history its results tell.\<close>

type_synonym health_input = "target_health_observation \<times> token \<times> unix \<times> unix \<times> ha_db"

fun health_step ::
  "target_health_catalog \<Rightarrow> health_input \<Rightarrow> health_table \<Rightarrow>
     (health_table \<times> (target_health_error + target_health_update)) option" where
  "health_step cat (ob, token, fence_now, now, db) table =
     Some (case observe cat ob token fence_now now db table of
             Inl e \<Rightarrow> (table, Err e)
           | Inr (update, table') \<Rightarrow> (table', Ok update))"

definition told :: "str \<Rightarrow> target_health_error + target_health_update \<Rightarrow> health_history" where
  "told key r =
     (case r of
        Inl e \<Rightarrow> []
      | Inr u \<Rightarrow>
          if up_accepted u \<and> th_target_key (up_health u) = key
          then [(signals (up_health u), the (th_last_probe (up_health u)))] else [])"

definition history :: "str \<Rightarrow> (target_health_error + target_health_update) list \<Rightarrow> health_history" where
  "history key rs = concat (rev (map (told key) rs))"

definition row_matches :: "target_health_catalog \<Rightarrow> health_history \<Rightarrow> target_health \<Rightarrow> bool" where
  "row_matches cat hist h \<longleftrightarrow>
     hist \<noteq> [] \<and> th_last_probe h = Some (snd (hd hist)) \<and>
     th_effective_healthy h =
       effective (tc_success_threshold cat) (tc_failure_threshold cat) (tc_stale_after_seconds cat) hist \<and>
     th_consecutive_successes h = min (tc_success_threshold cat) (streak True hist) \<and>
     th_consecutive_failures h = min (tc_failure_threshold cat) (streak False hist)"

definition table_matches ::
  "target_health_catalog \<Rightarrow> (str \<Rightarrow> health_history) \<Rightarrow> health_table \<Rightarrow> bool" where
  "table_matches cat hist table \<longleftrightarrow>
     (\<forall>key. case hm_get table key of None \<Rightarrow> hist key = [] | Some h \<Rightarrow> row_matches cat (hist key) h)"

definition catalog_ok :: "target_health_catalog \<Rightarrow> bool" where
  "catalog_ok cat \<longleftrightarrow>
     1 \<le> tc_success_threshold cat \<and> tc_success_threshold cat \<le> 1000 \<and>
     1 \<le> tc_failure_threshold cat \<and> tc_failure_threshold cat \<le> 1000"

lemma catalog_open_ok: "catalog_open c s f w = Ok cat \<Longrightarrow> catalog_ok cat"
  by (auto simp: catalog_open_def catalog_ok_def split: if_splits)

lemma streak_simps [simp]:
  "streak b [] = 0"
  "streak b ((x, t) # hist) = (if x = b then Suc (streak b hist) else 0)"
  by (auto simp: streak_def)

lemma apply_staleness_fields [simp]:
  "th_consecutive_successes (apply_staleness now w h) = th_consecutive_successes h"
  "th_consecutive_failures (apply_staleness now w h) = th_consecutive_failures h"
  "th_revision (apply_staleness now w h) = th_revision h"
  by (auto simp: apply_staleness_def Let_def)

lemma apply_staleness_effective:
  "th_last_probe h = Some t \<Longrightarrow>
     th_effective_healthy (apply_staleness now w h) \<longleftrightarrow> th_effective_healthy h \<and> now - t < w"
  by (auto simp: apply_staleness_def saturating_sub_def Let_def)

lemma first_update:
  assumes "catalog_ok cat"
    and "calculate_update None ob now (tc_success_threshold cat) (tc_failure_threshold cat) = Ok u"
  shows "row_matches cat [(signals (up_health u), now)] (up_health u) \<and> th_last_probe (up_health u) = Some now \<and>
    th_target_key (up_health u) = ob_target_key ob"
  using assms
  by (auto simp: calculate_update_def new_health_def row_matches_def signals_def instantaneous_healthy_def
      catalog_ok_def recent_def)

lemma accepted_fields:
  assumes "calculate_update (Some h) ob now sc fl = Ok u" "up_accepted u"
  shows "signals (up_health u) = instantaneous_healthy ob" "th_last_probe (up_health u) = Some now"
    "th_target_key (up_health u) = ob_target_key ob"
    "th_consecutive_successes (up_health u) =
       (if instantaneous_healthy ob then min (u32_saturating_add (th_consecutive_successes h) 1) sc else 0)"
    "th_consecutive_failures (up_health u) =
       (if instantaneous_healthy ob then 0 else min (u32_saturating_add (th_consecutive_failures h) 1) fl)"
    "th_effective_healthy (up_health u) =
       (if instantaneous_healthy ob
        then th_effective_healthy h \<or> sc \<le> min (u32_saturating_add (th_consecutive_successes h) 1) sc
        else th_effective_healthy h \<and> min (u32_saturating_add (th_consecutive_failures h) 1) fl < fl)"
proof -
  have newer: "th_revision h < ob_revision ob"
    using assms by (auto simp: calculate_update_def split: if_splits)
  show "signals (up_health u) = instantaneous_healthy ob"
    using assms newer unfolding calculate_update_def
    by (cases "instantaneous_healthy ob") (auto simp: signals_def instantaneous_healthy_def Let_def)
qed (use assms in \<open>cases "instantaneous_healthy ob";
      auto simp: calculate_update_def Let_def split: if_splits\<close>)+

lemma next_update:
  assumes "catalog_ok cat" "row_matches cat hist h" "up_accepted u"
    and "calculate_update (Some (apply_staleness now (tc_stale_after_seconds cat) h)) ob now
           (tc_success_threshold cat) (tc_failure_threshold cat) = Ok u"
  shows "row_matches cat ((signals (up_health u), now) # hist) (up_health u) \<and>
    th_last_probe (up_health u) = Some now \<and> th_target_key (up_health u) = ob_target_key ob"
proof -
  obtain b t rest where hist: "hist = (b, t) # rest"
    using assms(2) by (cases hist) (auto simp: row_matches_def)
  with assms(2) have "th_last_probe h = Some t" by (simp add: row_matches_def)
  note eff = apply_staleness_effective [OF this, of now "tc_stale_after_seconds cat"]
  have cap: "u32_saturating_add (min (tc_success_threshold cat) k) (Suc 0) = Suc (min (tc_success_threshold cat) k)"
    "u32_saturating_add (min (tc_failure_threshold cat) k) (Suc 0) = Suc (min (tc_failure_threshold cat) k)" for k
    using assms(1) by (auto simp: u32_saturating_add_def catalog_ok_def)
  have recent: "recent (tc_stale_after_seconds cat) now hist \<longleftrightarrow> now - t < tc_stale_after_seconds cat"
    by (simp add: recent_def hist)
  note fields = accepted_fields [OF assms(4,3)]
  show ?thesis
    using assms(1,2)
    by (cases "instantaneous_healthy ob")
      (simp_all add: row_matches_def catalog_ok_def fields eff cap recent Let_def min_less_iff_disj, auto)
qed

lemma write_health_ok: "write_health h table = Ok table' \<Longrightarrow> table' = hm_insert (th_target_key h) h table"
  by (auto simp: write_health_def map_err_ok_iff and_then_ok_iff)

lemma observe_cases:
  assumes "observe cat raw token fence_now now db table = Ok (u, table')"
  obtains (ignored) "\<not> up_accepted u" "table' = table"
  | (stored) ob where "up_accepted u" "table' = hm_insert (th_target_key (up_health u)) (up_health u) table"
      "calculate_update (map_option (apply_staleness now (tc_stale_after_seconds cat))
         (hm_get table (ob_target_key ob))) ob now (tc_success_threshold cat) (tc_failure_threshold cat) = Ok u"
  using assms
  by (auto simp: observe_def and_then_ok_iff Let_def split: if_splits dest!: write_health_ok)

lemma table_matches_step:
  assumes "catalog_ok cat" "table_matches cat hist table"
    and "observe cat raw token fence_now now db table = Ok (u, table')"
  shows "table_matches cat (\<lambda>key. told key (Ok u) @ hist key) table'"
  using assms(3)
proof (cases rule: observe_cases)
  case ignored
  then show ?thesis using assms(2) by (simp add: told_def)
next
  case (stored ob)
  have row: "row_matches cat ((signals (up_health u), now) # hist (ob_target_key ob)) (up_health u) \<and>
    th_last_probe (up_health u) = Some now \<and> th_target_key (up_health u) = ob_target_key ob"
  proof (cases "hm_get table (ob_target_key ob)")
    case None
    moreover from this have "hist (ob_target_key ob) = []"
      using assms(2) unfolding table_matches_def by (metis option.simps(4))
    ultimately show ?thesis using first_update [OF assms(1)] stored(3) by simp
  next
    case (Some h)
    moreover from this have "row_matches cat (hist (ob_target_key ob)) h"
      using assms(2) unfolding table_matches_def by (metis option.simps(5))
    ultimately show ?thesis using next_update [OF assms(1)] stored(1,3) by simp
  qed
  show ?thesis unfolding table_matches_def
  proof
    fix key
    have "told key (Ok u) = (if key = ob_target_key ob then [(signals (up_health u), now)] else [])"
      using row stored(1) by (simp add: told_def)
    then show "case hm_get table' key of None \<Rightarrow> told key (Ok u) @ hist key = []
      | Some h \<Rightarrow> row_matches cat (told key (Ok u) @ hist key) h"
      using row stored(2) spec [OF assms(2) [unfolded table_matches_def], of key]
      by (cases "key = ob_target_key ob") (simp_all split: option.split_asm option.split del: map_of_eq_Some_iff)
  qed
qed

lemma table_matches_run:
  assumes "catalog_ok cat"
  shows "table_matches cat hist table \<Longrightarrow> run_machine (health_step cat) ops table = Some (table', rs) \<Longrightarrow>
    table_matches cat (\<lambda>key. history key rs @ hist key) table'"
proof (induction ops arbitrary: hist table rs)
  case Nil
  then show ?case by (simp add: history_def)
next
  case (Cons op ops)
  obtain raw token fnow now db where op: "op = (raw, token, fnow, now, db)" by (cases op) auto
  from Cons.prems(2) obtain d x ys where d: "health_step cat op table = Some (d, x)"
    and run: "run_machine (health_step cat) ops d = Some (table', ys)" and rs: "rs = x # ys"
    by (auto split: option.splits)
  have "table_matches cat (\<lambda>key. told key x @ hist key) d"
    using d Cons.prems(1) table_matches_step [OF assms Cons.prems(1)]
    by (cases "observe cat raw token fnow now db table") (auto simp: op told_def)
  from Cons.IH [OF this run] show ?case by (simp add: rs history_def)
qed

section \<open>Properties\<close>

text \<open>
  C24. Target health is exactly the hysteresis the thresholds promise. For every sequence of
  observations through a catalog that was opened, reading a target gives no row if no observation
  of it was accepted, and otherwise a row that is healthy if and only if the accepted observations
  make it so and the last of them is not older than the staleness timeout.
\<close>

theorem target_health_hysteresis:
  assumes "catalog_open c sc fl w = Ok cat"
    and "run_machine (health_step cat) ops [] = Some (table, rs)"
    and "normalize_target_key raw_key = Ok key"
  shows "\<exists>row. health_get cat raw_key now table = Ok row \<and>
    (case row of
       None \<Rightarrow> history key rs = []
     | Some h \<Rightarrow> th_effective_healthy h =
         (effective sc fl w (history key rs) \<and> recent w now (history key rs)))"
proof -
  have cat: "tc_success_threshold cat = sc" "tc_failure_threshold cat = fl" "tc_stale_after_seconds cat = w"
    using assms(1) by (auto simp: catalog_open_def split: if_splits)
  have "table_matches cat (\<lambda>_. []) []" by (simp add: table_matches_def)
  from table_matches_run [OF catalog_open_ok [OF assms(1)] this assms(2)]
  have row: "case hm_get table key of None \<Rightarrow> history key rs = []
    | Some h \<Rightarrow> row_matches cat (history key rs) h"
    by (simp add: table_matches_def)
  show ?thesis
  proof (cases "hm_get table key")
    case None
    with row assms(3) show ?thesis by (simp add: health_get_def)
  next
    case (Some h)
    with row have h: "row_matches cat (history key rs) h" by simp
    then obtain b t rest where hist: "history key rs = (b, t) # rest"
      by (cases "history key rs") (auto simp: row_matches_def)
    with h have "th_last_probe h = Some t" by (simp add: row_matches_def)
    from apply_staleness_effective [OF this, of now w] h Some assms(3) show ?thesis
      by (auto simp: health_get_def row_matches_def cat recent_def hist)
  qed
qed

text \<open>
  C25. Observations are idempotent and ordered by revision. Once an observation has been accepted,
  reporting the same one again is answered as a duplicate, reporting an older revision is ignored,
  and reporting other contents under the same revision is an error; none of them changes the table.
\<close>

theorem observation_idempotent:
  assumes "observe cat raw token fence_now now db table = Ok (u, table1)" and "up_accepted u"
    and "normalize_observation raw = Ok ob"
    and "normalize_observation raw' = Ok ob'" and "ob_target_key ob' = ob_target_key ob"
    and "ob_revision ob' \<le> ob_revision ob" and "0 < token'"
    and "assert_fence (tc_coordinator cat) token' fence_now' db' = Ok ()"
  shows "if ob_revision ob' = ob_revision ob \<and> ob' \<noteq> ob
    then observe cat raw' token' fence_now' now' db' table1 = Err ThRevisionConflict
    else \<exists>u'. observe cat raw' token' fence_now' now' db' table1 = Ok (u', table1) \<and>
      \<not> up_accepted u' \<and> (up_duplicate u' \<longleftrightarrow> ob' = ob)"
proof -
  let ?h = "up_health u"
  let ?current = "map_option (apply_staleness now (tc_stale_after_seconds cat)) (hm_get table (ob_target_key ob))"
  from assms(1,2,3) have calc: "calculate_update ?current ob now (tc_success_threshold cat)
      (tc_failure_threshold cat) = Ok u" and table1: "table1 = hm_insert (th_target_key ?h) ?h table"
    by (auto simp: observe_def and_then_ok_iff Let_def split: if_splits dest!: write_health_ok)
  have h: "th_target_key ?h = ob_target_key ob" "same_observation ?h ob"
    using calc assms(2) by (auto simp: calculate_update_def new_health_def same_observation_def Let_def
        split: option.splits if_splits)
  let ?h' = "apply_staleness now' (tc_stale_after_seconds cat) ?h"
  have row: "same_observation ?h' ob'' \<longleftrightarrow> same_observation ?h ob''" for ob''
    by (simp add: same_observation_def apply_staleness_def Let_def)
  have same: "same_observation ?h ob' \<longleftrightarrow> ob' = ob"
    using h(2) assms(5) by (auto simp: same_observation_def intro!: target_health_observation.equality)
  have rev: "th_revision ?h = ob_revision ob" using h(2) by (simp add: same_observation_def)
  have stored: "hm_get table1 (ob_target_key ob) = Some ?h" by (simp add: table1 h(1))
  have "observe cat raw' token' fence_now' now' db' table1 =
      and_then (calculate_update (Some ?h') ob' now' (tc_success_threshold cat) (tc_failure_threshold cat))
        (\<lambda>update. if up_accepted update
           then and_then (write_health (up_health update) table1) (\<lambda>table. Ok (update, table))
           else Ok (update, table1))"
    using assms(4,5,7,8) stored by (simp add: observe_def Let_def map_err_def)
  then show ?thesis
    using assms(6)
    by (cases "ob_revision ob' < ob_revision ob"; cases "ob' = ob") (simp_all add: calculate_update_def row same rev h(2))
qed

section \<open>A target that turns healthy\<close>

definition sample_cat :: target_health_catalog where
  "sample_cat = \<lparr> tc_coordinator = alice, tc_success_threshold = 2, tc_failure_threshold = 3,
     tc_stale_after_seconds = 30 \<rparr>"

definition sample_ob :: "nat \<Rightarrow> target_health_observation" where
  "sample_ob revision = \<lparr> ob_target_key = [116], ob_member_alive = True,
     ob_control_channel_healthy = True, ob_application_healthy = True, ob_weight = 1,
     ob_revision = revision, ob_error_summary = None \<rparr>"

definition sample_health :: "nat \<Rightarrow> bool \<Rightarrow> nat \<Rightarrow> unix \<Rightarrow> target_health" where
  "sample_health revision effective_healthy n now = \<lparr> th_target_key = [116], th_member_alive = True,
     th_control_channel_healthy = True, th_application_healthy = True,
     th_effective_healthy = effective_healthy, th_consecutive_successes = n,
     th_consecutive_failures = 0, th_weight = 1, th_revision = revision, th_last_probe = Some now,
     th_last_transition = now, th_last_error_summary = None \<rparr>"

definition sample_update :: "target_health \<Rightarrow> target_health_update" where
  "sample_update h = \<lparr> up_accepted = True, up_duplicate = False, up_previous_effective_healthy = False,
     up_health = h \<rparr>"

lemma sample_key: "normalize_target_key [116] = Ok [116]"
  by (simp add: normalize_target_key_def text_eval MAX_TARGET_KEY_BYTES_def)

lemma sample_normalized: "r \<le> 9 \<Longrightarrow> normalize_observation (sample_ob r) = Ok (sample_ob r)"
  by (simp add: normalize_observation_def sample_ob_def sample_key MAX_WEIGHT_def MAX_REVISION_def i64_max_def)

lemma sample_normalized12:
  "normalize_observation (sample_ob 1) = Ok (sample_ob 1)" "normalize_observation (sample_ob 2) = Ok (sample_ob 2)"
  by (rule sample_normalized; simp)+

lemma sample_fence: "assert_fence alice (Suc 0) 101 db1 = Ok ()"
  by (simp add: assert_fence_def db1_def ha_eval)

lemmas health_eval = sample_cat_def sample_fence calculate_update_def
  new_health_def instantaneous_healthy_def write_health_def sample_ob_def sample_health_def sample_update_def
  map_err_def as_i64_def i64_max_def apply_staleness_def saturating_sub_def u32_saturating_add_def Let_def

lemma sample_observe1:
  "observe sample_cat (sample_ob 1) 1 101 101 db1 [] =
     Ok (sample_update (sample_health 1 False 1 101), [([116], sample_health 1 False 1 101)])"
  unfolding observe_def sample_normalized12 and_then_simps
  by (simp add: health_eval)

lemma sample_observe2:
  "observe sample_cat (sample_ob 2) 1 101 103 db1 [([116], sample_health 1 False 1 101)] =
     Ok (sample_update (sample_health 2 True 2 103), [([116], sample_health 2 True 2 103)])"
  unfolding observe_def sample_normalized12 and_then_simps
  by (simp add: health_eval)

theorem target_health_hysteresis_witness:
  "\<exists>h. health_get sample_cat [116] 110 [([116], sample_health 2 True 2 103)] = Ok (Some h) \<and>
     th_effective_healthy h \<and> effective 2 3 30 [(True, 103), (True, 101)]"
proof -
  let ?ops = "[(sample_ob 1, 1, 101, 101, db1), (sample_ob 2, 1, 101, 103, db1)]"
  have cat: "catalog_open alice 2 3 30 = Ok sample_cat"
    by (simp add: catalog_open_def sample_cat_def)
  have run: "run_machine (health_step sample_cat) ?ops [] =
      Some ([([116], sample_health 2 True 2 103)],
        [Ok (sample_update (sample_health 1 False 1 101)), Ok (sample_update (sample_health 2 True 2 103))])"
    by (simp add: sample_observe1 sample_observe2 del: One_nat_def)
  have hist: "history [116] [Ok (sample_update (sample_health 1 False 1 101)),
      Ok (sample_update (sample_health 2 True 2 103))] = [(True, 103), (True, 101)]"
    by (simp add: history_def told_def sample_update_def sample_health_def signals_def)
  have healthy: "effective 2 3 30 [(True, 103), (True, 101)]" "recent 30 110 [(True, 103), (True, 101)]"
    by (simp_all add: recent_def)
  have row: "health_get sample_cat [116] 110 [([116], sample_health 2 True 2 103)] \<noteq> Ok None"
    by (simp add: health_get_def sample_key)
  from target_health_hysteresis [OF cat run sample_key, of 110, unfolded hist] healthy row show ?thesis
    by (auto split: option.splits)
qed

theorem observation_idempotent_witness:
  "\<exists>u. observe sample_cat (sample_ob 1) 1 101 105 db1 [([116], sample_health 1 False 1 101)] =
       Ok (u, [([116], sample_health 1 False 1 101)]) \<and> \<not> up_accepted u \<and> up_duplicate u"
proof -
  have accepted: "up_accepted (sample_update (sample_health 1 False 1 101))" by (simp add: sample_update_def)
  have fence: "assert_fence (tc_coordinator sample_cat) 1 101 db1 = Ok ()"
    by (simp add: sample_cat_def sample_fence)
  note norm = sample_normalized12(1)
  show ?thesis
    using observation_idempotent [OF sample_observe1 accepted norm norm refl order_refl zero_less_one fence, of 105]
    by auto
qed

end
