(* ===== verification/Ha_Runtime.thy ===== *)
theory Ha_Runtime
  imports Ha_Leases Target_Health
begin

text \<open>
  The runtime of one server process (\<open>linklake-server/src/ha_runtime.rs\<close>): its configuration from
  the environment, the leadership it believes to hold, heartbeats that renew or lose it, and the
  maintenance of expired leases. A heartbeat is two transactions, so the transactions of other
  processes that run between them are an argument; a heartbeat that times out is dropped after
  any of its transactions. The handle on the fleet tables is the coordinator itself and has no
  field of its own; log messages are not modelled.
\<close>

section \<open>Configuration\<close>

text \<open>\<open>env::var(name).ok()\<close>: a variable that is not set or not Unicode gives nothing.\<close>

type_synonym environment = "str \<Rightarrow> str option"

datatype runtime_error =
    RtNotAnInteger str
  | RtOutOfRange str
  | RtLeaderLeaseExceedsMemberLease
  | RtHeartbeatTooLong
  | RtNotLeader
  | RtCoordination ha_error
  | RtTargetHealth target_health_error

definition DEFAULT_MEMBER_LEASE_SECONDS :: nat where
  "DEFAULT_MEMBER_LEASE_SECONDS = 30"

definition DEFAULT_LEADER_LEASE_SECONDS :: nat where
  "DEFAULT_LEADER_LEASE_SECONDS = 15"

definition DEFAULT_HEARTBEAT_SECONDS :: nat where
  "DEFAULT_HEARTBEAT_SECONDS = 5"

definition DEFAULT_RESOURCE_LEASE_SECONDS :: nat where
  "DEFAULT_RESOURCE_LEASE_SECONDS = 15"

definition DEFAULT_JOB_LEASE_SECONDS :: nat where
  "DEFAULT_JOB_LEASE_SECONDS = 30"

definition DEFAULT_TARGET_SUCCESS_THRESHOLD :: nat where
  "DEFAULT_TARGET_SUCCESS_THRESHOLD = 2"

definition DEFAULT_TARGET_FAILURE_THRESHOLD :: nat where
  "DEFAULT_TARGET_FAILURE_THRESHOLD = 3"

definition DEFAULT_TARGET_STALE_AFTER_SECONDS :: nat where
  "DEFAULT_TARGET_STALE_AFTER_SECONDS = 30"

definition RUNTIME_EVENT_CAPACITY :: nat where
  "RUNTIME_EVENT_CAPACITY = 64"

record ha_runtime_config =
  cf_instance_id :: str
  cf_metadata_json :: str
  cf_member_lease :: nat
  cf_leader_lease :: nat
  cf_heartbeat :: nat
  cf_resource_lease :: nat
  cf_job_lease :: nat
  cf_target_success_threshold :: nat
  cf_target_failure_threshold :: nat
  cf_target_stale_after :: nat

definition parse_duration :: "environment \<Rightarrow> str \<Rightarrow> nat \<Rightarrow> nat \<Rightarrow> nat \<Rightarrow> runtime_error + nat" where
  "parse_duration env name default_seconds minimum_seconds maximum_seconds =
     and_then (case env name of
                 None \<Rightarrow> Ok default_seconds
               | Some v \<Rightarrow> ok_or (parse_uint u64_max (trim v)) (RtNotAnInteger name)) (\<lambda>seconds.
       if minimum_seconds \<le> seconds \<and> seconds \<le> maximum_seconds then Ok seconds
       else Err (RtOutOfRange name))"

definition parse_u32 :: "environment \<Rightarrow> str \<Rightarrow> nat \<Rightarrow> nat \<Rightarrow> nat \<Rightarrow> runtime_error + nat" where
  "parse_u32 env name default_value minimum maximum =
     and_then (case env name of
                 None \<Rightarrow> Ok default_value
               | Some v \<Rightarrow> ok_or (parse_uint (2 ^ 32 - 1) (trim v)) (RtNotAnInteger name)) (\<lambda>v.
       if minimum \<le> v \<and> v \<le> maximum then Ok v else Err (RtOutOfRange name))"

definition env_text :: "environment \<Rightarrow> str \<Rightarrow> str \<Rightarrow> str" where
  "env_text env name fallback =
     (case env name of
        Some v \<Rightarrow> if trim v = [] then fallback else trim v
      | None \<Rightarrow> fallback)"

definition config_from_environment :: "environment \<Rightarrow> str \<Rightarrow> runtime_error + ha_runtime_config" where
  "config_from_environment env default_instance_id =
     (let instance_id = env_text env (lit ''LINKLAKE_HA_INSTANCE_ID'') default_instance_id;
          metadata_json = env_text env (lit ''LINKLAKE_HA_METADATA_JSON'') (lit ''{}'') in
      and_then (parse_duration env (lit ''LINKLAKE_HA_MEMBER_LEASE_SECONDS'')
          DEFAULT_MEMBER_LEASE_SECONDS 5 300) (\<lambda>member_lease.
      and_then (parse_duration env (lit ''LINKLAKE_HA_LEADER_LEASE_SECONDS'')
          DEFAULT_LEADER_LEASE_SECONDS 3 120) (\<lambda>leader_lease.
      and_then (parse_duration env (lit ''LINKLAKE_HA_HEARTBEAT_SECONDS'')
          DEFAULT_HEARTBEAT_SECONDS 1 60) (\<lambda>heartbeat.
      and_then (parse_duration env (lit ''LINKLAKE_HA_RESOURCE_LEASE_SECONDS'')
          DEFAULT_RESOURCE_LEASE_SECONDS 2 300) (\<lambda>resource_lease.
      and_then (parse_duration env (lit ''LINKLAKE_HA_JOB_LEASE_SECONDS'')
          DEFAULT_JOB_LEASE_SECONDS 2 300) (\<lambda>job_lease.
      if \<not> leader_lease \<le> member_lease then Err RtLeaderLeaseExceedsMemberLease
      else if \<not> (heartbeat < leader_lease \<and> heartbeat < member_lease \<and> heartbeat < resource_lease \<and>
                heartbeat < job_lease) then Err RtHeartbeatTooLong
      else
      and_then (parse_u32 env (lit ''LINKLAKE_TARGET_HEALTH_SUCCESS_THRESHOLD'')
          DEFAULT_TARGET_SUCCESS_THRESHOLD 1 1000) (\<lambda>success_threshold.
      and_then (parse_u32 env (lit ''LINKLAKE_TARGET_HEALTH_FAILURE_THRESHOLD'')
          DEFAULT_TARGET_FAILURE_THRESHOLD 1 1000) (\<lambda>failure_threshold.
      and_then (parse_duration env (lit ''LINKLAKE_TARGET_HEALTH_STALE_SECONDS'')
          DEFAULT_TARGET_STALE_AFTER_SECONDS 1 86400) (\<lambda>stale_after.
        Ok \<lparr> cf_instance_id = instance_id, cf_metadata_json = metadata_json,
             cf_member_lease = member_lease, cf_leader_lease = leader_lease,
             cf_heartbeat = heartbeat, cf_resource_lease = resource_lease, cf_job_lease = job_lease,
             cf_target_success_threshold = success_threshold,
             cf_target_failure_threshold = failure_threshold,
             cf_target_stale_after = stale_after \<rparr>)))))))))"

section \<open>The runtime\<close>

datatype leadership_transition = Gained | Retained | Lost | Follower

record ha_runtime_event =
  ev_at_unix_seconds :: unix
  ev_code :: str
  ev_severity :: str
  ev_message :: str
  ev_fencing_token :: "token option"

text \<open>\<open>rt_leadership\<close> is the value of the watch channel.\<close>

record ha_runtime =
  rt_coordinator :: ha_coordinator
  rt_public_ports :: public_port_ownership
  rt_jobs :: job_leases
  rt_target_health :: target_health_catalog
  rt_leadership :: "leadership_lease option"
  rt_leader :: bool
  rt_fencing_token :: token
  rt_events :: "ha_runtime_event list"
  rt_heartbeat :: nat

definition runtime_open ::
  "json_lib \<Rightarrow> str \<Rightarrow> ha_runtime_config \<Rightarrow> runtime_error + ha_runtime" where
  "runtime_open js incarnation cf =
     and_then (map_err RtCoordination (coordinator_open js incarnation (cf_instance_id cf)
         (cf_metadata_json cf) (cf_member_lease cf) (cf_leader_lease cf))) (\<lambda>c.
     and_then (map_err RtCoordination (ownership_open c (cf_resource_lease cf))) (\<lambda>public_ports.
     and_then (map_err RtCoordination (jobs_open c (cf_job_lease cf))) (\<lambda>jobs.
     and_then (map_err RtTargetHealth (catalog_open c (cf_target_success_threshold cf)
         (cf_target_failure_threshold cf) (cf_target_stale_after cf))) (\<lambda>target_health.
       Ok \<lparr> rt_coordinator = c, rt_public_ports = public_ports, rt_jobs = jobs,
            rt_target_health = target_health, rt_leadership = None, rt_leader = False,
            rt_fencing_token = 0, rt_events = [], rt_heartbeat = cf_heartbeat cf \<rparr>))))"

definition clear_leadership :: "ha_runtime \<Rightarrow> ha_runtime \<times> bool" where
  "clear_leadership rt =
     (rt\<lparr> rt_leader := False, rt_fencing_token := 0, rt_leadership := None \<rparr>, rt_leader rt)"

definition publish_leadership :: "leadership_lease option \<Rightarrow> ha_runtime \<Rightarrow> ha_runtime" where
  "publish_leadership leadership rt =
     (case leadership of
        Some lease \<Rightarrow> rt\<lparr> rt_leadership := Some lease, rt_fencing_token := ll_fencing_token lease,
                         rt_leader := True \<rparr>
      | None \<Rightarrow> fst (clear_leadership rt))"

definition record_event :: "unix \<Rightarrow> str \<Rightarrow> str \<Rightarrow> str \<Rightarrow> token option \<Rightarrow> ha_runtime \<Rightarrow> ha_runtime" where
  "record_event at code severity message fencing_token rt =
     rt\<lparr> rt_events := take RUNTIME_EVENT_CAPACITY
       (\<lparr> ev_at_unix_seconds = at, ev_code = code, ev_severity = severity, ev_message = message,
          ev_fencing_token = fencing_token \<rparr> # rt_events rt) \<rparr>"

definition recent_events :: "nat \<Rightarrow> ha_runtime \<Rightarrow> ha_runtime_event list" where
  "recent_events limit rt = take limit (rt_events rt)"

definition runtime_token :: "ha_runtime \<Rightarrow> runtime_error + token" where
  "runtime_token rt =
     (if rt_leader rt \<and> rt_fencing_token rt > 0 then Ok (rt_fencing_token rt) else Err RtNotLeader)"

text \<open>Transactions of other processes between two transactions of this one.\<close>

definition meanwhile :: "json_lib \<Rightarrow> ha_op list \<Rightarrow> ha_db \<Rightarrow> ha_db" where
  "meanwhile js ops db =
     fold (\<lambda>op db. case ha_step js op db of Some (db', _) \<Rightarrow> db' | None \<Rightarrow> db) ops db"

definition bootstrap ::
  "json_lib \<Rightarrow> bool \<Rightarrow> unix \<Rightarrow> ha_op list \<Rightarrow> unix \<Rightarrow> unix \<Rightarrow> ha_runtime \<Rightarrow> ha_db \<Rightarrow>
     ha_runtime \<times> ha_db \<times> (ha_error + ha_member \<times> leadership_transition)" where
  "bootstrap js claimed now1 others now2 at rt db =
     (let c = rt_coordinator rt; (_, db) = recover_stale_leases claimed db in
      case register_or_renew_member js c now1 db of
        Inl e \<Rightarrow> (rt, db, Err e)
      | Inr (member, db) \<Rightarrow>
          (let db = meanwhile js others db in
           case try_acquire_leadership c now2 db of
             Inl e \<Rightarrow> (rt, db, Err e)
           | Inr (leadership, db) \<Rightarrow>
               (let transition = (if leadership \<noteq> None then Gained else Follower);
                    rt = publish_leadership leadership rt;
                    rt = (case rt_leadership rt of
                            Some lease \<Rightarrow> record_event at (lit ''leader_acquired'') (lit ''info'')
                              (lit ''HA leadership acquired'') (Some (ll_fencing_token lease)) rt
                          | None \<Rightarrow> record_event at (lit ''follower_started'') (lit ''info'')
                              (lit ''HA instance is a follower'') None rt)
                in (rt, db, Ok (member, transition)))))"

definition transition_of :: "bool \<Rightarrow> bool \<Rightarrow> leadership_transition" where
  "transition_of before after_it =
     (if before then (if after_it then Retained else Lost) else (if after_it then Gained else Follower))"

definition lead_transaction ::
  "ha_coordinator \<Rightarrow> leadership_lease option \<Rightarrow> unix \<Rightarrow> ha_db \<Rightarrow> ha_error + leadership_lease option \<times> ha_db" where
  "lead_transaction c previous now db =
     (case previous of
        Some lease \<Rightarrow> renew_leadership c (ll_fencing_token lease) now db
      | None \<Rightarrow> try_acquire_leadership c now db)"

definition refresh ::
  "json_lib \<Rightarrow> unix \<Rightarrow> ha_op list \<Rightarrow> unix \<Rightarrow> unix \<Rightarrow> ha_runtime \<Rightarrow> ha_db \<Rightarrow>
     ha_runtime \<times> ha_db \<times> (ha_error + leadership_transition)" where
  "refresh js now1 others now2 at rt db =
     (case register_or_renew_member js (rt_coordinator rt) now1 db of
        Inl e \<Rightarrow> (rt, db, Err e)
      | Inr (member, db) \<Rightarrow>
          (let db = meanwhile js others db; previous = rt_leadership rt in
           case lead_transaction (rt_coordinator rt) previous now2 db of
             Inl e \<Rightarrow> (rt, db, Err e)
           | Inr (nxt, db) \<Rightarrow>
               (let transition = transition_of (previous \<noteq> None) (nxt \<noteq> None);
                    rt = publish_leadership nxt rt;
                    rt = (case transition of
                            Gained \<Rightarrow> record_event at (lit ''leader_acquired'') (lit ''info'')
                              (lit ''HA leadership acquired'') (map_option ll_fencing_token (rt_leadership rt)) rt
                          | Lost \<Rightarrow> record_event at (lit ''leader_lost'') (lit ''warning'')
                              (lit ''HA leadership was lost and mutating work is fenced'')
                              (map_option ll_fencing_token previous) rt
                          | _ \<Rightarrow> rt)
                in (rt, db, Ok transition))))"

text \<open>
  One round of \<open>run_heartbeats\<close>. A refresh that times out is dropped with none, one or both of its
  transactions committed; the runtime then forgets its leadership, as after a failed refresh.
\<close>

datatype beat =
    Beat unix "ha_op list" unix
  | LateBefore
  | LateAfterMember unix
  | LateAfterLead unix "ha_op list" unix

definition failed_beat :: "unix \<Rightarrow> str \<Rightarrow> str \<Rightarrow> ha_runtime \<Rightarrow> ha_runtime" where
  "failed_beat at code message rt =
     record_event at code (lit ''warning'') message None (fst (clear_leadership rt))"

definition late_beat :: "unix \<Rightarrow> ha_runtime \<Rightarrow> ha_runtime" where
  "late_beat at rt =
     failed_beat at (lit ''heartbeat_timeout'') (lit ''HA heartbeat timed out; leadership was cleared'') rt"

definition committed_db :: "ha_db \<Rightarrow> 'e + 'a \<times> ha_db \<Rightarrow> ha_db" where
  "committed_db db r = (case r of Inl _ \<Rightarrow> db | Inr (_, db') \<Rightarrow> db')"

fun heartbeat_round ::
  "json_lib \<Rightarrow> beat \<Rightarrow> unix \<Rightarrow> ha_runtime \<Rightarrow> ha_db \<Rightarrow> ha_runtime \<times> ha_db" where
  "heartbeat_round js (Beat now1 others now2) at rt db =
     (case refresh js now1 others now2 at rt db of
        (rt, db, Inr transition) \<Rightarrow> (rt, db)
      | (rt, db, Inl e) \<Rightarrow>
          (failed_beat at (lit ''heartbeat_failed'') (lit ''HA heartbeat failed; leadership was cleared'') rt, db))"
| "heartbeat_round js LateBefore at rt db = (late_beat at rt, db)"
| "heartbeat_round js (LateAfterMember now1) at rt db =
     (late_beat at rt, committed_db db (register_or_renew_member js (rt_coordinator rt) now1 db))"
| "heartbeat_round js (LateAfterLead now1 others now2) at rt db =
     (case refresh js now1 others now2 at rt db of (_, db, _) \<Rightarrow> (late_beat at rt, db))"

text \<open>The two batches of \<open>maintain_expired_leases\<close>; each starts only while this process leads.\<close>

definition maintain_members :: "unix \<Rightarrow> ha_runtime \<Rightarrow> ha_db \<Rightarrow> ha_db" where
  "maintain_members now rt db = (if rt_leader rt then snd (prune_expired_members now db) else db)"

definition maintain_ports :: "unix \<Rightarrow> bool \<Rightarrow> ha_runtime \<Rightarrow> ha_db \<Rightarrow> ha_db" where
  "maintain_ports now shutdown rt db =
     (if \<not> shutdown \<and> rt_leader rt then snd (ports_prune_expired now db) else db)"

text \<open>Leaving the supervision loop on shutdown.\<close>

definition end_supervision :: "ha_runtime \<Rightarrow> ha_runtime" where
  "end_supervision rt = fst (clear_leadership rt)"

section \<open>A cluster of processes\<close>

text \<open>
  What a database and the processes around it can reach: processes start with an incarnation id
  nobody used before, then bootstrap, beat, maintain and stop in any order, and any other
  transaction may run at any time.
\<close>

inductive cluster :: "json_lib \<Rightarrow> ha_db \<Rightarrow> ha_runtime list \<Rightarrow> bool" for js where
  empty_cluster: "cluster js initial_db []"
| joins:
    "cluster js db rts \<Longrightarrow> runtime_open js incarnation cf = Ok rt \<Longrightarrow>
     incarnation \<notin> (\<lambda>rt. co_incarnation_id (rt_coordinator rt)) ` set rts \<Longrightarrow> cluster js db (rts @ [rt])"
| boots:
    "cluster js db rts \<Longrightarrow> i < length rts \<Longrightarrow>
     bootstrap js claimed now1 others now2 at (rts ! i) db = (rt, db', r) \<Longrightarrow> cluster js db' (rts[i := rt])"
| beats:
    "cluster js db rts \<Longrightarrow> i < length rts \<Longrightarrow>
     heartbeat_round js b at (rts ! i) db = (rt, db') \<Longrightarrow> cluster js db' (rts[i := rt])"
| maintains:
    "cluster js db rts \<Longrightarrow> rt \<in> set rts \<Longrightarrow>
     db' = maintain_members now rt db \<or> db' = maintain_ports now shutdown rt db \<Longrightarrow> cluster js db' rts"
| stops: "cluster js db rts \<Longrightarrow> i < length rts \<Longrightarrow> cluster js db (rts[i := end_supervision (rts ! i)])"
| transacts: "cluster js db rts \<Longrightarrow> ha_step js op db = Some (db', x) \<Longrightarrow> cluster js db' rts"

section \<open>How a database evolves\<close>

text \<open>
  A later leader row is the earlier one, renewed, or carries a token that had not been handed out.
\<close>

definition evolves :: "ha_db \<Rightarrow> ha_db \<Rightarrow> bool" where
  "evolves db db' \<longleftrightarrow>
     db_next_token db \<le> db_next_token db' \<and>
     (\<forall>ld'. db_leader db' = Some ld' \<longrightarrow>
        db_next_token db \<le> ll_fencing_token ld' \<or>
        (\<exists>ld. db_leader db = Some ld \<and> ll_fencing_token ld = ll_fencing_token ld' \<and>
              ll_instance_id ld = ll_instance_id ld' \<and> ll_incarnation_id ld = ll_incarnation_id ld'))"

lemma evolves_refl: "evolves db db"
  by (auto simp: evolves_def)

lemma evolves_trans: "evolves a b \<Longrightarrow> evolves b c \<Longrightarrow> evolves a c"
  unfolding evolves_def by (metis order_trans)

lemma evolves_change: "ha_change db db' \<Longrightarrow> evolves db db'"
  by (cases rule: ha_change.cases) (fastforce simp: evolves_def recover_stale_leases_def)+

interpretation token_machine: monotone_machine ha_inv "ha_step js" evolves for js
  by unfold_locales (auto intro: evolves_refl evolves_trans evolves_change ha_step_change)

lemma meanwhile_run: "\<exists>xs. run_machine (ha_step js) ops db = Some (meanwhile js ops db, xs)"
proof (induction ops arbitrary: db)
  case Nil
  then show ?case by (simp add: meanwhile_def)
next
  case (Cons op ops)
  obtain d x where d: "ha_step js op db = Some (d, x)" using ha_step_total by blast
  moreover obtain xs where "run_machine (ha_step js) ops d = Some (meanwhile js ops d, xs)"
    using Cons.IH by blast
  ultimately show ?case by (simp add: meanwhile_def)
qed

lemma meanwhile_safe:
  assumes "ha_inv db"
  shows "ha_inv (meanwhile js ops db)" and "evolves db (meanwhile js ops db)"
  using meanwhile_run [of js ops db] ha_machine.run_inv [OF assms] token_machine.run_le [OF assms] by blast+

lemma register_safe:
  assumes "register_or_renew_member js c now db = Ok (m, db')" "ha_inv db"
  shows "ha_inv db'" and "evolves db db'"
  using register_change [OF assms(1)] assms(2) by (auto intro: ha_change_inv evolves_change)

lemma lead_transaction_change:
  "lead_transaction c prev now db = Ok (r, db') \<Longrightarrow> ha_change db db'"
  by (auto simp: lead_transaction_def split: option.splits intro: try_acquire_change renew_leadership_change)

text \<open>A token is granted from the counter, or is the one of the leader row of the same process.\<close>

definition granted :: "ha_coordinator \<Rightarrow> token \<Rightarrow> ha_db \<Rightarrow> bool" where
  "granted c k db \<longleftrightarrow>
     k = db_next_token db \<or> (\<exists>ld. db_leader db = Some ld \<and> ll_fencing_token ld = k \<and> is_leader c ld)"

lemma renew_leader_granted:
  "renew_leader c k now db = Ok (Some l, db') \<Longrightarrow>
     db_leader db' = Some l \<and> is_leader c l \<and> granted c (ll_fencing_token l) db"
  by (auto simp: renew_leader_def Let_def and_then_ok_iff granted_def is_leader_def split: option.splits if_splits)

lemma lead_transaction_granted:
  assumes "lead_transaction c prev now db = Ok (Some l, db')"
  shows "db_leader db' = Some l \<and> is_leader c l \<and> granted c (ll_fencing_token l) db"
proof -
  have install: "db_leader db' = Some l \<and> is_leader c l \<and> granted c (ll_fencing_token l) db"
    if "install_leader c now db = Ok (Some l, db')"
    using that by (auto simp: install_leader_def Let_def and_then_ok_iff granted_def is_leader_def split: if_splits)
  show ?thesis using assms
    by (auto simp: lead_transaction_def try_acquire_leadership_def renew_leadership_def Let_def and_then_ok_iff
        split: option.splits if_splits dest: install renew_leader_granted)
qed

section \<open>What a process may believe\<close>

definition claim_ok :: "ha_db \<Rightarrow> ha_runtime \<Rightarrow> bool" where
  "claim_ok db rt \<longleftrightarrow>
     (case rt_leadership rt of
        None \<Rightarrow> \<not> rt_leader rt \<and> rt_fencing_token rt = 0
      | Some l \<Rightarrow> rt_leader rt \<and> rt_fencing_token rt = ll_fencing_token l \<and> 0 < ll_fencing_token l \<and>
          ll_fencing_token l < db_next_token db \<and>
          (\<forall>ld. db_leader db = Some ld \<and> ll_fencing_token ld = ll_fencing_token l \<longrightarrow>
             is_leader (rt_coordinator rt) ld))"

lemma claim_ok_evolves: "claim_ok db rt \<Longrightarrow> evolves db db' \<Longrightarrow> claim_ok db' rt"
  by (force simp: claim_ok_def evolves_def is_leader_def split: option.splits)

lemma runtime_fields [simp]:
  "rt_coordinator (record_event at code sv msg k rt) = rt_coordinator rt"
  "rt_leadership (record_event at code sv msg k rt) = rt_leadership rt"
  "rt_leader (record_event at code sv msg k rt) = rt_leader rt"
  "rt_fencing_token (record_event at code sv msg k rt) = rt_fencing_token rt"
  "rt_coordinator (publish_leadership l rt) = rt_coordinator rt"
  "rt_leadership (publish_leadership l rt) = l"
  by (simp_all add: record_event_def publish_leadership_def clear_leadership_def split: option.split)

lemma claim_ok_event [simp]: "claim_ok db (record_event at code sv msg k rt) = claim_ok db rt"
  by (simp add: claim_ok_def split: option.split)

lemma cleared [simp]:
  "rt_coordinator (fst (clear_leadership rt)) = rt_coordinator rt"
  "rt_fencing_token (fst (clear_leadership rt)) = 0"
  "claim_ok db (fst (clear_leadership rt))"
  by (simp_all add: clear_leadership_def claim_ok_def)

lemma ha_inv_leader: "ha_inv db \<Longrightarrow> db_leader db = Some l \<Longrightarrow>
    0 < ll_fencing_token l \<and> ll_fencing_token l < db_next_token db"
  by (simp add: ha_inv_def)

lemma publish_claim:
  assumes "lead_transaction (rt_coordinator rt) prev now db = Ok (r, db')" "ha_inv db"
  shows "claim_ok db' (publish_leadership r rt) \<and>
    (rt_fencing_token (publish_leadership r rt) = 0 \<or>
     granted (rt_coordinator rt) (rt_fencing_token (publish_leadership r rt)) db)"
proof (cases r)
  case None
  then show ?thesis by (simp add: publish_leadership_def)
next
  case (Some l)
  note res = lead_transaction_granted [OF assms(1) [unfolded Some]]
  have "ha_inv db'" by (rule ha_change_inv [OF lead_transaction_change [OF assms(1)] assms(2)])
  note tok = ha_inv_leader [OF this conjunct1 [OF res]]
  have "claim_ok db' (publish_leadership r rt)"
    unfolding Some claim_ok_def publish_leadership_def
    by (simp, use tok res in \<open>elim conjE, intro conjI; simp\<close>)
  moreover have "granted (rt_coordinator rt) (rt_fencing_token (publish_leadership r rt)) db"
    unfolding Some publish_leadership_def using res by simp
  ultimately show ?thesis by blast
qed

section \<open>Steps of one process\<close>

text \<open>
  What a step of a process leaves: a good database, a claim that is good in it, and a token that is
  the old one, none, or one granted on the way.
\<close>

definition step_ok :: "ha_runtime \<Rightarrow> ha_db \<Rightarrow> ha_runtime \<Rightarrow> ha_db \<Rightarrow> bool" where
  "step_ok rt db rt' db' \<longleftrightarrow>
     ha_inv db' \<and> evolves db db' \<and> rt_coordinator rt' = rt_coordinator rt \<and> claim_ok db' rt' \<and>
     (rt_fencing_token rt' = 0 \<or> rt_fencing_token rt' = rt_fencing_token rt \<or>
      (\<exists>d. evolves db d \<and> granted (rt_coordinator rt) (rt_fencing_token rt') d))"

lemma step_ok_idle: "claim_ok db rt \<Longrightarrow> ha_inv db' \<Longrightarrow> evolves db db' \<Longrightarrow> step_ok rt db rt db'"
  by (simp add: step_ok_def claim_ok_evolves)

lemma step_ok_cleared:
  "ha_inv db' \<Longrightarrow> evolves db db' \<Longrightarrow> step_ok rt db (record_event at code sv msg k (fst (clear_leadership rt))) db'"
  by (simp add: step_ok_def)

lemma step_ok_published:
  assumes "lead_transaction (rt_coordinator rt) prev now d = Ok (r, db')" "ha_inv d" "evolves db d"
    and "rt_coordinator rt' = rt_coordinator rt" "rt_leadership rt' = r"
    and "rt_leader rt' = rt_leader (publish_leadership r rt)"
    and "rt_fencing_token rt' = rt_fencing_token (publish_leadership r rt)"
  shows "step_ok rt db rt' db'"
proof -
  have change: "ha_change d db'" using lead_transaction_change [OF assms(1)] .
  have "claim_ok db' rt' = claim_ok db' (publish_leadership r rt)"
    using assms(4-7) by (simp add: claim_ok_def split: option.split)
  with publish_claim [OF assms(1,2)] ha_change_inv [OF change assms(2)]
    evolves_trans [OF assms(3) evolves_change [OF change]] assms(3,4,7)
  show ?thesis by (auto simp: step_ok_def)
qed

lemma refresh_ok:
  assumes run: "refresh js now1 others now2 at rt db = (rt', db', r)" and inv: "ha_inv db" "claim_ok db rt"
  shows "step_ok rt db rt' db'"
proof (cases "register_or_renew_member js (rt_coordinator rt) now1 db")
  case (Inl e)
  with run inv show ?thesis by (auto simp: refresh_def intro!: step_ok_idle evolves_refl)
next
  case (Inr p)
  then obtain m d1 where d1: "register_or_renew_member js (rt_coordinator rt) now1 db = Ok (m, d1)"
    by (cases p) auto
  let ?d = "meanwhile js others d1"
  note reg = register_safe [OF d1 inv(1)]
  note mid = meanwhile_safe [OF reg(1), of js others]
  have ev: "evolves db ?d" using reg(2) mid(2) by (rule evolves_trans)
  show ?thesis
  proof (cases "lead_transaction (rt_coordinator rt) (rt_leadership rt) now2 ?d")
    case (Inl e)
    with run d1 inv(2) mid(1) ev show ?thesis by (auto simp: refresh_def Let_def intro!: step_ok_idle)
  next
    case (Inr q)
    then obtain nxt d2 where lead: "lead_transaction (rt_coordinator rt) (rt_leadership rt) now2 ?d = Ok (nxt, d2)"
      by (cases q) auto
    with run d1 have "db' = d2" by (simp add: refresh_def Let_def)
    with run d1 lead show ?thesis
      by (intro step_ok_published [OF _ mid(1) ev, of rt "rt_leadership rt" now2 nxt])
        (auto simp: refresh_def Let_def split: leadership_transition.splits)
  qed
qed

lemma bootstrap_ok:
  assumes run: "bootstrap js claimed now1 others now2 at rt db = (rt', db', r)"
    and inv: "ha_inv db" "claim_ok db rt"
  shows "step_ok rt db rt' db'"
proof -
  obtain x d0 where d0: "recover_stale_leases claimed db = (x, d0)" by fastforce
  have c0: "ha_change db d0" using recover_change [OF d0] .
  have inv0: "ha_inv d0" and ev0: "evolves db d0"
    using ha_change_inv [OF c0 inv(1)] evolves_change [OF c0] .
  show ?thesis
  proof (cases "register_or_renew_member js (rt_coordinator rt) now1 d0")
    case (Inl e)
    with run d0 inv(2) inv0 ev0 show ?thesis by (auto simp: bootstrap_def Let_def intro!: step_ok_idle)
  next
    case (Inr p)
    then obtain m d1 where d1: "register_or_renew_member js (rt_coordinator rt) now1 d0 = Ok (m, d1)"
      by (cases p) auto
    let ?d = "meanwhile js others d1"
    note reg = register_safe [OF d1 inv0]
    note mid = meanwhile_safe [OF reg(1), of js others]
    have ev: "evolves db ?d" using ev0 reg(2) mid(2) by (blast intro: evolves_trans)
    show ?thesis
    proof (cases "try_acquire_leadership (rt_coordinator rt) now2 ?d")
      case (Inl e)
      with run d0 d1 inv(2) mid(1) ev show ?thesis by (auto simp: bootstrap_def Let_def intro!: step_ok_idle)
    next
      case (Inr q)
      then obtain nxt d2 where acq: "try_acquire_leadership (rt_coordinator rt) now2 ?d = Ok (nxt, d2)"
        by (cases q) auto
      then have lead: "lead_transaction (rt_coordinator rt) None now2 ?d = Ok (nxt, d2)"
        by (simp add: lead_transaction_def)
      from run d0 d1 acq have "db' = d2" by (simp add: bootstrap_def Let_def)
      with run d0 d1 acq lead show ?thesis
        by (intro step_ok_published [OF _ mid(1) ev, of rt None now2 nxt])
          (auto simp: bootstrap_def Let_def split: option.splits)
    qed
  qed
qed

lemma heartbeat_ok:
  assumes run: "heartbeat_round js b at rt db = (rt', db')" and inv: "ha_inv db" "claim_ok db rt"
  shows "step_ok rt db rt' db'"
proof (cases b)
  case (Beat now1 others now2)
  obtain rt1 d r where ref: "refresh js now1 others now2 at rt db = (rt1, d, r)" by (metis prod_cases3)
  note ok = refresh_ok [OF ref inv]
  show ?thesis
  proof (cases r)
    case (Inl e)
    with run Beat ref have "rt' = failed_beat at (lit ''heartbeat_failed'')
        (lit ''HA heartbeat failed; leadership was cleared'') rt1" "db' = d" by simp_all
    with ok show ?thesis by (simp add: failed_beat_def step_ok_def)
  next
    case (Inr t)
    with run Beat ref ok show ?thesis by simp
  qed
next
  case LateBefore
  with run inv show ?thesis by (auto simp: late_beat_def failed_beat_def intro!: step_ok_cleared evolves_refl)
next
  case (LateAfterMember now1)
  have "ha_inv (committed_db db (register_or_renew_member js (rt_coordinator rt) now1 db)) \<and>
      evolves db (committed_db db (register_or_renew_member js (rt_coordinator rt) now1 db))"
    using inv(1) register_safe [OF _ inv(1)]
    by (auto simp: committed_db_def evolves_refl split: sum.split prod.split)
  with run LateAfterMember show ?thesis by (auto simp: late_beat_def failed_beat_def intro!: step_ok_cleared)
next
  case (LateAfterLead now1 others now2)
  obtain rt1 d r where ref: "refresh js now1 others now2 at rt db = (rt1, d, r)" by (metis prod_cases3)
  from refresh_ok [OF ref inv] run LateAfterLead ref show ?thesis
    by (auto simp: late_beat_def failed_beat_def step_ok_def)
qed

section \<open>The invariant of the cluster\<close>

definition incarnation_of :: "ha_runtime \<Rightarrow> str" where
  "incarnation_of rt = co_incarnation_id (rt_coordinator rt)"

definition cluster_inv :: "ha_db \<Rightarrow> ha_runtime list \<Rightarrow> bool" where
  "cluster_inv db rts \<longleftrightarrow>
     ha_inv db \<and> (\<forall>rt \<in> set rts. claim_ok db rt) \<and> distinct (map incarnation_of rts) \<and>
     (\<forall>i < length rts. \<forall>j < length rts. i \<noteq> j \<longrightarrow> rt_fencing_token (rts ! i) \<noteq> 0 \<longrightarrow>
        rt_fencing_token (rts ! i) \<noteq> rt_fencing_token (rts ! j))"

text \<open>A token granted to one process is not claimed by another.\<close>

lemma granted_not_claimed:
  assumes "claim_ok db rt" "evolves db d" "granted c k d" "k \<noteq> 0" "co_incarnation_id c \<noteq> incarnation_of rt"
  shows "rt_fencing_token rt \<noteq> k"
proof
  assume eq: "rt_fencing_token rt = k"
  have "claim_ok d rt" using assms(1,2) by (rule claim_ok_evolves)
  with eq assms(4) obtain l where l: "rt_leadership rt = Some l" "k < db_next_token d"
    "\<forall>ld. db_leader d = Some ld \<and> ll_fencing_token ld = k \<longrightarrow> is_leader (rt_coordinator rt) ld"
    unfolding claim_ok_def by (cases "rt_leadership rt") simp_all
  with assms(3) obtain ld where "is_leader c ld" "is_leader (rt_coordinator rt) ld"
    by (auto simp: granted_def)
  with assms(5) show False by (simp add: is_leader_def incarnation_of_def)
qed

lemma cluster_inv_step:
  assumes inv: "cluster_inv db rts" and i: "i < length rts" and st: "step_ok (rts ! i) db rt db'"
  shows "cluster_inv db' (rts[i := rt])"
proof -
  have claims: "claim_ok db (rts ! j)" if "j < length rts" for j
    using inv that by (simp add: cluster_inv_def)
  have inc: "incarnation_of rt = incarnation_of (rts ! i)" using st by (simp add: step_ok_def incarnation_of_def)
  have tokens: "rt_fencing_token rt \<noteq> rt_fencing_token (rts ! j)"
    if j: "j < length rts" "j \<noteq> i" and nz: "rt_fencing_token rt \<noteq> 0" for j
  proof -
    have other: "incarnation_of (rts ! i) \<noteq> incarnation_of (rts ! j)"
      using inv i j by (auto simp: cluster_inv_def distinct_conv_nth)
    from st nz consider "rt_fencing_token rt = rt_fencing_token (rts ! i)"
      | d where "evolves db d" "granted (rt_coordinator (rts ! i)) (rt_fencing_token rt) d"
      by (auto simp: step_ok_def)
    then show ?thesis
    proof cases
      case 1
      with inv i j nz show ?thesis by (auto simp: cluster_inv_def)
    next
      case 2
      from granted_not_claimed [OF claims [OF j(1)] this nz] other show ?thesis
        by (simp add: incarnation_of_def)
    qed
  qed
  have "claim_ok db' x" if "x \<in> set (rts[i := rt])" for x
  proof -
    from that have "x = rt \<or> x \<in> set rts" using set_update_subset_insert by fastforce
    then show ?thesis using st inv by (auto simp: step_ok_def cluster_inv_def intro: claim_ok_evolves)
  qed
  moreover have "map incarnation_of (rts[i := rt]) = map incarnation_of rts"
    using i inc by (simp add: map_update list_update_same_conv)
  moreover have "rt_fencing_token (rts[i := rt] ! a) \<noteq> rt_fencing_token (rts[i := rt] ! b)"
    if "a < length rts" "b < length rts" "a \<noteq> b" "rt_fencing_token (rts[i := rt] ! a) \<noteq> 0" for a b
    using that tokens [of a] tokens [of b] inv i
    by (cases "a = i"; cases "b = i") (auto simp: cluster_inv_def)
  ultimately show ?thesis using st inv by (simp add: cluster_inv_def step_ok_def)
qed

lemma cluster_inv_change: "cluster_inv db rts \<Longrightarrow> ha_change db db' \<Longrightarrow> cluster_inv db' rts"
  by (auto simp: cluster_inv_def intro: ha_change_inv claim_ok_evolves evolves_change)

lemma opened_claim: "runtime_open js inc cf = Ok rt \<Longrightarrow> claim_ok db rt \<and> incarnation_of rt = inc \<and> rt_fencing_token rt = 0"
  by (auto simp: runtime_open_def coordinator_open_def and_then_ok_iff map_err_ok_iff claim_ok_def
      incarnation_of_def split: if_splits)

lemma cluster_reaches_inv: "cluster js db rts \<Longrightarrow> cluster_inv db rts"
proof (induction rule: cluster.induct)
  case empty_cluster
  show ?case by (simp add: cluster_inv_def initial_inv)
next
  case (joins db rts inc cf rt)
  then show ?case using opened_claim [OF joins(2), of db]
    by (auto simp: cluster_inv_def nth_append incarnation_of_def less_Suc_eq)
next
  case (boots db rts i claimed now1 others now2 at rt db' r)
  then have "ha_inv db" "claim_ok db (rts ! i)" by (auto simp: cluster_inv_def)
  from cluster_inv_step [OF boots.IH boots(2) bootstrap_ok [OF boots(3) this]] show ?case .
next
  case (beats db rts i b at rt db')
  then have "ha_inv db" "claim_ok db (rts ! i)" by (auto simp: cluster_inv_def)
  from cluster_inv_step [OF beats.IH beats(2) heartbeat_ok [OF beats(3) this]] show ?case .
next
  case (maintains db rts rt db' now shutdown)
  have "ha_change db (maintain_members now rt db)" "ha_change db (maintain_ports now shutdown rt db)"
    using prune_members_change [of now db] prune_ports_change [of now db]
    by (auto simp: maintain_members_def maintain_ports_def intro: unchanged) (metis prod.collapse)+
  with maintains show ?case by (auto intro: cluster_inv_change)
next
  case (stops db rts i)
  then have "ha_inv db" by (simp add: cluster_inv_def)
  then have "step_ok (rts ! i) db (end_supervision (rts ! i)) db"
    by (simp add: step_ok_def end_supervision_def evolves_refl)
  from cluster_inv_step [OF stops.IH stops(2) this] show ?case .
next
  case (transacts db rts op db' x)
  then have "ha_inv db" by (simp add: cluster_inv_def)
  from cluster_inv_change [OF transacts.IH ha_step_change [OF transacts(2) this]] show ?case .
qed

lemma runtime_token_claim:
  assumes "claim_ok db rt" "runtime_token rt = Ok k"
  shows "rt_fencing_token rt = k" "k \<noteq> 0" "k < db_next_token db"
  using assms by (auto simp: runtime_token_def claim_ok_def split: if_splits option.splits)

end
