(* ===== verification/Ha_Cluster.thy ===== *)
theory Ha_Cluster
  imports Ha_Runtime
begin

text \<open>
  Properties of a cluster of server processes: leadership is never split, a leader that beats in
  time keeps it, and an accepted configuration opens.
\<close>

section \<open>Keeping the leases of a leader\<close>

text \<open>The member row of \<open>c\<close> runs until \<open>t\<close> at least, whatever other processes do before.\<close>

definition member_held :: "ha_coordinator \<Rightarrow> unix \<Rightarrow> ha_db \<Rightarrow> bool" where
  "member_held c t db \<longleftrightarrow>
     (case hm_get (db_members db) (co_instance_id c) of
        Some m \<Rightarrow> hm_incarnation_id m = co_incarnation_id c \<and> t \<le> hm_lease_until m
      | None \<Rightarrow> False)"

lemma member_heldE:
  assumes "member_held c t db"
  obtains m where "hm_get (db_members db) (co_instance_id c) = Some m"
    "hm_incarnation_id m = co_incarnation_id c" "t \<le> hm_lease_until m"
  using assms unfolding member_held_def by (cases "hm_get (db_members db) (co_instance_id c)") auto

lemma lead_ops_members:
  "try_acquire_leadership c now db = Ok (r, db') \<Longrightarrow> db_members db' = db_members db"
  "renew_leadership c k now db = Ok (r, db') \<Longrightarrow> db_members db' = db_members db"
  by (auto simp: try_acquire_leadership_def renew_leadership_def renew_leader_def install_leader_def Let_def
      and_then_ok_iff split: option.splits if_splits)

lemma member_held_frame: "member_held c t db \<Longrightarrow> db_members db' = db_members db \<Longrightarrow> member_held c t db'"
  by (simp add: member_held_def)

lemma register_member_held:
  assumes "member_held c t db" "ident c' \<noteq> ident c" "now < t"
    and "register_or_renew_member js c' now db = Ok (x, db')"
  shows "member_held c t db'"
proof (cases "co_instance_id c' = co_instance_id c")
  case True
  obtain m where m: "hm_get (db_members db) (co_instance_id c) = Some m"
      "hm_incarnation_id m = co_incarnation_id c" "t \<le> hm_lease_until m"
    using assms(1) by (rule member_heldE)
  have "co_incarnation_id c \<noteq> co_incarnation_id c'" using assms(2) True by (auto simp: ident_def)
  with m True assms(3,4) show ?thesis
    by (auto simp: register_or_renew_member_def read_member_def Let_def and_then_ok_iff
        simp del: map_of_eq_Some_iff)
next
  case False
  with assms(1) register_effect [OF assms(4)] show ?thesis by (simp add: member_held_def)
qed

lemma prune_member_held:
  assumes "member_held c t db" "hm_distinct (db_members db)" "now < t"
  shows "member_held c t (snd (prune_expired_members now db))"
proof -
  obtain m where m: "hm_get (db_members db) (co_instance_id c) = Some m" "t \<le> hm_lease_until m"
      "hm_incarnation_id m = co_incarnation_id c"
    using assms(1) by (rule member_heldE)
  then have "hm_get (fst (prune_batch hm_lease_until now (db_members db))) (co_instance_id c) = Some m"
    using assms(2,3) by (intro prune_batch_keeps) auto
  with m show ?thesis
    by (auto simp: member_held_def prune_expired_members_def split: prod.splits simp del: map_of_eq_Some_iff)
qed

lemma member_held_step:
  assumes held: "member_held c t db" and inv: "ha_inv db" and quiet: "quiet c t' op" "t' \<le> t"
    and st: "ha_step js op db = Some (db', x)"
  shows "member_held c t db'"
proof (cases op)
  case (Register c' now)
  with quiet have "ident c' \<noteq> ident c" "now < t" by (auto simp: quiet_def)
  with st Register show ?thesis
    by (auto elim!: commit_cases intro: held register_member_held [OF held])
next
  case (PruneMembers now)
  with st quiet inv show ?thesis using prune_member_held [OF held, of now]
    by (auto simp: quiet_def ha_inv_def elim!: commit_cases)
next
  case (Recover b)
  with st quiet held show ?thesis by (auto simp: quiet_def commit_def recover_stale_leases_def)
qed (use st held in \<open>auto elim!: commit_cases intro: member_held_frame
      dest: lead_ops_members port_ops_frame job_ops_frame\<close>)

lemma member_held_run:
  assumes "member_held c t db" "ha_inv db" "list_all (quiet c t') ops" "t' \<le> t"
    and "run_machine (ha_step js) ops db = Some (db', xs)"
  shows "member_held c t db'"
  using assms
proof (induction ops arbitrary: db xs)
  case (Cons op ops)
  from Cons.prems(5) obtain d x ys where d: "ha_step js op db = Some (d, x)"
    and run: "run_machine (ha_step js) ops d = Some (db', ys)"
    by (auto split: option.splits)
  have "member_held c t d" using member_held_step [OF Cons.prems(1,2) _ Cons.prems(4) d] Cons.prems(3) by simp
  moreover have "ha_inv d" using ha_change_inv [OF ha_step_change [OF d Cons.prems(2)] Cons.prems(2)] .
  ultimately show ?case using Cons.IH [OF _ _ _ _ run] Cons.prems(3,4) by simp
qed simp

text \<open>Registering again extends the member lease of the leader.\<close>

lemma register_keeps_lead:
  assumes lead: "leads c k t db" and valid: "validate_metadata_json js (co_metadata_json c) = Ok ()"
    and row: "read_member js (co_instance_id c) db = Ok (Some m)"
    and fits: "now + co_member_lease_seconds c \<le> i64_max"
  shows "\<exists>x db'. register_or_renew_member js c now db = Ok (x, db') \<and>
    leads c k (min t (now + co_member_lease_seconds c)) db' \<and>
    member_held c (now + co_member_lease_seconds c) db'"
proof -
  let ?until = "now + co_member_lease_seconds c"
  obtain l m' where l: "db_leader db = Some l" "is_leader c l" "ll_fencing_token l = k" "t \<le> ll_lease_until l"
    and m': "hm_get (db_members db) (co_instance_id c) = Some m'" "hm_incarnation_id m' = co_incarnation_id c"
    using lead by (rule leadsE)
  with row have m: "m' = m"
    by (auto simp: read_member_def and_then_ok_iff simp del: map_of_eq_Some_iff)
  have until: "saturating_add now (co_member_lease_seconds c) = ?until"
    using fits by (intro saturating_add_exact) (simp add: i64_max_def usize_max_def)
  let ?m = "m\<lparr> hm_last_seen := now, hm_lease_until := ?until, hm_metadata_json := co_metadata_json c \<rparr>"
  let ?db = "db\<lparr> db_members := hm_insert (co_instance_id c) ?m (db_members db) \<rparr>"
  have "register_or_renew_member js c now db = Ok (?m, ?db)"
    using row m' m valid fits
    by (simp add: register_or_renew_member_def until write_member_def read_member_def as_i64_def Let_def
        del: map_of_eq_Some_iff)
  moreover have "leads c k (min t ?until) ?db"
    using l m'(2) m by (simp add: leads_def)
  moreover have "member_held c ?until ?db" using m'(2) m by (simp add: member_held_def)
  ultimately show ?thesis by blast
qed

lemma renew_keeps_lead:
  assumes lead: "leads c k t db" and "now < t" and "k \<le> i64_max"
    and fits: "now + co_leader_lease_seconds c \<le> i64_max"
  shows "\<exists>l db'. renew_leadership c k now db = Ok (Some l, db') \<and> ll_fencing_token l = k \<and>
    db_members db' = db_members db \<and> db_leader db' = Some l \<and> is_leader c l \<and>
    ll_lease_until l = now + co_leader_lease_seconds c"
proof -
  obtain l where l: "db_leader db = Some l" "is_leader c l" "ll_fencing_token l = k" "t \<le> ll_lease_until l"
    using lead by (rule leadsE)
  have until: "saturating_add now (co_leader_lease_seconds c) = now + co_leader_lease_seconds c"
    using fits by (intro saturating_add_exact) (simp add: i64_max_def usize_max_def)
  show ?thesis
    using l assms(2,3) fits leads_active [OF lead assms(2)]
    by (simp add: renew_leadership_def renew_leader_def until as_i64_def Let_def is_leader_def)
qed

section \<open>Properties\<close>

text \<open>
  C26. There is no split brain. Whatever processes start, bootstrap, beat (in time, late or failing
  between the transactions of a heartbeat), maintain and stop, in any interleaving: two processes
  that both believe to lead hold different fencing tokens, and at least one of the two tokens is
  superseded, so that every protected write of its holder is refused.
\<close>

theorem no_split_brain:
  assumes "cluster js db rts" and "i < length rts" and "j < length rts" and "i \<noteq> j"
    and "runtime_token (rts ! i) = Ok k" and "runtime_token (rts ! j) = Ok k'"
  shows "k \<noteq> k' \<and> (superseded k db \<or> superseded k' db)"
proof -
  have inv: "cluster_inv db rts" by (rule cluster_reaches_inv [OF assms(1)])
  then have "claim_ok db (rts ! i)" "claim_ok db (rts ! j)"
    using assms(2,3) by (simp_all add: cluster_inv_def)
  note ti = runtime_token_claim [OF this(1) assms(5)] and tj = runtime_token_claim [OF this(2) assms(6)]
  have "k \<noteq> k'" using inv assms(2-4) ti(1,2) tj(1) by (auto simp: cluster_inv_def)
  with ti(3) tj(3) show ?thesis by (auto simp: superseded_def)
qed

lemma parse_duration_ok: "parse_duration env name d mn mx = Ok v \<Longrightarrow> mn \<le> v \<and> v \<le> mx"
  by (auto simp: parse_duration_def and_then_ok_iff split: if_splits)

lemma parse_u32_ok: "parse_u32 env name d mn mx = Ok v \<Longrightarrow> mn \<le> v \<and> v \<le> mx"
  by (auto simp: parse_u32_def and_then_ok_iff split: if_splits)

lemma config_bounds_ok:
  assumes "config_from_environment env d = Ok cf"
  shows "5 \<le> cf_member_lease cf" "cf_member_lease cf \<le> 300" "3 \<le> cf_leader_lease cf"
    "cf_leader_lease cf \<le> 120" "cf_leader_lease cf \<le> cf_member_lease cf"
    "2 \<le> cf_resource_lease cf" "cf_resource_lease cf \<le> 300" "2 \<le> cf_job_lease cf" "cf_job_lease cf \<le> 300"
    "1 \<le> cf_target_success_threshold cf" "cf_target_success_threshold cf \<le> 1000"
    "1 \<le> cf_target_failure_threshold cf" "cf_target_failure_threshold cf \<le> 1000"
    "1 \<le> cf_target_stale_after cf" "cf_target_stale_after cf \<le> 86400"
    "cf_heartbeat cf < cf_leader_lease cf" "cf_heartbeat cf < cf_resource_lease cf" "cf_heartbeat cf < cf_job_lease cf"
  using assms
  by (auto simp: config_from_environment_def Let_def and_then_ok_iff simp del: lit_Cons lit_Nil
      split: if_splits dest!: parse_duration_ok parse_u32_ok)

text \<open>
  C27. The checks on the environment are enough for the components behind them. A configuration
  that was read from the environment opens if and only if its instance id and its metadata are
  acceptable: no lease duration, threshold or timeout it accepts is refused later, and the
  heartbeat is shorter than every lease it has to keep alive.
\<close>

theorem accepted_config_opens:
  assumes "config_from_environment env d = Ok cf"
  shows "(is_ok (runtime_open js incarnation cf) \<longleftrightarrow>
      is_ok (validate_instance_id (trim (cf_instance_id cf))) \<and>
      is_ok (normalize_metadata_json js (cf_metadata_json cf))) \<and>
    (\<forall>rt. runtime_open js incarnation cf = Ok rt \<longrightarrow>
      rt_heartbeat rt < co_leader_lease_seconds (rt_coordinator rt) \<and>
      co_leader_lease_seconds (rt_coordinator rt) \<le> co_member_lease_seconds (rt_coordinator rt) \<and>
      rt_heartbeat rt < po_lease_seconds (rt_public_ports rt) \<and>
      rt_heartbeat rt < jo_lease_seconds (rt_jobs rt))"
proof -
  note b = config_bounds_ok [OF assms]
  have leases: "lease_seconds (cf_member_lease cf) MAX_MEMBER_LEASE_SECONDS = Ok (cf_member_lease cf)"
    "lease_seconds (cf_leader_lease cf) MAX_LEADER_LEASE_SECONDS = Ok (cf_leader_lease cf)"
    "lease_seconds (cf_resource_lease cf) 300 = Ok (cf_resource_lease cf)"
    "lease_seconds (cf_job_lease cf) 300 = Ok (cf_job_lease cf)"
    using b by (simp_all add: lease_seconds_def MAX_MEMBER_LEASE_SECONDS_def MAX_LEADER_LEASE_SECONDS_def)
  show ?thesis
    using b
    by (cases "validate_instance_id (trim (cf_instance_id cf))"; cases "normalize_metadata_json js (cf_metadata_json cf)")
      (auto simp: runtime_open_def coordinator_open_def ownership_open_def jobs_open_def catalog_open_def
        leases map_err_def)
qed

text \<open>
  C28. A leader whose heartbeats arrive in time stays leader. While its leases run, and whatever
  other processes do between the two transactions of the heartbeat, a refresh before the leases
  run out keeps the fencing token, reports that leadership is retained, and leaves leases that run
  for the full durations after the two transactions.
\<close>

theorem timely_heartbeat_retains:
  assumes "cluster js db rts" and "rt \<in> set rts" and "rt_leadership rt = Some l"
    and "c = rt_coordinator rt" and "leads c (ll_fencing_token l) t db"
    and "validate_metadata_json js (co_metadata_json c) = Ok ()"
    and "read_member js (co_instance_id c) db = Ok (Some m)"
    and "t' = min t (now1 + co_member_lease_seconds c)"
    and "list_all (quiet c t') others" and "now2 < t'"
    and "now1 + co_member_lease_seconds c \<le> i64_max" and "now2 + co_leader_lease_seconds c \<le> i64_max"
  shows "\<exists>rt' db'. refresh js now1 others now2 at rt db = (rt', db', Ok Retained) \<and>
    runtime_token rt' = Ok (ll_fencing_token l) \<and>
    leads c (ll_fencing_token l)
      (min (now2 + co_leader_lease_seconds c) (now1 + co_member_lease_seconds c)) db'"
proof -
  let ?k = "ll_fencing_token l"
  have inv: "cluster_inv db rts" by (rule cluster_reaches_inv [OF assms(1)])
  then have ha: "ha_inv db" and claim: "claim_ok db rt" using assms(2) by (simp_all add: cluster_inv_def)
  from claim assms(3) have k: "0 < ?k" "?k < db_next_token db" by (simp_all add: claim_ok_def)
  with ha have k_max: "?k \<le> i64_max" by (simp add: ha_inv_def)
  obtain x d1 where d1: "register_or_renew_member js c now1 db = Ok (x, d1)" and lead1: "leads c ?k t' d1"
    and held1: "member_held c (now1 + co_member_lease_seconds c) d1"
    using register_keeps_lead [OF assms(5,6,7,11)] assms(8) by blast
  let ?d = "meanwhile js others d1"
  obtain xs where run: "run_machine (ha_step js) others d1 = Some (?d, xs)"
    using meanwhile_run by blast
  have lead2: "leads c ?k t' ?d"
    by (rule leads_run [OF lead1 register_safe(1) [OF d1 ha] assms(9) run])
  have held2: "member_held c (now1 + co_member_lease_seconds c) ?d"
    by (rule member_held_run [OF held1 register_safe(1) [OF d1 ha] assms(9) _ run]) (simp add: assms(8))
  from renew_keeps_lead [OF lead2 assms(10) k_max assms(12)] obtain l' d2
    where renew: "renew_leadership c ?k now2 ?d = Ok (Some l', d2)"
    and l': "ll_fencing_token l' = ?k" "db_members d2 = db_members ?d" "db_leader d2 = Some l'"
      "is_leader c l'" "ll_lease_until l' = now2 + co_leader_lease_seconds c" by blast
  have "refresh js now1 others now2 at rt db = (publish_leadership (Some l') rt, d2, Ok Retained)"
    using d1 renew assms(3,4) by (simp add: refresh_def lead_transaction_def transition_of_def Let_def)
  moreover have "runtime_token (publish_leadership (Some l') rt) = Ok ?k"
    using l'(1) k(1) by (simp add: runtime_token_def publish_leadership_def)
  moreover have "leads c ?k (min (now2 + co_leader_lease_seconds c) (now1 + co_member_lease_seconds c)) d2"
    using held2 l' by (auto elim!: member_heldE simp: leads_def simp del: map_of_eq_Some_iff)
  ultimately show ?thesis by simp
qed

section \<open>Two processes\<close>

definition sample_cf :: "str \<Rightarrow> ha_runtime_config" where
  "sample_cf i = \<lparr> cf_instance_id = i, cf_metadata_json = [], cf_member_lease = 30,
     cf_leader_lease = 10, cf_heartbeat = 5, cf_resource_lease = 30, cf_job_lease = 30,
     cf_target_success_threshold = 2, cf_target_failure_threshold = 3, cf_target_stale_after = 30 \<rparr>"

definition sample_rt :: "ha_coordinator \<Rightarrow> ha_runtime" where
  "sample_rt c = \<lparr> rt_coordinator = c, rt_public_ports = \<lparr> po_coordinator = c, po_lease_seconds = 30 \<rparr>,
     rt_jobs = \<lparr> jo_coordinator = c, jo_lease_seconds = 30 \<rparr>,
     rt_target_health = \<lparr> tc_coordinator = c, tc_success_threshold = 2, tc_failure_threshold = 3,
       tc_stale_after_seconds = 30 \<rparr>,
     rt_leadership = None, rt_leader = False, rt_fencing_token = 0, rt_events = [], rt_heartbeat = 5 \<rparr>"

definition booted :: "ha_coordinator \<Rightarrow> token \<Rightarrow> unix \<Rightarrow> ha_runtime" where
  "booted c k now = record_event now (lit ''leader_acquired'') (lit ''info'') (lit ''HA leadership acquired'')
     (Some k) (publish_leadership (Some (leader_row c k now)) (sample_rt c))"

lemma sample_ids:
  "trim [97] = [97]" "validate_instance_id [97] = Ok ()" "trim [98] = [98]" "validate_instance_id [98] = Ok ()"
  by (simp_all add: validate_instance_id_def text_eval MAX_INSTANCE_ID_BYTES_def)

lemma sample_opens:
  "runtime_open sample_js [49] (sample_cf [97]) = Ok (sample_rt alice)"
  "runtime_open sample_js [50] (sample_cf [98]) = Ok (sample_rt bob)"
  by (simp_all add: runtime_open_def coordinator_open_def sample_cf_def sample_ids normalize_metadata_json_def
      lease_seconds_def MAX_MEMBER_LEASE_SECONDS_def MAX_LEADER_LEASE_SECONDS_def ownership_open_def
      jobs_open_def catalog_open_def sample_rt_def map_err_def ha_eval)

lemma sample_steps:
  "register_or_renew_member sample_js alice 100 initial_db =
     Ok (member_row alice 100, db1\<lparr> db_next_token := 1, db_leader := None \<rparr>)"
  "try_acquire_leadership alice 100 (db1\<lparr> db_next_token := 1, db_leader := None \<rparr>) =
     Ok (Some (leader_row alice 1 100), db1)"
  "register_or_renew_member sample_js bob 120 db1 = Ok (member_row bob 120, db2)"
  "try_acquire_leadership bob 120 db2 = Ok (Some (leader_row bob 2 120), db3)"
  by (simp_all add: initial_db_def db1_def db2_def db3_def ha_eval)

lemma sample_boots:
  "bootstrap sample_js False 100 [] 100 100 (sample_rt alice) initial_db =
     (booted alice 1 100, db1, Ok (member_row alice 100, Gained))"
  "bootstrap sample_js False 120 [] 120 120 (sample_rt bob) db1 =
     (booted bob 2 120, db3, Ok (member_row bob 120, Gained))"
  using sample_steps
  by (simp_all add: bootstrap_def recover_stale_leases_def meanwhile_def booted_def sample_rt_def
      leader_row_def Let_def)

lemma sample_cluster1: "cluster sample_js db1 [booted alice 1 100]"
proof -
  have "cluster sample_js initial_db [sample_rt alice]"
    using joins [OF empty_cluster sample_opens(1)] by simp
  from boots [OF this, of 0] sample_boots(1) show ?thesis by fastforce
qed

lemma sample_cluster2: "cluster sample_js db3 [booted alice 1 100, booted bob 2 120]"
proof -
  have "cluster sample_js db1 [booted alice 1 100, sample_rt bob]"
    using joins [OF sample_cluster1 sample_opens(2)]
    by (simp add: booted_def sample_rt_def alice_def)
  from boots [OF this, of 1] sample_boots(2) show ?thesis by fastforce
qed

lemma booted_token: "0 < k \<Longrightarrow> runtime_token (booted c k now) = Ok k"
  by (simp add: runtime_token_def booted_def publish_leadership_def leader_row_def)

theorem no_split_brain_witness:
  "runtime_token (booted alice 1 100) = Ok 1 \<and> runtime_token (booted bob 2 120) = Ok 2 \<and>
   (superseded 1 db3 \<or> superseded 2 db3)"
proof -
  have "runtime_token ([booted alice 1 100, booted bob 2 120] ! 0) = Ok 1"
    "runtime_token ([booted alice 1 100, booted bob 2 120] ! 1) = Ok 2"
    by (simp_all add: booted_token)
  from no_split_brain [OF sample_cluster2 _ _ _ this] this show ?thesis by simp
qed

theorem accepted_config_opens_witness:
  "\<exists>cf. config_from_environment (\<lambda>_. None) [97] = Ok cf \<and> is_ok (runtime_open sample_js [49] cf)"
proof -
  define cf where "cf = (sample_cf [97])\<lparr> cf_metadata_json := lit ''{}'', cf_leader_lease := 15,
    cf_resource_lease := 15 \<rparr>"
  have cf: "config_from_environment (\<lambda>_. None) [97] = Ok cf"
    by (simp add: config_from_environment_def parse_duration_def parse_u32_def env_text_def cf_def sample_cf_def
        DEFAULT_MEMBER_LEASE_SECONDS_def DEFAULT_LEADER_LEASE_SECONDS_def DEFAULT_HEARTBEAT_SECONDS_def
        DEFAULT_RESOURCE_LEASE_SECONDS_def DEFAULT_JOB_LEASE_SECONDS_def DEFAULT_TARGET_SUCCESS_THRESHOLD_def
        DEFAULT_TARGET_FAILURE_THRESHOLD_def DEFAULT_TARGET_STALE_AFTER_SECONDS_def)
  have "is_ok (validate_instance_id (trim (cf_instance_id cf)))"
    by (simp add: cf_def sample_cf_def sample_ids)
  moreover have "is_ok (normalize_metadata_json sample_js (cf_metadata_json cf))"
    by (simp add: cf_def normalize_metadata_json_def validate_metadata_json_def sample_js_def
        MAX_METADATA_JSON_BYTES_def utf8_char_def)
  ultimately show ?thesis using accepted_config_opens [OF cf] cf by blast
qed

theorem timely_heartbeat_retains_witness:
  "\<exists>rt db'. refresh sample_js 105 [] 105 105 (booted alice 1 100) db1 = (rt, db', Ok Retained) \<and>
     runtime_token rt = Ok 1 \<and> leads alice 1 115 db'"
proof -
  have c: "alice = rt_coordinator (booted alice 1 100)"
    by (simp add: booted_def sample_rt_def)
  have l: "rt_leadership (booted alice 1 100) = Some (leader_row alice 1 100)" by (simp add: booted_def)
  have k: "ll_fencing_token (leader_row alice 1 100) = 1" by (simp add: leader_row_def)
  have lead: "leads alice (ll_fencing_token (leader_row alice 1 100)) 110 db1"
    by (simp add: leads_def db1_def ha_eval)
  have valid: "validate_metadata_json sample_js (co_metadata_json alice) = Ok ()"
    "read_member sample_js (co_instance_id alice) db1 = Ok (Some (member_row alice 100))"
    by (simp_all add: db1_def ha_eval)
  show ?thesis
    using timely_heartbeat_retains [OF sample_cluster1 _ l c lead valid refl, of 105 "[]" 105 105] k
    by (auto simp: alice_def i64_max_def)
qed

end
