(* ===== verification/Public_Ports.thy ===== *)
theory Public_Ports
  imports Port_Mapping "HOL-Library.Product_Lexorder"
begin

text \<open>
  Sets of public ports as normalised range lists (\<open>linklake-core/src/public_ports.rs\<close>):
  parsing, printing, adding single ports and membership by binary search. The section on the
  meaning of a range list gives the set of ports it stands for; the operations are shown to
  implement set operations on it, and the normalised list of a set is unique.
\<close>

section \<open>Definitions\<close>

record port_range =
  pr_start :: port
  pr_end :: port

text \<open>\<open>PortRanges\<close> has the list of ranges as its only field.\<close>

type_synonym port_ranges = "port_range list"

datatype port_ranges_error = RangesEmpty | RangesInvalidPort | RangesDescendingRange | RangesEmptySegment

definition ranges_parse_port :: "str \<Rightarrow> port_ranges_error + port" where
  "ranges_parse_port value =
     (case parse_uint u16_max (trim value) of
        Some p \<Rightarrow> if p \<noteq> 0 then Ok p else Err RangesInvalidPort
      | None \<Rightarrow> Err RangesInvalidPort)"

definition parse_segment :: "str \<Rightarrow> port_ranges_error + port_range" where
  "parse_segment raw =
     (let segment = trim raw in
      if segment = [] then Err RangesEmptySegment
      else case split_once 45 segment of
        Some (a, b) \<Rightarrow>
          if 45 \<in> set b then Err RangesInvalidPort
          else and_then (ranges_parse_port a) (\<lambda>a. and_then (ranges_parse_port b) (\<lambda>b.
            if a > b then Err RangesDescendingRange else Ok \<lparr> pr_start = a, pr_end = b \<rparr>))
      | None \<Rightarrow> and_then (ranges_parse_port segment) (\<lambda>p. Ok \<lparr> pr_start = p, pr_end = p \<rparr>))"

text \<open>One round of the merge loop: \<open>previous\<close> is the last range pushed so far.\<close>

definition merge_range :: "port_range list \<Rightarrow> port_range \<Rightarrow> port_range list" where
  "merge_range normalized r =
     (if normalized \<noteq> [] \<and> pr_start r \<le> u16_saturating_add (pr_end (last normalized)) 1
      then butlast normalized @
        [(last normalized)\<lparr> pr_end := max (pr_end (last normalized)) (pr_end r) \<rparr>]
      else normalized @ [r])"

definition normalize_ranges :: "port_range list \<Rightarrow> port_range list" where
  "normalize_ranges ranges = foldl merge_range [] (sort_key (\<lambda>r. (pr_start r, pr_end r)) ranges)"

definition parse_ranges :: "str \<Rightarrow> bool \<Rightarrow> port_ranges_error + port_range list" where
  "parse_ranges raw allow_empty =
     (let expression = trim raw in
      if expression = [] then (if allow_empty then Ok [] else Err RangesEmpty)
      else and_then (map_result parse_segment (split_on 44 expression)) (\<lambda>ranges.
        Ok (normalize_ranges ranges)))"

definition port_ranges_parse :: "str \<Rightarrow> port_ranges_error + port_ranges" where
  "port_ranges_parse expression = parse_ranges expression False"

definition port_ranges_parse_optional :: "str \<Rightarrow> port_ranges_error + port_ranges" where
  "port_ranges_parse_optional expression = parse_ranges expression True"

definition port_ranges_empty :: port_ranges where
  "port_ranges_empty = []"

text \<open>
  \<open>slice::binary_search_by\<close>: the window of candidates starts at \<open>base\<close> and is halved until one
  element is left, which alone is compared for equality.
\<close>

datatype comparison = Lesser | Equal | Greater

function search_base :: "(nat \<Rightarrow> comparison) \<Rightarrow> nat \<Rightarrow> nat \<Rightarrow> nat" where
  "search_base cmp base sz =
     (if sz \<le> 1 then base
      else search_base cmp (if cmp (base + sz div 2) = Greater then base else base + sz div 2)
        (sz - sz div 2))"
  by pat_completeness auto
termination
  by (relation "measure (\<lambda>(cmp, base, sz). sz)") auto

declare search_base.simps [simp del]

definition binary_search_by :: "('a \<Rightarrow> comparison) \<Rightarrow> 'a list \<Rightarrow> nat option" where
  "binary_search_by f xs =
     (if xs = [] then None
      else let base = search_base (\<lambda>i. f (xs ! i)) 0 (length xs)
           in if f (xs ! base) = Equal then Some base else None)"

definition compare_range :: "port \<Rightarrow> port_range \<Rightarrow> comparison" where
  "compare_range p r = (if p < pr_start r then Greater else if p > pr_end r then Lesser else Equal)"

definition port_ranges_contains :: "port_ranges \<Rightarrow> port \<Rightarrow> bool" where
  "port_ranges_contains ranges p \<longleftrightarrow> p \<noteq> 0 \<and> binary_search_by (compare_range p) ranges \<noteq> None"

definition port_ranges_expression :: "port_ranges \<Rightarrow> str" where
  "port_ranges_expression ranges = join [44] (map (\<lambda>r. render_range (pr_start r) (pr_end r)) ranges)"

definition including_ports :: "port_ranges \<Rightarrow> port list \<Rightarrow> port_ranges" where
  "including_ports ranges ports =
     normalize_ranges (ranges @
       map (\<lambda>p. \<lparr> pr_start = p, pr_end = p \<rparr>) (filter (\<lambda>p. p \<noteq> 0) ports))"

section \<open>The meaning of a range list\<close>

definition range_ok :: "port_range \<Rightarrow> bool" where
  "range_ok r \<longleftrightarrow> 1 \<le> pr_start r \<and> pr_start r \<le> pr_end r \<and> pr_end r \<le> u16_max"

definition canonical :: "port_ranges \<Rightarrow> bool" where
  "canonical rs \<longleftrightarrow> list_all range_ok rs \<and> sorted_wrt (\<lambda>a b. Suc (pr_end a) < pr_start b) rs"

definition ports_of :: "port_ranges \<Rightarrow> port set" where
  "ports_of rs = (\<Union>r \<in> set rs. {pr_start r..pr_end r})"

lemma ports_of_simps [simp]:
  "ports_of [] = {}"
  "ports_of (r # rs) = {pr_start r..pr_end r} \<union> ports_of rs"
  "ports_of (rs @ rs') = ports_of rs \<union> ports_of rs'"
  by (auto simp: ports_of_def)

lemma canonical_Nil [simp]: "canonical []"
  by (simp add: canonical_def)

lemma canonical_snoc:
  "canonical (rs @ [r]) \<longleftrightarrow> canonical rs \<and> range_ok r \<and> (\<forall>a \<in> set rs. Suc (pr_end a) < pr_start r)"
  by (auto simp: canonical_def sorted_wrt_append)

lemma canonical_last:
  assumes "canonical rs" "rs \<noteq> []" "Suc (pr_end (last rs)) < pr_start r"
  shows "\<forall>a \<in> set rs. Suc (pr_end a) < pr_start r"
proof -
  obtain qs q where rs: "rs = qs @ [q]" using assms(2) by (cases rs rule: rev_cases) auto
  with assms show ?thesis by (fastforce simp: canonical_snoc range_ok_def)
qed

lemma merge_range_canonical:
  assumes "canonical rs" "range_ok r" "rs \<noteq> [] \<longrightarrow> pr_start (last rs) \<le> pr_start r"
  shows "canonical (merge_range rs r) \<and> ports_of (merge_range rs r) = ports_of rs \<union> {pr_start r..pr_end r} \<and>
    merge_range rs r \<noteq> [] \<and> pr_start (last (merge_range rs r)) \<le> pr_start r"
proof (cases rs rule: rev_cases)
  case Nil
  then show ?thesis using assms(2) by (simp add: merge_range_def canonical_def)
next
  case (snoc qs q)
  show ?thesis
  proof (cases "pr_start r \<le> u16_saturating_add (pr_end q) 1")
    case True
    then have near: "pr_start r \<le> Suc (pr_end q)" by (simp add: u16_saturating_add_def)
    have merged: "merge_range rs r = qs @ [q\<lparr> pr_end := max (pr_end q) (pr_end r) \<rparr>]"
      using True snoc by (simp add: merge_range_def)
    have "{pr_start q..max (pr_end q) (pr_end r)} = {pr_start q..pr_end q} \<union> {pr_start r..pr_end r}"
      using near assms(2,3) snoc by (auto simp: range_ok_def)
    then have "ports_of (merge_range rs r) = ports_of rs \<union> {pr_start r..pr_end r}"
      unfolding merged by (simp add: snoc Un_assoc)
    moreover have "canonical (merge_range rs r)"
      unfolding merged using assms [unfolded snoc] by (auto simp: canonical_snoc range_ok_def)
    moreover have "merge_range rs r \<noteq> [] \<and> pr_start (last (merge_range rs r)) \<le> pr_start r"
      unfolding merged using assms(3) [unfolded snoc] by simp
    ultimately show ?thesis by blast
  next
    case False
    then have far: "Suc (pr_end q) < pr_start r"
      using assms(2) by (auto simp: u16_saturating_add_def range_ok_def min_def split: if_splits)
    have "\<forall>a \<in> set rs. Suc (pr_end a) < pr_start r"
      by (rule canonical_last [OF assms(1)]) (use snoc far in simp_all)
    moreover have merged: "merge_range rs r = rs @ [r]"
      using False snoc by (simp add: merge_range_def)
    ultimately show ?thesis
      unfolding merged using assms(1,2) canonical_snoc [of rs r] by simp
  qed
qed

lemma merge_ranges_canonical:
  assumes "canonical acc" "list_all range_ok rs" "sorted (map pr_start rs)"
    and "\<forall>r \<in> set rs. acc \<noteq> [] \<longrightarrow> pr_start (last acc) \<le> pr_start r"
  shows "canonical (foldl merge_range acc rs) \<and> ports_of (foldl merge_range acc rs) = ports_of acc \<union> ports_of rs"
  using assms
proof (induction rs arbitrary: acc)
  case Nil
  then show ?case by simp
next
  case (Cons r rs)
  have step: "canonical (merge_range acc r)"
      "ports_of (merge_range acc r) = ports_of acc \<union> {pr_start r..pr_end r}"
      "pr_start (last (merge_range acc r)) \<le> pr_start r"
    using merge_range_canonical [of acc r] Cons.prems by simp_all
  have "canonical (foldl merge_range (merge_range acc r) rs) \<and>
      ports_of (foldl merge_range (merge_range acc r) rs) = ports_of (merge_range acc r) \<union> ports_of rs"
    by (rule Cons.IH [OF step(1)]) (use Cons.prems step(3) in \<open>auto intro: order_trans\<close>)
  with step(2) show ?case by auto
qed

lemma sorted_starts: "sorted (map pr_start (sort_key (\<lambda>r. (pr_start r, pr_end r)) rs))"
proof -
  have "sorted (map (\<lambda>r. (pr_start r, pr_end r)) (sort_key (\<lambda>r. (pr_start r, pr_end r)) rs))" by simp
  then show ?thesis by (auto simp: sorted_map less_eq_prod_def elim!: sorted_wrt_mono_rel [rotated])
qed

lemma normalize_ranges_correct:
  assumes "list_all range_ok rs"
  shows "canonical (normalize_ranges rs) \<and> ports_of (normalize_ranges rs) = ports_of rs"
  using merge_ranges_canonical [of "[]" "sort_key (\<lambda>r. (pr_start r, pr_end r)) rs"] assms
  by (simp add: normalize_ranges_def sorted_starts list_all_iff ports_of_def)

lemma canonical_starts_ge:
  assumes "canonical rs" "rs = a # as" shows "\<forall>r \<in> set as. pr_start a < pr_start r"
  using assms by (auto simp: canonical_def range_ok_def)

text \<open>Merging leaves a canonical list alone, so normalisation is idempotent.\<close>

lemma merge_canonical_id:
  assumes "canonical (acc @ rs)"
  shows "foldl merge_range acc rs = acc @ rs"
  using assms
proof (induction rs arbitrary: acc)
  case Nil
  then show ?case by simp
next
  case (Cons r rs)
  have "merge_range acc r = acc @ [r]"
  proof (cases acc rule: rev_cases)
    case Nil
    then show ?thesis by (simp add: merge_range_def)
  next
    case (snoc as a)
    with Cons.prems have "Suc (pr_end a) < pr_start r"
      by (auto simp: canonical_def sorted_wrt_append)
    then show ?thesis
      using snoc by (simp add: merge_range_def u16_saturating_add_def)
  qed
  with Cons show ?case by simp
qed

lemma canonical_sorted: "canonical rs \<Longrightarrow> sorted (map (\<lambda>r. (pr_start r, pr_end r)) rs)"
  unfolding canonical_def sorted_map list_all_iff
  by (erule conjE, erule sorted_wrt_mono_rel [rotated]) (auto simp: range_ok_def less_eq_prod_def)

lemma normalize_canonical: "canonical rs \<Longrightarrow> normalize_ranges rs = rs"
  using merge_canonical_id [of "[]" rs]
  by (simp add: normalize_ranges_def sort_key_id_if_sorted canonical_sorted)

section \<open>Binary search\<close>

text \<open>
  The window invariant: when position \<open>i\<close> is the only match, everything before compares less and
  everything after compares greater, the search never leaves \<open>i\<close> behind.
\<close>

lemma search_base_finds:
  assumes "\<forall>j. j < i \<longrightarrow> cmp j = Lesser" "cmp i = Equal" "\<forall>j. i < j \<and> j < n \<longrightarrow> cmp j = Greater"
    and "base \<le> i" "i < base + sz" "base + sz \<le> n"
  shows "search_base cmp base sz = i"
  using assms
proof (induction cmp base sz rule: search_base.induct)
  case (1 cmp base sz)
  show ?case
  proof (cases "sz \<le> 1")
    case True
    with 1(5,6) show ?thesis by (simp add: search_base.simps)
  next
    case False
    define mid where "mid = base + sz div 2"
    show ?thesis
    proof (cases "cmp mid = Greater")
      case True
      with 1(2,3) have "i < mid" by (metis comparison.distinct(3,5) not_less_iff_gr_or_eq)
      with 1(5,7) have "search_base cmp base (sz - sz div 2) = i"
        using 1(1) [OF False] 1(2,3,4) True by (simp add: mid_def)
      with True False show ?thesis by (subst search_base.simps) (simp add: mid_def)
    next
      case other: False
      with 1(4,7) False have "mid \<le> i" by (metis mid_def add_less_cancel_left div_less_dividend
          leI less_le_trans not_le numeral_2_eq_2 One_nat_def lessI zero_less_one order_less_trans)
      with 1(6,7) have "search_base cmp mid (sz - sz div 2) = i"
        using 1(1) [OF False] 1(2,3,4) other by (simp add: mid_def)
      with other False show ?thesis by (subst search_base.simps) (simp add: mid_def)
    qed
  qed
qed

lemma search_base_bound: "0 < sz \<Longrightarrow> search_base cmp base sz < base + sz"
proof (induction cmp base sz rule: search_base.induct)
  case (1 cmp base sz)
  show ?case
  proof (cases "sz \<le> 1")
    case True
    with 1 show ?thesis by (simp add: search_base.simps)
  next
    case False
    then have "search_base cmp b (sz - sz div 2) < b + (sz - sz div 2)"
      if "b = (if cmp (base + sz div 2) = Greater then base else base + sz div 2)" for b
      using 1(1) [OF False] that by simp
    then show ?thesis using False by (subst search_base.simps) (fastforce split: if_splits)
  qed
qed

lemma contains_correct:
  assumes "canonical rs"
  shows "port_ranges_contains rs p \<longleftrightarrow> p \<in> ports_of rs"
proof
  assume "port_ranges_contains rs p"
  then obtain i where "rs \<noteq> []" "i = search_base (\<lambda>i. compare_range p (rs ! i)) 0 (length rs)"
    and eq: "compare_range p (rs ! i) = Equal"
    by (auto simp: port_ranges_contains_def binary_search_by_def Let_def split: if_splits)
  then have "i < length rs" using search_base_bound [of "length rs" _ 0] by simp
  with eq show "p \<in> ports_of rs"
    by (auto simp: ports_of_def compare_range_def split: if_splits intro!: bexI [of _ "rs ! i"])
next
  assume "p \<in> ports_of rs"
  then obtain i where i: "i < length rs" "pr_start (rs ! i) \<le> p" "p \<le> pr_end (rs ! i)"
    by (auto simp: ports_of_def in_set_conv_nth)
  have ok: "range_ok (rs ! j)" if "j < length rs" for j
    using assms that by (simp add: canonical_def list_all_length)
  have apart: "pr_end (rs ! j) < pr_start (rs ! k)" if "j < k" "k < length rs" for j k
    using assms that sorted_wrt_nth_less [of "\<lambda>a b. Suc (pr_end a) < pr_start b" rs j k]
    by (simp add: canonical_def)
  have before: "compare_range p (rs ! j) = Lesser" if "j < i" for j
    using apart [of j i] ok [of j] that i by (simp add: compare_range_def range_ok_def)
  have after: "compare_range p (rs ! j) = Greater" if "i < j" "j < length rs" for j
    using apart [of i j] that i by (simp add: compare_range_def)
  have hit: "compare_range p (rs ! i) = Equal" using i by (simp add: compare_range_def)
  have "search_base (\<lambda>i. compare_range p (rs ! i)) 0 (length rs) = i"
    by (rule search_base_finds [where n = "length rs"]) (use before hit after i(1) in auto)
  moreover have "p \<noteq> 0" using ok [OF i(1)] i(2) by (simp add: range_ok_def)
  ultimately show "port_ranges_contains rs p"
    using hit i(1) by (auto simp: port_ranges_contains_def binary_search_by_def)
qed

section \<open>Parsing and printing\<close>

lemma ranges_parse_port_ok: "ranges_parse_port s = Ok p \<Longrightarrow> 1 \<le> p \<and> p \<le> u16_max"
  by (auto simp: ranges_parse_port_def dest: parse_uint_bound split: option.splits if_splits)

lemma parse_segment_ok: "parse_segment s = Ok r \<Longrightarrow> range_ok r"
  by (auto simp: parse_segment_def Let_def and_then_ok_iff range_ok_def
      dest!: ranges_parse_port_ok split: if_splits option.splits)

lemma parse_ranges_canonical:
  assumes "parse_ranges s b = Ok rs"
  shows "canonical rs"
proof (cases "trim s = []")
  case True
  with assms show ?thesis by (simp add: parse_ranges_def split: if_splits)
next
  case False
  with assms obtain qs where qs: "map_result parse_segment (split_on 44 (trim s)) = Ok qs"
    and rs: "rs = normalize_ranges qs"
    by (auto simp: parse_ranges_def Let_def and_then_ok_iff)
  have "list_all range_ok qs"
    using map_result_in_set [OF qs] parse_segment_ok by (fastforce simp: list_all_iff)
  then show ?thesis using normalize_ranges_correct rs by blast
qed

lemma parse_port_to_string: "1 \<le> n \<Longrightarrow> n \<le> u16_max \<Longrightarrow> ranges_parse_port (nat_to_string n) = Ok n"
  by (simp add: ranges_parse_port_def parse_uint_to_string)

lemma parse_segment_render:
  assumes "range_ok r"
  shows "parse_segment (render_range (pr_start r) (pr_end r)) = Ok r"
proof (cases "pr_start r = pr_end r")
  case True
  have "split_once 45 (nat_to_string (pr_end r)) = None"
    by (simp add: split_once_None to_string_no_sep)
  with True assms show ?thesis
    by (simp add: parse_segment_def render_range_def parse_port_to_string range_ok_def)
next
  case False
  have "split_once 45 (render_range (pr_start r) (pr_end r)) =
      Some (nat_to_string (pr_start r), nat_to_string (pr_end r))"
    using False by (simp add: render_range_def split_once_Some to_string_no_sep)
  with assms show ?thesis
    by (simp add: parse_segment_def parse_port_to_string range_ok_def to_string_no_sep)
qed

lemma trim_expression: "trim (port_ranges_expression rs) = port_ranges_expression rs"
proof (rule trim_id)
  have "list_all (\<lambda>c. \<not> is_whitespace c) (render_range a b)" for a b
    by (rule list.pred_mono_strong [OF render_range_chars]) (auto simp: is_digit_def is_whitespace_def)
  then show "list_all (\<lambda>c. \<not> is_whitespace c) (port_ranges_expression rs)"
    by (simp add: port_ranges_expression_def list_all_join list.pred_map comp_def is_whitespace_def)
      (simp add: list_all_iff)
qed

lemma parse_expression:
  assumes "canonical rs" "rs \<noteq> [] \<or> b"
  shows "parse_ranges (port_ranges_expression rs) b = Ok rs"
proof (cases "rs = []")
  case True
  with assms show ?thesis
    by (simp add: parse_ranges_def port_ranges_expression_def trim_def)
next
  case False
  let ?ss = "map (\<lambda>r. render_range (pr_start r) (pr_end r)) rs"
  have "split_on 44 (port_ranges_expression rs) = ?ss"
    unfolding port_ranges_expression_def
    by (rule split_on_join) (use False render_range_no_comma in auto)
  moreover have "map_result parse_segment ?ss = Ok rs"
    using assms(1) by (auto simp: canonical_def map_result_ok_iff list_all2_conv_all_nth
        list_all_length intro: parse_segment_render)
  moreover have "port_ranges_expression rs \<noteq> []"
    using False by (cases rs; cases "tl rs") (simp_all add: port_ranges_expression_def)
  ultimately show ?thesis
    using assms(1) by (simp add: parse_ranges_def trim_expression normalize_canonical)
qed

section \<open>The set interface and uniqueness\<close>

text \<open>What the users of a port set rely on, and what follows for them.\<close>

locale port_set =
  fixes wf :: "'r \<Rightarrow> bool"
    and ports :: "'r \<Rightarrow> port set"
    and contains :: "'r \<Rightarrow> port \<Rightarrow> bool"
    and adding :: "'r \<Rightarrow> port list \<Rightarrow> 'r"
  assumes contains_iff: "wf r \<Longrightarrow> contains r p \<longleftrightarrow> p \<in> ports r"
    and including_wf: "wf r \<Longrightarrow> \<forall>p \<in> set ps. p \<le> u16_max \<Longrightarrow> wf (adding r ps)"
    and ports_including: "wf r \<Longrightarrow> \<forall>p \<in> set ps. p \<le> u16_max \<Longrightarrow>
      ports (adding r ps) = ports r \<union> (set ps - {0})"
begin

lemma contains_including:
  "wf r \<Longrightarrow> \<forall>p \<in> set ps. p \<le> u16_max \<Longrightarrow>
     contains (adding r ps) p \<longleftrightarrow> contains r p \<or> p \<noteq> 0 \<and> p \<in> set ps"
  by (auto simp: contains_iff including_wf ports_including)

lemma same_answers: "wf r \<Longrightarrow> wf r' \<Longrightarrow> (\<forall>p. contains r p \<longleftrightarrow> contains r' p) \<longleftrightarrow> ports r = ports r'"
  by (auto simp: contains_iff)

lemma excluding:
  "wf a \<Longrightarrow> wf r \<Longrightarrow> \<forall>p \<in> set ps. p \<le> u16_max \<Longrightarrow>
     contains a p \<and> \<not> contains (adding r ps) p \<longleftrightarrow> p \<in> ports a - ports r - (set ps - {0})"
  by (auto simp: contains_iff including_wf ports_including)

end

lemma added_ok:
  "\<forall>p \<in> set ps. p \<le> u16_max \<Longrightarrow>
     list_all range_ok (map (\<lambda>p. \<lparr> pr_start = p, pr_end = p \<rparr>) (filter (\<lambda>p. p \<noteq> 0) ps))"
  by (auto simp: list_all_iff range_ok_def)

lemma ports_of_added:
  "ports_of (map (\<lambda>p. \<lparr> pr_start = p, pr_end = p \<rparr>) (filter (\<lambda>p. p \<noteq> 0) ps)) = set ps - {0}"
  by (induction ps) auto

lemma including_ports_correct:
  assumes "canonical rs" "\<forall>p \<in> set ps. p \<le> u16_max"
  shows "canonical (including_ports rs ps) \<and> ports_of (including_ports rs ps) = ports_of rs \<union> (set ps - {0})"
proof -
  let ?new = "map (\<lambda>p. \<lparr> pr_start = p, pr_end = p \<rparr>) (filter (\<lambda>p. p \<noteq> 0) ps)"
  have "list_all range_ok (rs @ ?new)"
    using assms(1) added_ok [OF assms(2)] by (simp add: canonical_def)
  from normalize_ranges_correct [OF this] show ?thesis
    by (simp add: including_ports_def ports_of_added del: neq0_conv)
qed

interpretation ranges_set: port_set canonical ports_of port_ranges_contains including_ports
  by unfold_locales (simp_all add: contains_correct including_ports_correct)

lemma ports_of_ge: "canonical (a # as) \<Longrightarrow> p \<in> ports_of (a # as) \<Longrightarrow> pr_start a \<le> p"
  by (auto simp: canonical_def ports_of_def range_ok_def)

lemma ports_of_tail_gt: "canonical (a # as) \<Longrightarrow> p \<in> ports_of as \<Longrightarrow> Suc (pr_end a) < p"
  by (auto simp: canonical_def ports_of_def)

lemma canonical_head:
  assumes "canonical (a # as)" "canonical (b # bs)" "ports_of (a # as) = ports_of (b # bs)"
  shows "pr_start b \<le> pr_start a \<and> pr_end b \<le> pr_end a"
proof
  have "range_ok a" "range_ok b" using assms(1,2) by (simp_all add: canonical_def)
  then have "pr_start a \<in> ports_of (b # bs)" using assms(3) by (auto simp: range_ok_def)
  then show start: "pr_start b \<le> pr_start a" by (rule ports_of_ge [OF assms(2)])
  show "pr_end b \<le> pr_end a"
  proof (rule ccontr)
    assume "\<not> pr_end b \<le> pr_end a"
    then have "Suc (pr_end a) \<in> ports_of (b # bs)"
      using start \<open>range_ok a\<close> by (auto simp: range_ok_def)
    then have "Suc (pr_end a) \<in> ports_of as" unfolding assms(3) [symmetric] by simp
    from ports_of_tail_gt [OF assms(1) this] show False by simp
  qed
qed

lemma canonical_unique:
  "canonical rs \<Longrightarrow> canonical rs' \<Longrightarrow> ports_of rs = ports_of rs' \<Longrightarrow> rs = rs'"
proof (induction rs arbitrary: rs')
  case Nil
  then show ?case by (cases rs') (auto simp: canonical_def range_ok_def)
next
  case (Cons a as)
  then obtain b bs where rs': "rs' = b # bs"
    by (cases rs') (auto simp: canonical_def range_ok_def)
  have "pr_start a = pr_start b" "pr_end a = pr_end b"
    using canonical_head [of a as b bs] canonical_head [of b bs a as] Cons.prems rs' by simp_all
  then have ab: "a = b" by simp
  have "ports_of as = ports_of (a # as) - {pr_start a..pr_end a}"
    using ports_of_tail_gt [OF Cons.prems(1)] by fastforce
  moreover have "ports_of bs = ports_of (b # bs) - {pr_start b..pr_end b}"
    using ports_of_tail_gt [of b bs] Cons.prems(2) rs' by fastforce
  ultimately have "ports_of as = ports_of bs" using Cons.prems(3) ab rs' by simp
  with Cons show ?case by (simp add: rs' ab canonical_def)
qed

section \<open>Properties\<close>

text \<open>
  C13. Membership by binary search in the normalised list is exactly what the text says: a port is
  contained in a parsed expression extended by some listener ports if and only if it lies between
  the bounds of one of the segments of the text or is one of the (non-zero) listener ports.
\<close>

theorem port_ranges_refine_text:
  assumes "port_ranges_parse s = Ok rs" and "list_all (\<lambda>q. q \<le> u16_max) extra"
  shows "port_ranges_contains (including_ports rs extra) p \<longleftrightarrow>
    (\<exists>segment r. segment \<in> set (split_on 44 (trim s)) \<and> parse_segment segment = Ok r \<and>
       pr_start r \<le> p \<and> p \<le> pr_end r) \<or> (p \<noteq> 0 \<and> p \<in> set extra)"
proof -
  from assms(1) obtain qs where qs: "map_result parse_segment (split_on 44 (trim s)) = Ok qs"
    and rs: "rs = normalize_ranges qs"
    by (auto simp: port_ranges_parse_def parse_ranges_def Let_def and_then_ok_iff split: if_splits)
  have ok: "list_all range_ok qs"
    using map_result_in_set [OF qs] parse_segment_ok by (fastforce simp: list_all_iff)
  have "r \<in> set qs \<longleftrightarrow> (\<exists>segment \<in> set (split_on 44 (trim s)). parse_segment segment = Ok r)" for r
    by (rule map_result_set [OF qs])
  then have "p \<in> ports_of qs \<longleftrightarrow> (\<exists>segment r. segment \<in> set (split_on 44 (trim s)) \<and>
      parse_segment segment = Ok r \<and> pr_start r \<le> p \<and> p \<le> pr_end r)"
    unfolding ports_of_def by auto blast
  moreover have "canonical rs" "ports_of rs = ports_of qs"
    using normalize_ranges_correct [OF ok] rs by simp_all
  ultimately show ?thesis
    using assms(2) ranges_set.contains_including [of rs extra p]
    by (simp add: list_all_iff ranges_set.contains_iff)
qed

text \<open>
  C14. The normalised list is a canonical form: two accepted expressions yield equal lists exactly
  when they contain the same ports, and the printed form of the list parses back to it.
\<close>

theorem port_ranges_canonical_form:
  assumes "port_ranges_parse s = Ok rs" and "port_ranges_parse s' = Ok rs'"
  shows "(rs = rs' \<longleftrightarrow> (\<forall>p. port_ranges_contains rs p \<longleftrightarrow> port_ranges_contains rs' p)) \<and>
    (rs \<noteq> [] \<longrightarrow> port_ranges_parse (port_ranges_expression rs) = Ok rs)"
proof -
  have can: "canonical rs" "canonical rs'"
    using assms parse_ranges_canonical by (auto simp: port_ranges_parse_def)
  have "rs = rs' \<longleftrightarrow> (\<forall>p. port_ranges_contains rs p \<longleftrightarrow> port_ranges_contains rs' p)"
    using ranges_set.same_answers [OF can] canonical_unique [OF can] by auto
  moreover have "rs \<noteq> [] \<longrightarrow> port_ranges_parse (port_ranges_expression rs) = Ok rs"
    using parse_expression [OF can(1)] by (simp add: port_ranges_parse_def)
  ultimately show ?thesis by blast
qed

lemmas ranges_eval = port_ranges_parse_def parse_ranges_def parse_segment_def ranges_parse_port_def
  trim_def is_whitespace_def parse_uint_def digits_value_def is_digit_def u16_max_def
  normalize_ranges_def merge_range_def u16_saturating_add_def sort_key_def

lemma sample_ranges:
  "port_ranges_parse (lit ''443, 80-82 ,83'') =
     Ok [\<lparr> pr_start = 80, pr_end = 83 \<rparr>, \<lparr> pr_start = 443, pr_end = 443 \<rparr>]"
  "port_ranges_parse (lit ''80-83,443'') =
     Ok [\<lparr> pr_start = 80, pr_end = 83 \<rparr>, \<lparr> pr_start = 443, pr_end = 443 \<rparr>]"
  by (simp_all add: ranges_eval)

theorem port_ranges_refine_text_witness:
  "\<exists>rs. port_ranges_parse (lit ''443, 80-82 ,83'') = Ok rs \<and>
     port_ranges_contains (including_ports rs [9000]) 9000 \<and>
     list_all (\<lambda>q. q \<le> u16_max) [9000]"
  using port_ranges_refine_text [OF sample_ranges(1), of "[9000]" 9000] sample_ranges(1)
  by (simp add: u16_max_def)

theorem port_ranges_canonical_form_witness:
  "\<exists>rs rs'. port_ranges_parse (lit ''443, 80-82 ,83'') = Ok rs \<and>
     port_ranges_parse (lit ''80-83,443'') = Ok rs' \<and> rs = rs' \<and>
     port_ranges_parse (port_ranges_expression rs) = Ok rs \<and>
     (\<forall>p. port_ranges_contains rs p \<longleftrightarrow> port_ranges_contains rs' p)"
  using port_ranges_canonical_form [OF sample_ranges] sample_ranges by simp

end
