(* ===== verification/Port_Policy.thy ===== *)
theory Port_Policy
  imports Ha_Cluster Public_Ports
begin

text \<open>
  Which public ports tunnels may use, and the leasing of dynamic ports
  (\<open>linklake-server/src/public_port_policy.rs\<close>). The policy comes from the environment and the
  addresses the server itself listens on; a dynamic port is found by trying the allowed ports from
  a rotating cursor, each attempt one lease transaction, between which other processes may commit
  transactions of their own.
\<close>

section \<open>The policy\<close>

record public_port_policy =
  pp_tcp_allowed :: port_ranges
  pp_udp_allowed :: port_ranges
  pp_tcp_reserved :: port_ranges
  pp_udp_reserved :: port_ranges

record public_port_policy_view =
  vw_tcp_allowed :: str
  vw_udp_allowed :: str
  vw_tcp_reserved :: str
  vw_udp_reserved :: str

datatype policy_error = PolicyRanges port_ranges_error | NoTcpPort | NoUdpPort

definition DEFAULT_PUBLIC_PORTS :: str where
  "DEFAULT_PUBLIC_PORTS = lit ''32000-32999''"

definition DEFAULT_RESERVED_TCP_PORTS :: str where
  "DEFAULT_RESERVED_TCP_PORTS = lit ''22''"

fun environment_value :: "environment \<Rightarrow> str list \<Rightarrow> str option" where
  "environment_value env [] = None"
| "environment_value env (name # names) =
     (case env name of
        Some v \<Rightarrow> if trim v = [] then environment_value env names else Some (trim v)
      | None \<Rightarrow> environment_value env names)"

definition unwrap_or :: "'a option \<Rightarrow> 'a \<Rightarrow> 'a" where
  "unwrap_or x fallback = (case x of Some v \<Rightarrow> v | None \<Rightarrow> fallback)"

definition has_available_port :: "port_ranges \<Rightarrow> port_ranges \<Rightarrow> bool" where
  "has_available_port allowed reserved \<longleftrightarrow>
     list_ex (\<lambda>r. list_ex (\<lambda>p. \<not> port_ranges_contains reserved p) [pr_start r..<Suc (pr_end r)]) allowed"

definition policy_from_environment ::
  "environment \<Rightarrow> port list \<Rightarrow> port list \<Rightarrow> policy_error + public_port_policy" where
  "policy_from_environment env tcp_listeners udp_listeners =
     (let common = unwrap_or (environment_value env
            [lit ''LINKLAKE_PUBLIC_PORT_RANGES'', lit ''LINKLAKE_PUBLIC_PORT_RANGE'']) DEFAULT_PUBLIC_PORTS in
      and_then (map_err PolicyRanges (port_ranges_parse
          (unwrap_or (environment_value env [lit ''LINKLAKE_TCP_PUBLIC_PORTS'']) common))) (\<lambda>tcp_allowed.
      and_then (map_err PolicyRanges (port_ranges_parse
          (unwrap_or (environment_value env [lit ''LINKLAKE_UDP_PUBLIC_PORTS'']) common))) (\<lambda>udp_allowed.
      and_then (map_err PolicyRanges (port_ranges_parse_optional
          (unwrap_or (environment_value env [lit ''LINKLAKE_RESERVED_TCP_PORTS''])
             DEFAULT_RESERVED_TCP_PORTS))) (\<lambda>tcp_reserved.
      and_then (map_err PolicyRanges (port_ranges_parse_optional
          (unwrap_or (environment_value env [lit ''LINKLAKE_RESERVED_UDP_PORTS'']) []))) (\<lambda>udp_reserved.
        let tcp_reserved = including_ports tcp_reserved tcp_listeners;
            udp_reserved = including_ports udp_reserved udp_listeners in
        if \<not> has_available_port tcp_allowed tcp_reserved then Err NoTcpPort
        else if \<not> has_available_port udp_allowed udp_reserved then Err NoUdpPort
        else Ok \<lparr> pp_tcp_allowed = tcp_allowed, pp_udp_allowed = udp_allowed,
                  pp_tcp_reserved = tcp_reserved, pp_udp_reserved = udp_reserved \<rparr>)))))"

text \<open>\<open>expect\<close> would panic: \<open>None\<close>.\<close>

definition policy_schema_migration :: "public_port_policy option" where
  "policy_schema_migration =
     (case port_ranges_parse (lit ''1-65535'') of
        Inl _ \<Rightarrow> None
      | Inr tcp \<Rightarrow>
          (case port_ranges_parse (lit ''1-65535'') of
             Inl _ \<Rightarrow> None
           | Inr udp \<Rightarrow> Some \<lparr> pp_tcp_allowed = tcp, pp_udp_allowed = udp,
                              pp_tcp_reserved = [], pp_udp_reserved = [] \<rparr>))"

definition allows_tcp :: "public_port_policy \<Rightarrow> port \<Rightarrow> bool" where
  "allows_tcp policy p \<longleftrightarrow>
     port_ranges_contains (pp_tcp_allowed policy) p \<and> \<not> port_ranges_contains (pp_tcp_reserved policy) p"

definition allows_udp :: "public_port_policy \<Rightarrow> port \<Rightarrow> bool" where
  "allows_udp policy p \<longleftrightarrow>
     port_ranges_contains (pp_udp_allowed policy) p \<and> \<not> port_ranges_contains (pp_udp_reserved policy) p"

definition policy_view :: "public_port_policy \<Rightarrow> public_port_policy_view" where
  "policy_view policy =
     \<lparr> vw_tcp_allowed = port_ranges_expression (pp_tcp_allowed policy),
       vw_udp_allowed = port_ranges_expression (pp_udp_allowed policy),
       vw_tcp_reserved = port_ranges_expression (pp_tcp_reserved policy),
       vw_udp_reserved = port_ranges_expression (pp_udp_reserved policy) \<rparr>"

section \<open>Dynamic ports\<close>

datatype dynamic_port_lease_error = Exhausted | Unavailable

record ha_dynamic_port_lease =
  dl_ownership :: public_port_ownership
  dl_lease :: public_port_lease
  dl_renewal_interval :: nat
  dl_released :: bool

text \<open>
  What an attempt meets: the transactions other processes commit before it, its clock readings
  and the fresh lease id.
\<close>

record attempt =
  at_others :: "ha_op list"
  at_fence_now :: unix
  at_now :: unix
  at_lease_id :: uuid

text \<open>\<open>(cursor - 1 + offset) % u16::MAX as u32 + 1\<close> in 32-bit arithmetic.\<close>

definition candidate :: "nat \<Rightarrow> nat \<Rightarrow> port" where
  "candidate cursor offset = (cursor - 1 + offset) mod 2 ^ 32 mod u16_max + 1"

fun try_candidates ::
  "json_lib \<Rightarrow> public_port_ownership \<Rightarrow> public_port_policy \<Rightarrow> uuid \<Rightarrow> token \<Rightarrow> (nat \<Rightarrow> attempt) \<Rightarrow> nat \<Rightarrow>
     nat list \<Rightarrow> ha_db \<Rightarrow> ha_db \<times> (dynamic_port_lease_error + public_port_lease)" where
  "try_candidates js po policy policy_id token env cursor [] db = (db, Err Exhausted)"
| "try_candidates js po policy policy_id token env cursor (offset # offsets) db =
     (let p = candidate cursor offset in
      if \<not> allows_tcp policy p
      then try_candidates js po policy policy_id token env cursor offsets db
      else let a = env offset; db = meanwhile js (at_others a) db in
        case port_acquire po Tcp p policy_id token (at_lease_id a) (at_now a) (at_fence_now a) db of
          Inl e \<Rightarrow> (db, Err Unavailable)
        | Inr (None, db) \<Rightarrow> try_candidates js po policy policy_id token env cursor offsets db
        | Inr (Some lease, db) \<Rightarrow> (db, Ok lease))"

text \<open>\<open>next_tcp\<close> is the shared cursor; \<open>fetch_add\<close> wraps at 32 bits.\<close>

definition acquire_tcp ::
  "json_lib \<Rightarrow> ha_runtime \<Rightarrow> public_port_policy \<Rightarrow> uuid \<Rightarrow> (nat \<Rightarrow> attempt) \<Rightarrow> nat \<Rightarrow> ha_db \<Rightarrow>
     nat \<times> ha_db \<times> (dynamic_port_lease_error + ha_dynamic_port_lease)" where
  "acquire_tcp js rt policy policy_id env next_tcp db =
     (case runtime_token rt of
        Inl e \<Rightarrow> (next_tcp, db, Err Unavailable)
      | Inr token \<Rightarrow>
          let cursor = max next_tcp 1 in
          case try_candidates js (rt_public_ports rt) policy policy_id token env cursor [0..<u16_max] db of
            (db, Inl e) \<Rightarrow> ((next_tcp + 1) mod 2 ^ 32, db, Err e)
          | (db, Inr lease) \<Rightarrow>
              (max ((pl_public_port lease + 1) mod 2 ^ 16) 1, db,
               Ok \<lparr> dl_ownership = rt_public_ports rt, dl_lease = lease,
                    dl_renewal_interval = rt_heartbeat rt, dl_released = False \<rparr>))"

definition dynamic_renew ::
  "ha_runtime \<Rightarrow> ha_dynamic_port_lease \<Rightarrow> unix \<Rightarrow> unix \<Rightarrow> ha_db \<Rightarrow> ha_db \<times> (dynamic_port_lease_error + unit)" where
  "dynamic_renew rt dl fence_now now db =
     (let l = dl_lease dl in
      if dl_released dl then (db, Err Unavailable)
      else if runtime_token rt \<noteq> Ok (pl_fencing_token l) then (db, Err Unavailable)
      else case port_renew (dl_ownership dl) (pl_protocol l) (pl_public_port l) (pl_policy_id l)
             (pl_lease_id l) (pl_fencing_token l) fence_now now db of
             Inl e \<Rightarrow> (db, Err Unavailable)
           | Inr (None, db) \<Rightarrow> (db, Err Unavailable)
           | Inr (Some renewed, db) \<Rightarrow> (db, Ok ()))"

definition dynamic_release ::
  "ha_dynamic_port_lease \<Rightarrow> unix \<Rightarrow> ha_db \<Rightarrow>
     ha_dynamic_port_lease \<times> ha_db \<times> (dynamic_port_lease_error + unit)" where
  "dynamic_release dl fence_now db =
     (let l = dl_lease dl in
      if dl_released dl then (dl, db, Ok ())
      else case port_release (dl_ownership dl) (pl_protocol l) (pl_public_port l) (pl_policy_id l)
             (pl_lease_id l) (pl_fencing_token l) fence_now db of
             Inl e \<Rightarrow> (dl\<lparr> dl_released := True \<rparr>, db, Err Unavailable)
           | Inr (released, db) \<Rightarrow> (dl\<lparr> dl_released := True \<rparr>, db, Ok ()))"

section \<open>The meaning of a policy\<close>

lemma policy_parts:
  assumes "policy_from_environment env tcp udp = Ok policy"
  obtains s1 s2 s3 s4 ta ua tr ur where "port_ranges_parse s1 = Ok ta" "port_ranges_parse s2 = Ok ua"
    "port_ranges_parse_optional s3 = Ok tr" "port_ranges_parse_optional s4 = Ok ur"
    "policy = \<lparr> pp_tcp_allowed = ta, pp_udp_allowed = ua, pp_tcp_reserved = including_ports tr tcp,
       pp_udp_reserved = including_ports ur udp \<rparr>"
    "has_available_port ta (including_ports tr tcp)" "has_available_port ua (including_ports ur udp)"
  using assms
  by (auto simp: policy_from_environment_def Let_def and_then_ok_iff
      simp del: environment_value.simps lit_Cons lit_Nil split: if_splits)

lemma parsed_canonical:
  "port_ranges_parse s = Ok rs \<Longrightarrow> canonical rs"
  "port_ranges_parse_optional s = Ok rs \<Longrightarrow> canonical rs"
  by (auto simp: port_ranges_parse_def port_ranges_parse_optional_def intro: parse_ranges_canonical)

lemma policy_canonical:
  assumes "policy_from_environment env tcp udp = Ok policy"
    and "\<forall>p \<in> set tcp. p \<le> u16_max" "\<forall>p \<in> set udp. p \<le> u16_max"
  shows "canonical (pp_tcp_allowed policy)" "canonical (pp_udp_allowed policy)"
    "canonical (pp_tcp_reserved policy)" "canonical (pp_udp_reserved policy)"
    "set tcp - {0} \<subseteq> ports_of (pp_tcp_reserved policy)" "set udp - {0} \<subseteq> ports_of (pp_udp_reserved policy)"
    "has_available_port (pp_tcp_allowed policy) (pp_tcp_reserved policy)"
    "has_available_port (pp_udp_allowed policy) (pp_udp_reserved policy)"
  using policy_parts [OF assms(1)] assms(2,3)
  by (metis parsed_canonical ranges_set.including_wf ranges_set.ports_including Un_upper2
      public_port_policy.select_convs)+

lemma allows_tcp_iff:
  "canonical (pp_tcp_allowed policy) \<Longrightarrow> canonical (pp_tcp_reserved policy) \<Longrightarrow>
     allows_tcp policy p \<longleftrightarrow> p \<in> ports_of (pp_tcp_allowed policy) - ports_of (pp_tcp_reserved policy)"
  by (simp add: allows_tcp_def ranges_set.contains_iff)

lemma allows_udp_iff:
  "canonical (pp_udp_allowed policy) \<Longrightarrow> canonical (pp_udp_reserved policy) \<Longrightarrow>
     allows_udp policy p \<longleftrightarrow> p \<in> ports_of (pp_udp_allowed policy) - ports_of (pp_udp_reserved policy)"
  by (simp add: allows_udp_def ranges_set.contains_iff)

lemma canonical_port_bounds: "canonical rs \<Longrightarrow> p \<in> ports_of rs \<Longrightarrow> 1 \<le> p \<and> p \<le> u16_max"
  by (fastforce simp: canonical_def ports_of_def list_all_iff range_ok_def)

lemma has_available_port_iff:
  "canonical reserved \<Longrightarrow> has_available_port allowed reserved \<longleftrightarrow> ports_of allowed - ports_of reserved \<noteq> {}"
  by (fastforce simp: has_available_port_def list_ex_iff ports_of_def ranges_set.contains_iff
      simp del: upt_Suc)

section \<open>The search visits every port\<close>

lemma candidate_onto:
  assumes "1 \<le> p" "p \<le> u16_max" "cursor + u16_max \<le> 2 ^ 32"
  shows "\<exists>x \<in> set [0..<u16_max]. candidate cursor x = p"
proof -
  have "p - 1 < u16_max" using assms(1,2) by simp
  from mod_shift_onto [OF this, of "cursor - 1"] obtain x
    where x: "x < u16_max" "(cursor - 1 + x) mod u16_max = p - 1" by blast
  have "(cursor - 1 + x) mod 2 ^ 32 = cursor - 1 + x" using x(1) assms(3) by (intro mod_less) linarith
  with x assms(1) have "candidate cursor x = p" by (simp add: candidate_def)
  with x(1) show ?thesis by auto
qed

lemma candidate_bounds: "1 \<le> candidate cursor x \<and> candidate cursor x \<le> u16_max"
proof -
  have "(cursor - 1 + x) mod 2 ^ 32 mod u16_max < u16_max" by (simp add: u16_max_def)
  then show ?thesis unfolding candidate_def by linarith
qed

lemma try_candidates_leased:
  assumes "try_candidates js po policy policy_id k env cursor xs db = (db', Ok l)"
  shows "\<exists>x d. allows_tcp policy (candidate cursor x) \<and>
    port_acquire po Tcp (candidate cursor x) policy_id k (at_lease_id (env x)) (at_now (env x))
      (at_fence_now (env x)) d = Ok (Some l, db')"
  using assms
  by (induction xs arbitrary: db)
    (auto simp: Let_def split: if_splits sum.splits option.splits prod.splits)

section \<open>Which attempts succeed\<close>

text \<open>The leader's token is the newest that was handed out.\<close>

definition newest :: "ha_db \<Rightarrow> bool" where
  "newest db \<longleftrightarrow> (\<forall>l. db_leader db = Some l \<longrightarrow> Suc (ll_fencing_token l) = db_next_token db)"

lemma newest_change: "ha_change db db' \<Longrightarrow> newest db \<Longrightarrow> newest db'"
  by (cases rule: ha_change.cases) (auto simp: newest_def recover_stale_leases_def)

interpretation newest_machine: guarded_machine "\<lambda>db. ha_inv db \<and> newest db" "ha_step js" for js
proof unfold_locales
  fix db op
  assume inv: "ha_inv db \<and> newest db"
  obtain db' x where st: "ha_step js op db = Some (db', x)" using ha_step_total by blast
  then have "ha_change db db'" using inv by (blast intro: ha_step_change)
  with inv st show "\<exists>db' x. ha_step js op db = Some (db', x) \<and> ha_inv db' \<and> newest db'"
    by (blast intro: ha_change_inv newest_change)
qed

lemma newest_reachable: "run_machine (ha_step js) ops initial_db = Some (db, xs) \<Longrightarrow> ha_inv db \<and> newest db"
  by (rule newest_machine.run_inv [OF conjI [OF initial_inv]]) (simp_all add: newest_def initial_db_def)

text \<open>A TCP port with a running lease of the current leadership.\<close>

definition port_leased :: "token \<Rightarrow> unix \<Rightarrow> ha_db \<Rightarrow> port \<Rightarrow> bool" where
  "port_leased k now db p \<longleftrightarrow>
     (case hm_get (db_ports db) (Tcp, p) of
        Some l \<Rightarrow> pl_fencing_token l = k \<and> now < pl_lease_until l
      | None \<Rightarrow> False)"

lemma port_leased_earlier: "port_leased k now db p \<Longrightarrow> t \<le> now \<Longrightarrow> port_leased k t db p"
  by (auto simp: port_leased_def split: option.splits)

lemma leader_claim_mode:
  assumes inv: "ha_inv db" "newest db" and fence: "assert_fence c k fnow db = Ok ()"
  shows "port_claim_mode (hm_get (db_ports db) (Tcp, p)) (co_instance_id c) (co_incarnation_id c) k now =
    Ok (if port_leased k now db p then Conflict else Fresh)"
proof -
  obtain ld where ld: "db_leader db = Some ld" "ll_instance_id ld = co_instance_id c"
    "ll_incarnation_id ld = co_incarnation_id c" "ll_fencing_token ld = k"
    using fence by (rule assert_fence_ok)
  show ?thesis
  proof (cases "hm_get (db_ports db) (Tcp, p)")
    case None
    then show ?thesis by (simp add: port_claim_mode_def port_leased_def)
  next
    case (Some l)
    note row = port_row_inv [OF inv(1) map_of_SomeD [OF Some]]
    have "pl_fencing_token l \<le> k" using row(1) inv(2) ld by (auto simp: newest_def)
    moreover have "port_row_ok ld (Tcp, p) l" if "pl_fencing_token l = k" using row(2) ld that by simp
    ultimately show ?thesis using Some ld
      by (auto simp: port_claim_mode_def port_leased_def port_row_ok_def simp del: map_of_eq_Some_iff)
  qed
qed

lemma leader_acquires:
  assumes inv: "ha_inv db" "newest db" and fence: "assert_fence (po_coordinator po) k fnow db = Ok ()"
    and p: "1 \<le> p" and fits: "now + po_lease_seconds po \<le> i64_max"
  shows "if port_leased k now db p then port_acquire po Tcp p policy_id k u now fnow db = Ok (None, db)
    else \<exists>l db'. port_acquire po Tcp p policy_id k u now fnow db = Ok (Some l, db')"
proof -
  have k: "0 < k" "k \<le> i64_max"
    using fence inv(1) by (auto elim!: assert_fence_ok simp: ha_inv_def)
  have until: "saturating_add now (po_lease_seconds po) = now + po_lease_seconds po"
    using fits by (intro saturating_add_exact) (simp add: i64_max_def usize_max_def)
  show ?thesis
    using leader_claim_mode [OF inv fence, of p now] k p fits fence
    by (simp add: port_acquire_def validate_port_and_fence_def until as_i64_def Let_def)
qed

text \<open>A search that nothing interferes with.\<close>

definition undisturbed :: "public_port_ownership \<Rightarrow> token \<Rightarrow> ha_db \<Rightarrow> attempt \<Rightarrow> bool" where
  "undisturbed po k db a \<longleftrightarrow>
     at_others a = [] \<and> assert_fence (po_coordinator po) k (at_fence_now a) db = Ok () \<and>
     at_now a + po_lease_seconds po \<le> i64_max"

lemma try_candidates_undisturbed:
  assumes inv: "ha_inv db" "newest db" and env: "\<forall>x \<in> set xs. undisturbed po k db (env x)"
  shows "if \<forall>x \<in> set xs. allows_tcp policy (candidate cursor x) \<longrightarrow>
            port_leased k (at_now (env x)) db (candidate cursor x)
    then try_candidates js po policy policy_id k env cursor xs db = (db, Err Exhausted)
    else \<exists>l db'. try_candidates js po policy policy_id k env cursor xs db = (db', Ok l)"
  using env
proof (induction xs)
  case Nil
  then show ?case by simp
next
  case (Cons x xs)
  then have IH: "if \<forall>x \<in> set xs. allows_tcp policy (candidate cursor x) \<longrightarrow>
            port_leased k (at_now (env x)) db (candidate cursor x)
    then try_candidates js po policy policy_id k env cursor xs db = (db, Err Exhausted)
    else \<exists>l db'. try_candidates js po policy policy_id k env cursor xs db = (db', Ok l)" by simp
  from Cons.prems have u: "undisturbed po k db (env x)" by simp
  show ?case
  proof (cases "allows_tcp policy (candidate cursor x)")
    case False
    with IH show ?thesis by simp
  next
    case True
    have "if port_leased k (at_now (env x)) db (candidate cursor x)
      then port_acquire po Tcp (candidate cursor x) policy_id k (at_lease_id (env x)) (at_now (env x))
        (at_fence_now (env x)) db = Ok (None, db)
      else \<exists>l db'. port_acquire po Tcp (candidate cursor x) policy_id k (at_lease_id (env x)) (at_now (env x))
        (at_fence_now (env x)) db = Ok (Some l, db')"
      using u candidate_bounds [of cursor x] by (intro leader_acquires [OF inv]) (auto simp: undisturbed_def)
    with IH True u show ?thesis
      by (cases "port_leased k (at_now (env x)) db (candidate cursor x)")
        (auto simp: undisturbed_def meanwhile_def Let_def)
  qed
qed

lemma port_acquire_row:
  assumes "port_acquire po protocol p policy_id k u now fnow db = Ok (Some l, db')"
  shows "hm_get (db_ports db') (protocol, p) = Some l" "pl_public_port l = p" "pl_fencing_token l = k"
    "pl_owner_instance_id l = co_instance_id (po_coordinator po)"
    "pl_owner_incarnation_id l = co_incarnation_id (po_coordinator po)"
  using assms
  by (auto simp: port_acquire_def Let_def and_then_ok_iff simp del: map_of_eq_Some_iff split: claim_mode.splits)

section \<open>Properties\<close>

text \<open>
  C29. A dynamic port is one the operator allows. Whatever other processes do while the search
  runs, a port that is handed out lies in the allowed ranges and outside the reserved ones, is
  none of the ports the server itself listens on, and its lease row is held by this process
  until the deadline of the lease.
\<close>

theorem dynamic_port_allowed:
  assumes "policy_from_environment env tcp udp = Ok policy"
    and "\<forall>p \<in> set tcp. p \<le> u16_max" and "\<forall>p \<in> set udp. p \<le> u16_max"
    and "acquire_tcp js rt policy policy_id attempts next_tcp db = (next', db', Ok dl)"
  shows "pl_public_port (dl_lease dl) \<in> ports_of (pp_tcp_allowed policy) - ports_of (pp_tcp_reserved policy) \<and>
    pl_public_port (dl_lease dl) \<notin> set tcp \<and> pl_public_port (dl_lease dl) \<in> {1..u16_max} \<and>
    runtime_token rt = Ok (pl_fencing_token (dl_lease dl)) \<and>
    port_held (po_coordinator (rt_public_ports rt)) (pl_fencing_token (dl_lease dl)) (pl_lease_id (dl_lease dl))
      (Tcp, pl_public_port (dl_lease dl)) (pl_lease_until (dl_lease dl)) db'"
proof -
  let ?l = "dl_lease dl"
  obtain k where k: "runtime_token rt = Ok k"
    and search: "try_candidates js (rt_public_ports rt) policy policy_id k attempts (max next_tcp 1) [0..<u16_max] db =
      (db', Ok ?l)"
    using assms(4) by (auto simp: acquire_tcp_def Let_def split: sum.splits prod.splits)
  from try_candidates_leased [OF search] obtain x d
    where allowed: "allows_tcp policy (candidate (max next_tcp 1) x)"
    and acq: "port_acquire (rt_public_ports rt) Tcp (candidate (max next_tcp 1) x) policy_id k
      (at_lease_id (attempts x)) (at_now (attempts x)) (at_fence_now (attempts x)) d = Ok (Some ?l, db')" by blast
  note row = port_acquire_row [OF acq] and pol = policy_canonical [OF assms(1-3)]
  have in_allowed: "pl_public_port ?l \<in> ports_of (pp_tcp_allowed policy) - ports_of (pp_tcp_reserved policy)"
    using allowed row(2) by (simp add: allows_tcp_iff [OF pol(1,3)])
  then have bounds: "1 \<le> pl_public_port ?l" "pl_public_port ?l \<le> u16_max"
    using canonical_port_bounds [OF pol(1)] by auto
  with in_allowed pol(5) have "pl_public_port ?l \<notin> set tcp" by auto
  moreover have "port_held (po_coordinator (rt_public_ports rt)) k (pl_lease_id ?l)
      (Tcp, pl_public_port ?l) (pl_lease_until ?l) db'"
    using row by (simp add: port_held_def)
  ultimately show ?thesis using in_allowed bounds k row(3) by simp
qed

text \<open>
  C30. The search for a dynamic port is complete. For a process that leads, when no other
  transactions run in between and the cursor has not wrapped, the search never reports an outage:
  it leases a port if some allowed port has no running lease of this leadership at the earliest
  clock reading \<open>t\<close>, and it reports exhaustion, changing nothing, if all of them have leases that
  run past the latest reading \<open>t'\<close>.
\<close>

theorem dynamic_port_search_complete:
  assumes "run_machine (ha_step js) ops initial_db = Some (db, xs)"
    and "policy_from_environment env tcp udp = Ok policy"
    and "\<forall>p \<in> set tcp. p \<le> u16_max" and "\<forall>p \<in> set udp. p \<le> u16_max"
    and "runtime_token rt = Ok k"
    and "\<forall>x < u16_max. undisturbed (rt_public_ports rt) k db (attempts x) \<and>
           t \<le> at_now (attempts x) \<and> at_now (attempts x) \<le> t'"
    and "max next_tcp 1 + u16_max \<le> 2 ^ 32"
  shows "((\<exists>p. allows_tcp policy p \<and> \<not> port_leased k t db p) \<longrightarrow>
       (\<exists>next' db' dl. acquire_tcp js rt policy policy_id attempts next_tcp db = (next', db', Ok dl))) \<and>
    ((\<forall>p. allows_tcp policy p \<longrightarrow> port_leased k t' db p) \<longrightarrow>
       (\<exists>next'. acquire_tcp js rt policy policy_id attempts next_tcp db = (next', db, Err Exhausted)))"
proof -
  let ?cand = "candidate (max next_tcp 1)"
  let ?full = "\<forall>x \<in> set [0..<u16_max]. allows_tcp policy (?cand x) \<longrightarrow>
    port_leased k (at_now (attempts x)) db (?cand x)"
  have inv: "ha_inv db" "newest db" using newest_reachable [OF assms(1)] by simp_all
  note pol = policy_canonical [OF assms(2-4)]
  have "\<forall>x \<in> set [0..<u16_max]. undisturbed (rt_public_ports rt) k db (attempts x)" using assms(6) by simp
  note search = try_candidates_undisturbed [OF inv this, of policy "max next_tcp 1" js policy_id]
  have found: "\<exists>next' db' dl. acquire_tcp js rt policy policy_id attempts next_tcp db = (next', db', Ok dl)"
    if full: "\<not> ?full"
    using search [unfolded if_not_P [OF full]] assms(5) by (auto simp: acquire_tcp_def simp del: One_nat_def)
  have none: "\<exists>next'. acquire_tcp js rt policy policy_id attempts next_tcp db = (next', db, Err Exhausted)"
    if full: "?full"
    using search [unfolded if_P [OF full]] assms(5) by (auto simp: acquire_tcp_def simp del: One_nat_def)
  have "\<not> ?full" if p: "allows_tcp policy p" "\<not> port_leased k t db p" for p
  proof -
    have "p \<in> ports_of (pp_tcp_allowed policy)" using p(1) by (simp add: allows_tcp_iff [OF pol(1,3)])
    then obtain x where x: "x \<in> set [0..<u16_max]" "?cand x = p"
      using candidate_onto [OF _ _ assms(7)] canonical_port_bounds [OF pol(1)] by blast
    with p(2) assms(6) have "\<not> port_leased k (at_now (attempts x)) db (?cand x)"
      using port_leased_earlier [of k "at_now (attempts x)" db p t] by auto
    with p(1) x show ?thesis by blast
  qed
  moreover have ?full if "\<forall>p. allows_tcp policy p \<longrightarrow> port_leased k t' db p"
    using that assms(6) by (auto intro: port_leased_earlier)
  ultimately show ?thesis using found none by blast
qed

section \<open>A sample search\<close>

definition sample_env :: environment where
  "sample_env n = (if n = lit ''LINKLAKE_PUBLIC_PORT_RANGES'' then Some (lit ''80-81'') else None)"

definition sample_policy :: public_port_policy where
  "sample_policy = \<lparr> pp_tcp_allowed = [\<lparr> pr_start = 80, pr_end = 81 \<rparr>],
     pp_udp_allowed = [\<lparr> pr_start = 80, pr_end = 81 \<rparr>],
     pp_tcp_reserved = [\<lparr> pr_start = 22, pr_end = 22 \<rparr>, \<lparr> pr_start = 80, pr_end = 80 \<rparr>],
     pp_udp_reserved = [] \<rparr>"

definition sample_attempt :: "nat \<Rightarrow> attempt" where
  "sample_attempt x = \<lparr> at_others = [], at_fence_now = 101, at_now = 101, at_lease_id = 7 \<rparr>"

lemma sample_settings:
  "environment_value sample_env [lit ''LINKLAKE_PUBLIC_PORT_RANGES'', lit ''LINKLAKE_PUBLIC_PORT_RANGE''] =
     Some [56, 48, 45, 56, 49]"
  "environment_value sample_env [lit ''LINKLAKE_TCP_PUBLIC_PORTS''] = None"
  "environment_value sample_env [lit ''LINKLAKE_UDP_PUBLIC_PORTS''] = None"
  "environment_value sample_env [lit ''LINKLAKE_RESERVED_TCP_PORTS''] = None"
  "environment_value sample_env [lit ''LINKLAKE_RESERVED_UDP_PORTS''] = None"
proof -
  have "trim [56, 48, 45, 56, 49] = [56, 48, 45, 56, 49]" by (simp add: text_eval)
  then show "environment_value sample_env [lit ''LINKLAKE_PUBLIC_PORT_RANGES'', lit ''LINKLAKE_PUBLIC_PORT_RANGE''] =
     Some [56, 48, 45, 56, 49]" by (simp add: sample_env_def)
qed (simp_all add: sample_env_def)

lemma sample_parsed_ranges:
  "port_ranges_parse [56, 48, 45, 56, 49] = Ok [\<lparr> pr_start = 80, pr_end = 81 \<rparr>]"
  "port_ranges_parse_optional (lit ''22'') = Ok [\<lparr> pr_start = 22, pr_end = 22 \<rparr>]"
  "port_ranges_parse_optional [] = Ok []"
  "including_ports [\<lparr> pr_start = 22, pr_end = 22 \<rparr>] [80] =
     [\<lparr> pr_start = 22, pr_end = 22 \<rparr>, \<lparr> pr_start = 80, pr_end = 80 \<rparr>]"
  "including_ports [] [] = []"
  by (simp_all add: port_ranges_parse_optional_def including_ports_def ranges_eval)

lemma sample_canonical:
  "canonical [\<lparr> pr_start = 22, pr_end = 22 \<rparr>, \<lparr> pr_start = 80, pr_end = 80 \<rparr>]"
  "canonical [\<lparr> pr_start = 80, pr_end = 81 \<rparr>]"
  by (simp_all add: canonical_def range_ok_def u16_max_def)

lemma sample_available:
  "has_available_port [\<lparr> pr_start = 80, pr_end = 81 \<rparr>]
     [\<lparr> pr_start = 22, pr_end = 22 \<rparr>, \<lparr> pr_start = 80, pr_end = 80 \<rparr>]"
  "has_available_port [\<lparr> pr_start = 80, pr_end = 81 \<rparr>] []"
  by (simp_all add: has_available_port_def ranges_set.contains_iff [OF sample_canonical(1)]
      ranges_set.contains_iff [OF canonical_Nil])

lemma sample_policy_parsed: "policy_from_environment sample_env [80] [] = Ok sample_policy"
  unfolding policy_from_environment_def Let_def sample_settings unwrap_or_def option.case
    DEFAULT_RESERVED_TCP_PORTS_def sample_parsed_ranges
  by (simp add: map_err_def sample_parsed_ranges sample_available sample_policy_def)

lemma sample_allows: "allows_tcp sample_policy 81"
  by (simp add: allows_tcp_def sample_policy_def ranges_set.contains_iff sample_canonical)

lemma sample_acquired:
  "acquire_tcp sample_js (booted alice 1 100) sample_policy 3 sample_attempt 81 db1 =
     (82, db1\<lparr> db_ports := [((Tcp, 81), sample_lease\<lparr> pl_public_port := 81 \<rparr>)] \<rparr>,
      Ok \<lparr> dl_ownership = sample_po, dl_lease = sample_lease\<lparr> pl_public_port := 81 \<rparr>,
           dl_renewal_interval = 5, dl_released = False \<rparr>)"
proof -
  have rt: "rt_public_ports (booted alice 1 100) = sample_po" "rt_heartbeat (booted alice 1 100) = 5"
    by (simp_all add: booted_def record_event_def publish_leadership_def sample_rt_def sample_po_def)
  have acq: "port_acquire sample_po Tcp 81 3 1 7 101 101 db1 =
      Ok (Some (sample_lease\<lparr> pl_public_port := 81 \<rparr>),
        db1\<lparr> db_ports := [((Tcp, 81), sample_lease\<lparr> pl_public_port := 81 \<rparr>)] \<rparr>)"
    by (simp add: lease_eval)
  have first: "[0..<u16_max] = 0 # [Suc 0..<u16_max]" by (rule upt_conv_Cons) (simp add: u16_max_def)
  have cand: "candidate 81 0 = 81" by (simp add: candidate_def u16_max_def)
  show ?thesis
    unfolding acquire_tcp_def booted_token [OF zero_less_one] rt first
    by (simp add: cand sample_allows sample_attempt_def meanwhile_def acq sample_lease_def del: One_nat_def)
qed

theorem dynamic_port_allowed_witness:
  "\<exists>next' db' dl. acquire_tcp sample_js (booted alice 1 100) sample_policy 3 sample_attempt 81 db1 =
       (next', db', Ok dl) \<and> pl_public_port (dl_lease dl) \<in> {80..81} - {80}"
proof -
  have small: "\<forall>p \<in> set [80]. p \<le> u16_max" "\<forall>p \<in> set []. p \<le> u16_max" by (simp_all add: u16_max_def)
  from dynamic_port_allowed [OF sample_policy_parsed small sample_acquired] sample_acquired show ?thesis
    by (simp add: sample_policy_def)
qed

theorem dynamic_port_search_complete_witness:
  "\<exists>next' db' dl. acquire_tcp sample_js (booted alice 1 100) sample_policy 3 sample_attempt 5 db1 =
     (next', db', Ok dl)"
proof -
  have small: "\<forall>p \<in> set [80]. p \<le> u16_max" "\<forall>p \<in> set []. p \<le> u16_max" by (simp_all add: u16_max_def)
  have rt: "rt_public_ports (booted alice 1 100) = sample_po"
    by (simp add: booted_def record_event_def publish_leadership_def sample_rt_def sample_po_def)
  have fence: "assert_fence alice 1 101 db1 = Ok ()" using sample_fence by simp
  have quiet: "\<forall>x < u16_max. undisturbed (rt_public_ports (booted alice 1 100)) 1 db1 (sample_attempt x) \<and>
      101 \<le> at_now (sample_attempt x) \<and> at_now (sample_attempt x) \<le> 101"
    by (simp add: rt undisturbed_def sample_attempt_def sample_po_def i64_max_def fence del: One_nat_def)
  have room: "max 5 1 + u16_max \<le> 2 ^ 32" by (simp add: u16_max_def)
  have free: "\<not> port_leased 1 101 db1 81" by (simp add: port_leased_def db1_def)
  from dynamic_port_search_complete [OF run_to_db1 sample_policy_parsed small
      booted_token [OF zero_less_one] quiet room, of 3] sample_allows free
  show ?thesis by blast
qed

end
