(* ===== verification/Http_Backend_Pool.thy ===== *)
theory Http_Backend_Pool
  imports Prelude "HOL-Library.Product_Lexorder"
begin

text \<open>
  The pool of connections to HTTP backends (\<open>linklake-server/src/http_backend_pool.rs\<close>): a state
  machine without I/O that decides which connection a request may use, which idle connection to
  evict when a limit is reached, and when a connection leaves the pool. Origins are records with
  the fields of \<open>OriginKey\<close>; the normalisation of their texts is not part of the pool. A
  connection id is a 64-bit word, and the search for a free id is a loop that may run forever, so
  it is a partial function.
\<close>

section \<open>Origins, entries and limits\<close>

datatype backend_protocol = Http1 | Http2

datatype backend_trust_key = System | Profile "nat list"

datatype backend_security = Plaintext | Tls "nat list" backend_trust_key

record origin_key =
  ok_policy_id :: uuid
  ok_authority :: "nat list"
  ok_protocol :: backend_protocol
  ok_security :: backend_security

datatype backend_connection_mode = Exclusive | Multiplexed nat

definition mode_capacity :: "backend_connection_mode \<Rightarrow> nat" where
  "mode_capacity mode = (case mode of Exclusive \<Rightarrow> 1 | Multiplexed max_concurrent_streams \<Rightarrow> max_concurrent_streams)"

record backend_pool_limits =
  bl_max_connections :: nat
  bl_max_connections_per_origin :: nat
  bl_idle_timeout :: duration

datatype backend_pool_limits_error = OriginLimitExceedsGlobalLimit | ZeroIdleTimeout

definition pool_limits_new ::
  "nat \<Rightarrow> nat \<Rightarrow> duration \<Rightarrow> backend_pool_limits_error + backend_pool_limits" where
  "pool_limits_new max_connections per_origin idle_timeout =
     (if per_origin > max_connections then Err OriginLimitExceedsGlobalLimit
      else if idle_timeout = 0 then Err ZeroIdleTimeout
      else Ok \<lparr> bl_max_connections = max_connections, bl_max_connections_per_origin = per_origin,
                bl_idle_timeout = idle_timeout \<rparr>)"

type_synonym connection_id = u64

datatype backend_removal_reason =
  GlobalCapacity | OriginCapacity | IdleTimeout | PolicyInvalidated | Disconnected | GoAway

record backend_removal =
  br_connection_id :: connection_id
  br_origin :: origin_key
  br_reason :: backend_removal_reason

record backend_registration =
  rg_connection_id :: connection_id
  rg_removals :: "backend_removal list"

record backend_lease =
  bs_connection_id :: connection_id
  bs_origin :: origin_key

datatype backend_register_error = CapacityBusy

record backend_pool_snapshot =
  sn_connections :: nat
  sn_origins :: nat
  sn_active_streams :: nat
  sn_draining_connections :: nat

record backend_entry =
  be_origin :: origin_key
  be_mode :: backend_connection_mode
  be_active_streams :: nat
  be_last_activity :: instant
  be_draining :: bool

definition entry_available :: "backend_entry \<Rightarrow> bool" where
  "entry_available e \<longleftrightarrow> \<not> be_draining e \<and> be_active_streams e < mode_capacity (be_mode e)"

definition entry_idle :: "backend_entry \<Rightarrow> bool" where
  "entry_idle e \<longleftrightarrow> be_active_streams e = 0"

type_synonym pool_entries = "(connection_id, backend_entry) hashmap"

record backend_pool =
  bp_limits :: backend_pool_limits
  bp_next_connection_id :: u64
  bp_entries :: pool_entries

definition pool_new :: "backend_pool_limits \<Rightarrow> backend_pool" where
  "pool_new limits = \<lparr> bp_limits = limits, bp_next_connection_id = 1, bp_entries = [] \<rparr>"

section \<open>Choosing and removing\<close>

text \<open>\<open>Iterator::min_by_key\<close>: the first of the least elements.\<close>

definition min_by_key :: "('a \<Rightarrow> 'k::linorder) \<Rightarrow> 'a list \<Rightarrow> 'a option" where
  "min_by_key key xs =
     (case xs of [] \<Rightarrow> None | x # xs \<Rightarrow> Some (foldl (\<lambda>m y. if key y < key m then y else m) x xs))"

definition of_origin :: "origin_key option \<Rightarrow> backend_entry \<Rightarrow> bool" where
  "of_origin origin e \<longleftrightarrow> (case origin of None \<Rightarrow> True | Some k \<Rightarrow> be_origin e = k)"

definition pool_count :: "origin_key option \<Rightarrow> pool_entries \<Rightarrow> nat" where
  "pool_count origin entries =
     length (filter (\<lambda>(c, e). of_origin origin e) entries)"

definition oldest_idle :: "origin_key option \<Rightarrow> pool_entries \<Rightarrow> connection_id option" where
  "oldest_idle origin entries =
     map_option fst (min_by_key (\<lambda>(c, e). (be_last_activity e, unat c))
       (filter (\<lambda>(c, e). entry_idle e \<and> of_origin origin e) entries))"

definition pool_remove ::
  "connection_id \<Rightarrow> backend_removal_reason \<Rightarrow> pool_entries \<Rightarrow> pool_entries \<times> backend_removal option" where
  "pool_remove c reason entries =
     (hm_remove c entries,
      map_option (\<lambda>e. \<lparr> br_connection_id = c, br_origin = be_origin e, br_reason = reason \<rparr>)
        (hm_get entries c))"

lemma min_by_key_in: "min_by_key key xs = Some x \<Longrightarrow> x \<in> set xs"
proof -
  have "foldl (\<lambda>m y. if key y < key m then y else m) a ys \<in> set (a # ys)" for a ys
    by (induction ys arbitrary: a) (auto split: if_splits)
  then show "min_by_key key xs = Some x \<Longrightarrow> x \<in> set xs"
    by (cases xs) (auto simp: min_by_key_def)
qed

lemma min_by_key_none: "min_by_key key xs = None \<longleftrightarrow> xs = []"
  by (simp add: min_by_key_def split: list.split)

lemma oldest_idle_in:
  assumes "oldest_idle origin entries = Some c"
  obtains e where "(c, e) \<in> set entries" "entry_idle e" "of_origin origin e"
  using assms by (auto simp: oldest_idle_def dest!: min_by_key_in)

lemma delete_shorter: "c \<in> fst ` set m \<Longrightarrow> length (AList.delete c m) < length m"
  unfolding AList.delete_eq by (auto intro!: length_filter_less)

text \<open>
  The two loops of \<open>prepare_registration\<close>: they evict the connections of one origin, or any.
\<close>

function evict ::
  "origin_key option \<Rightarrow> nat \<Rightarrow> backend_removal_reason \<Rightarrow> pool_entries \<Rightarrow> backend_removal list \<Rightarrow>
     pool_entries \<times> (backend_register_error + backend_removal list)" where
  "evict origin limit reason entries removals =
     (if pool_count origin entries < limit then (entries, Ok removals)
      else case oldest_idle origin entries of
        None \<Rightarrow> (entries, Err CapacityBusy)
      | Some c \<Rightarrow>
          (case pool_remove c reason entries of
             (entries, removal) \<Rightarrow>
               evict origin limit reason entries
                 (case removal of Some r \<Rightarrow> removals @ [r] | None \<Rightarrow> removals)))"
  by pat_completeness auto
termination
  by (relation "measure (\<lambda>(origin, limit, reason, entries, removals). length entries)")
     (auto simp: pool_remove_def intro!: delete_shorter elim!: oldest_idle_in intro: rev_image_eqI)

declare evict.simps [simp del]

partial_function (option) next_available_connection_id ::
  "(connection_id \<Rightarrow> bool) \<Rightarrow> u64 \<Rightarrow> (connection_id \<times> u64) option" where
  "next_available_connection_id used nxt =
     (let c = max nxt 1; nxt = max (c + 1) 1
      in if used c then next_available_connection_id used nxt else Some (c, nxt))"

section \<open>Operations\<close>

abbreviation fresh_entry :: "origin_key \<Rightarrow> backend_connection_mode \<Rightarrow> instant \<Rightarrow> backend_entry" where
  "fresh_entry origin mode now \<equiv> \<lparr> be_origin = origin, be_mode = mode, be_active_streams = 0,
     be_last_activity = now, be_draining = False \<rparr>"

definition prepare_registration ::
  "origin_key \<Rightarrow> backend_pool \<Rightarrow> backend_pool \<times> (backend_register_error + backend_removal list)" where
  "prepare_registration origin p =
     (case evict (Some origin) (bl_max_connections_per_origin (bp_limits p)) OriginCapacity (bp_entries p) [] of
        (entries, Inl e) \<Rightarrow> (p\<lparr> bp_entries := entries \<rparr>, Err e)
      | (entries, Inr removals) \<Rightarrow>
          (case evict None (bl_max_connections (bp_limits p)) GlobalCapacity entries removals of
             (entries, r) \<Rightarrow> (p\<lparr> bp_entries := entries \<rparr>, r)))"

definition pool_register ::
  "origin_key \<Rightarrow> backend_connection_mode \<Rightarrow> instant \<Rightarrow> backend_pool \<Rightarrow>
     (backend_pool \<times> (backend_register_error + backend_registration)) option" where
  "pool_register origin mode now p =
     (case prepare_registration origin p of
        (p, Inl e) \<Rightarrow> Some (p, Err e)
      | (p, Inr removals) \<Rightarrow>
          map_option (\<lambda>(c, nxt).
            (p\<lparr> bp_next_connection_id := nxt,
                bp_entries := hm_insert c (fresh_entry origin mode now) (bp_entries p) \<rparr>,
             Ok \<lparr> rg_connection_id = c, rg_removals = removals \<rparr>))
          (next_available_connection_id (\<lambda>c. hm_get (bp_entries p) c \<noteq> None) (bp_next_connection_id p)))"

definition acquire_key :: "connection_id \<times> backend_entry \<Rightarrow> nat \<times> int \<times> nat" where
  "acquire_key x = (be_active_streams (snd x), - int (be_last_activity (snd x)), unat (fst x))"

definition pool_acquire ::
  "origin_key \<Rightarrow> instant \<Rightarrow> backend_pool \<Rightarrow> backend_pool \<times> backend_lease option" where
  "pool_acquire origin now p =
     (case min_by_key acquire_key
         (filter (\<lambda>(c, e). be_origin e = origin \<and> entry_available e) (bp_entries p)) of
        None \<Rightarrow> (p, None)
      | Some (c, e) \<Rightarrow>
          (p\<lparr> bp_entries := hm_insert c (e\<lparr> be_active_streams := be_active_streams e + 1,
                be_last_activity := now \<rparr>) (bp_entries p) \<rparr>,
           Some \<lparr> bs_connection_id = c, bs_origin = be_origin e \<rparr>))"

definition remove_from :: "connection_id \<Rightarrow> backend_removal_reason \<Rightarrow> backend_pool \<Rightarrow> backend_pool \<times> backend_removal option" where
  "remove_from c reason p =
     (case pool_remove c reason (bp_entries p) of (entries, r) \<Rightarrow> (p\<lparr> bp_entries := entries \<rparr>, r))"

definition pool_release :: "connection_id \<Rightarrow> instant \<Rightarrow> backend_pool \<Rightarrow> backend_pool \<times> backend_removal option" where
  "pool_release c now p =
     (case hm_get (bp_entries p) c of
        None \<Rightarrow> (p, None)
      | Some e \<Rightarrow>
          if be_active_streams e = 0 then (p, None)
          else let e = e\<lparr> be_active_streams := be_active_streams e - 1, be_last_activity := now \<rparr>;
                   p = p\<lparr> bp_entries := hm_insert c e (bp_entries p) \<rparr>
               in if be_draining e \<and> be_active_streams e = 0 then remove_from c GoAway p else (p, None))"

definition mark_goaway :: "connection_id \<Rightarrow> backend_pool \<Rightarrow> backend_pool \<times> backend_removal option" where
  "mark_goaway c p =
     (case hm_get (bp_entries p) c of
        None \<Rightarrow> (p, None)
      | Some e \<Rightarrow>
          if be_active_streams e = 0 then remove_from c GoAway p
          else (p\<lparr> bp_entries := hm_insert c (e\<lparr> be_draining := True \<rparr>) (bp_entries p) \<rparr>, None))"

definition pool_disconnected :: "connection_id \<Rightarrow> backend_pool \<Rightarrow> backend_pool \<times> backend_removal option" where
  "pool_disconnected c p = remove_from c Disconnected p"

fun remove_all ::
  "connection_id list \<Rightarrow> backend_removal_reason \<Rightarrow> backend_pool \<Rightarrow> backend_pool \<times> backend_removal list" where
  "remove_all [] reason p = (p, [])"
| "remove_all (c # cs) reason p =
     (case remove_from c reason p of
        (p, r) \<Rightarrow>
          (case remove_all cs reason p of
             (p, rs) \<Rightarrow> (p, (case r of Some removal \<Rightarrow> removal # rs | None \<Rightarrow> rs))))"

definition invalidate_policy :: "uuid \<Rightarrow> backend_pool \<Rightarrow> backend_pool \<times> backend_removal list" where
  "invalidate_policy policy_id p =
     remove_all (map fst (filter (\<lambda>(c, e). ok_policy_id (be_origin e) = policy_id) (bp_entries p)))
       PolicyInvalidated p"

definition prune_idle :: "instant \<Rightarrow> backend_pool \<Rightarrow> backend_pool \<times> backend_removal list" where
  "prune_idle now p =
     remove_all (map fst (filter (\<lambda>(c, e). entry_idle e \<and> be_last_activity e \<le> now \<and>
         now - be_last_activity e \<ge> bl_idle_timeout (bp_limits p)) (bp_entries p))) IdleTimeout p"

definition pool_snapshot :: "backend_pool \<Rightarrow> backend_pool_snapshot" where
  "pool_snapshot p =
     \<lparr> sn_connections = length (bp_entries p),
       sn_origins = length (remdups (map (be_origin \<circ> snd) (bp_entries p))),
       sn_active_streams = sum_list (map (be_active_streams \<circ> snd) (bp_entries p)),
       sn_draining_connections = length (filter (be_draining \<circ> snd) (bp_entries p)) \<rparr>"

section \<open>The pool as a machine\<close>

datatype pool_op =
  Register origin_key backend_connection_mode instant
| Prepare origin_key
| Acquire origin_key instant
| Release connection_id instant
| MarkGoaway connection_id
| Disconnect connection_id
| InvalidatePolicy uuid
| PruneIdle instant

datatype pool_answer =
  Registered "backend_register_error + backend_registration"
| Prepared "backend_register_error + backend_removal list"
| Leased "backend_lease option"
| Removed "backend_removal option"
| Swept "backend_removal list"

definition pool_step :: "pool_op \<Rightarrow> backend_pool \<Rightarrow> (backend_pool \<times> pool_answer) option" where
  "pool_step i p =
     (case i of
        Register origin mode now \<Rightarrow> map_option (apsnd Registered) (pool_register origin mode now p)
      | Prepare origin \<Rightarrow> Some (apsnd Prepared (prepare_registration origin p))
      | Acquire origin now \<Rightarrow> Some (apsnd Leased (pool_acquire origin now p))
      | Release c now \<Rightarrow> Some (apsnd Removed (pool_release c now p))
      | MarkGoaway c \<Rightarrow> Some (apsnd Removed (mark_goaway c p))
      | Disconnect c \<Rightarrow> Some (apsnd Removed (pool_disconnected c p))
      | InvalidatePolicy policy_id \<Rightarrow> Some (apsnd Swept (invalidate_policy policy_id p))
      | PruneIdle now \<Rightarrow> Some (apsnd Swept (prune_idle now p)))"

definition entry_ok :: "connection_id \<times> backend_entry \<Rightarrow> bool" where
  "entry_ok x \<longleftrightarrow> fst x \<noteq> 0 \<and> be_active_streams (snd x) \<le> mode_capacity (be_mode (snd x)) \<and>
     (be_draining (snd x) \<longrightarrow> 0 < be_active_streams (snd x))"

definition limits_ok :: "backend_pool_limits \<Rightarrow> bool" where
  "limits_ok l \<longleftrightarrow> 0 < bl_max_connections_per_origin l \<and>
     bl_max_connections_per_origin l \<le> bl_max_connections l \<and> bl_max_connections l < 2 ^ 64"

definition pool_inv :: "backend_pool \<Rightarrow> bool" where
  "pool_inv p \<longleftrightarrow> limits_ok (bp_limits p) \<and> hm_distinct (bp_entries p) \<and> list_all entry_ok (bp_entries p) \<and>
     length (bp_entries p) \<le> bl_max_connections (bp_limits p) \<and>
     (\<forall>k. pool_count (Some k) (bp_entries p) \<le> bl_max_connections_per_origin (bp_limits p))"

section \<open>Counting connections\<close>

lemma pool_count_sum:
  "pool_count origin m =
     sum_list (map (\<lambda>(c, e). if of_origin origin e then 1 else 0) m)"
  by (induction m) (auto simp: pool_count_def)

lemma pool_count_none [simp]: "pool_count None m = length m"
  by (simp add: pool_count_def of_origin_def case_prod_unfold)

lemma pool_count_append [simp]: "pool_count origin (m @ m') = pool_count origin m + pool_count origin m'"
  by (simp add: pool_count_def)

lemma pool_count_le: "pool_count origin m \<le> length m"
  by (simp add: pool_count_def)

lemma pool_count_remove:
  assumes "hm_distinct m" "hm_get m c = Some e" "of_origin origin e"
  shows "pool_count origin m = Suc (pool_count origin (hm_remove c m))"
  using hm_sum_remove [OF assms(1,2), of "\<lambda>(c, e). if of_origin origin e then 1 else 0"]
    assms(3) by (simp add: pool_count_sum)

lemma pool_count_remove_le: "pool_count origin (hm_remove c m) \<le> pool_count origin m"
proof -
  have "length (filter P (filter Q m)) \<le> length (filter P m)" for P Q and m :: pool_entries
    by (induction m) auto
  then show ?thesis by (simp add: pool_count_def AList.delete_eq)
qed

lemma pool_count_update:
  assumes "hm_distinct m" "hm_get m c = Some e" "be_origin e' = be_origin e"
  shows "pool_count origin (hm_insert c e' m) = pool_count origin m"
proof -
  have "of_origin origin e' = of_origin origin e" by (simp add: of_origin_def assms(3) split: option.split)
  then show ?thesis
    using hm_sum_update [OF assms(1,2), of "\<lambda>(c, e). if of_origin origin e then 1 else 0" e']
    by (simp add: pool_count_sum)
qed

lemma oldest_idle_get:
  assumes "hm_distinct m" "oldest_idle origin m = Some c"
  obtains e where "hm_get m c = Some e" "entry_idle e" "of_origin origin e"
  using assms by (metis oldest_idle_in map_of_eq_Some_iff)

lemma oldest_idle_none:
  "oldest_idle origin m = None \<longleftrightarrow>
     (\<forall>(c, e) \<in> set m. of_origin origin e \<longrightarrow> \<not> entry_idle e)"
  by (auto simp: oldest_idle_def min_by_key_none filter_empty_conv)

text \<open>While the counts are within the limits, each eviction loop removes at most one connection.\<close>

lemma evict_once:
  assumes "hm_distinct m" "pool_count origin m \<le> limit" "0 < limit"
  shows "evict origin limit reason m rs =
    (if pool_count origin m < limit then (m, Ok rs)
     else case oldest_idle origin m of
       None \<Rightarrow> (m, Err CapacityBusy)
     | Some c \<Rightarrow> (hm_remove c m, Ok (rs @ [\<lparr> br_connection_id = c, br_origin = be_origin (the (hm_get m c)),
         br_reason = reason \<rparr>])))"
proof (cases "oldest_idle origin m")
  case None
  then show ?thesis by (subst evict.simps) simp
next
  case (Some c)
  then obtain e where e: "hm_get m c = Some e" "of_origin origin e"
    using assms(1) oldest_idle_get by blast
  then have "pool_count origin (hm_remove c m) < limit"
    using pool_count_remove [OF assms(1) e] assms(2) by simp
  then have "evict origin limit reason (hm_remove c m) rs' = (hm_remove c m, Ok rs')" for rs'
    by (subst evict.simps) simp
  with Some e show ?thesis by (subst evict.simps) (simp add: pool_remove_def)
qed

section \<open>The search for a free id\<close>

definition ids_to :: "u64 \<Rightarrow> u64 \<Rightarrow> nat" where
  "ids_to t c = (if unat c \<le> unat t then unat t - unat c else unat t + (2 ^ 64 - 1) - unat c)"

lemma unat_bound: "unat (w :: u64) < 2 ^ 64"
  using unsigned_less [of w] by simp

lemma ids_to_step:
  assumes "c \<noteq> t" "c \<noteq> 0" "t \<noteq> 0"
  shows "ids_to t (max (c + 1) 1) < ids_to t c"
proof (cases "c = - 1")
  case True
  then have "unat c = 2 ^ 64 - 1" by (simp add: unsigned_minus_1_eq_mask mask_eq_exp_minus_1)
  moreover have "unat t < 2 ^ 64" "unat t \<noteq> unat c" "0 < unat t"
    using assms unat_bound by (auto simp: unat_gt_0 dest: unsigned_word_eqI)
  ultimately show ?thesis using True by (simp add: ids_to_def)
next
  case False
  then have "unat (c + 1) = unat c + 1"
    using unatSuc [of c] by (simp add: add_eq_0_iff add.commute)
  moreover from this have "max (c + 1) 1 = c + 1" by (simp add: max_def word_le_nat_alt unsigned_eq_0_iff)
  moreover have "unat t < 2 ^ 64" "unat t \<noteq> unat c" "unat (c + 1) < 2 ^ 64"
    using assms unat_bound by (auto dest: unsigned_word_eqI)
  ultimately show ?thesis by (auto simp: ids_to_def)
qed

lemma next_id_found:
  assumes "\<not> used t" "t \<noteq> 0"
  shows "\<exists>c nxt'. next_available_connection_id used nxt = Some (c, nxt') \<and> \<not> used c \<and> c \<noteq> 0"
proof (induction "ids_to t (max nxt 1)" arbitrary: nxt rule: less_induct)
  case less
  let ?c = "max nxt 1"
  have c: "?c \<noteq> 0" by (auto simp: max_def word_le_nat_alt)
  have max_idem: "max (max (?c + 1) 1) 1 = max (?c + 1) 1" by simp
  show ?case
  proof (cases "used ?c")
    case True
    then have "ids_to t (max (?c + 1) 1) < ids_to t ?c" using ids_to_step c assms by metis
    then show ?thesis
      using less [of "max (?c + 1) 1"] True
      by (subst next_available_connection_id.simps) (simp add: Let_def max_idem)
  next
    case False
    then show ?thesis using c by (subst next_available_connection_id.simps) (simp add: Let_def)
  qed
qed

lemma free_id_exists:
  fixes m :: pool_entries
  assumes "length m < 2 ^ 64 - 1"
  shows "\<exists>t. hm_get m t = None \<and> t \<noteq> 0"
proof (rule ccontr)
  assume "\<not> ?thesis"
  then have "UNIV - {0} \<subseteq> fst ` set m" by (auto simp: map_of_eq_None_iff)
  then have "card (UNIV - {0 :: u64}) \<le> card (fst ` set m)" by (intro card_mono) auto
  also have "\<dots> \<le> length m" by (meson card_image_le card_length finite_set le_trans)
  finally show False using assms by (simp add: card_word card_Diff_singleton)
qed

section \<open>Every operation keeps the invariant\<close>

lemma remove_subset: "set (AList.delete k m) \<subseteq> set m"
  by (auto simp: AList.delete_eq)

lemma pool_inv_remove: "pool_inv p \<Longrightarrow> pool_inv (p\<lparr> bp_entries := hm_remove c (bp_entries p) \<rparr>)"
  using pool_count_remove_le [of None c "bp_entries p"] remove_subset [of c "bp_entries p"]
  by (auto simp: pool_inv_def list_all_iff intro: order_trans [OF pool_count_remove_le])

lemma pool_inv_update:
  assumes "pool_inv p" "hm_get (bp_entries p) c = Some e" "be_origin e' = be_origin e" "entry_ok (c, e')"
  shows "pool_inv (p\<lparr> bp_entries := hm_insert c e' (bp_entries p) \<rparr>)"
  using assms pool_count_update [OF _ assms(2,3)] hm_length_update [OF assms(2)]
  by (auto simp: pool_inv_def list_all_iff dest: hm_insert_subset)

lemma pool_inv_entry: "pool_inv p \<Longrightarrow> hm_get (bp_entries p) c = Some e \<Longrightarrow> entry_ok (c, e)"
  by (auto simp: pool_inv_def list_all_iff dest: map_of_SomeD)

lemma remove_from_eq:
  "remove_from c reason p = (p\<lparr> bp_entries := hm_remove c (bp_entries p) \<rparr>,
     map_option (\<lambda>e. \<lparr> br_connection_id = c, br_origin = be_origin e, br_reason = reason \<rparr>) (hm_get (bp_entries p) c))"
  by (simp add: remove_from_def pool_remove_def)

lemma pool_inv_remove_all: "pool_inv p \<Longrightarrow> pool_inv (fst (remove_all cs reason p))"
  by (induction cs arbitrary: p) (simp_all add: remove_from_eq pool_inv_remove case_prod_unfold)

text \<open>What making room leaves: the pool itself, or the pool without one idle connection.\<close>

lemma prepare_cases:
  assumes "pool_inv p" "prepare_registration origin p = (p', r)"
  obtains
    (busy) "p' = p" "r = Err CapacityBusy"
      "(pool_count (Some origin) (bp_entries p) = bl_max_connections_per_origin (bp_limits p) \<and> oldest_idle (Some origin) (bp_entries p) = None)
       \<or> (length (bp_entries p) = bl_max_connections (bp_limits p) \<and> oldest_idle None (bp_entries p) = None)"
  | (room) "p' = p" "r = Ok []" "pool_count (Some origin) (bp_entries p) < bl_max_connections_per_origin (bp_limits p)"
      "length (bp_entries p) < bl_max_connections (bp_limits p)"
  | (evicted) c e reason where "hm_get (bp_entries p) c = Some e" "entry_idle e"
      "p' = p\<lparr> bp_entries := hm_remove c (bp_entries p) \<rparr>"
      "r = Ok [\<lparr> br_connection_id = c, br_origin = be_origin e, br_reason = reason \<rparr>]"
      "pool_count (Some origin) (bp_entries p') < bl_max_connections_per_origin (bp_limits p)"
      "length (bp_entries p') < bl_max_connections (bp_limits p)"
proof -
  let ?m = "bp_entries p" and ?k = "bl_max_connections_per_origin (bp_limits p)" and ?n = "bl_max_connections (bp_limits p)"
  have inv: "hm_distinct ?m" "pool_count (Some origin) ?m \<le> ?k" "0 < ?k" "length ?m \<le> ?n" "0 < ?n"
    using assms(1) by (auto simp: pool_inv_def limits_ok_def)
  note first = evict_once [OF inv(1,2,3)]
  have second: "evict None ?n GlobalCapacity m rs = (if length m < ?n then (m, Ok rs)
      else case oldest_idle None m of None \<Rightarrow> (m, Err CapacityBusy)
        | Some c \<Rightarrow> (hm_remove c m, Ok (rs @ [\<lparr> br_connection_id = c, br_origin = be_origin (the (hm_get m c)), br_reason = GlobalCapacity \<rparr>])))"
    if "hm_distinct m" "length m \<le> ?n" for m rs
    using evict_once [of m None ?n GlobalCapacity rs] that inv(5) by simp
  show thesis
  proof (cases "pool_count (Some origin) ?m < ?k")
    case True
    show thesis
    proof (cases "length ?m < ?n")
      case False
      show thesis
      proof (cases "oldest_idle None ?m")
        case (Some c)
        then obtain e where e: "hm_get ?m c = Some e" "entry_idle e" using inv(1) oldest_idle_get by blast
        then show thesis
          using assms(2) True False Some inv hm_length_remove [OF inv(1) e(1)]
            order.strict_trans1 [OF pool_count_remove_le True, of c]
          by (intro evicted [OF e, of GlobalCapacity]) (auto simp: prepare_registration_def first second)
      qed (use assms(2) True False inv in \<open>auto intro!: busy simp: prepare_registration_def first second\<close>)
    qed (use assms(2) True inv in \<open>auto intro!: room simp: prepare_registration_def first second\<close>)
  next
    case False
    show thesis
    proof (cases "oldest_idle (Some origin) ?m")
      case (Some c)
      then obtain e where e: "hm_get ?m c = Some e" "entry_idle e" "of_origin (Some origin) e"
        using inv(1) oldest_idle_get by blast
      then show thesis
        using assms(2) False Some inv hm_length_remove [OF inv(1) e(1)] pool_count_remove [OF inv(1) e(1,3)]
        by (intro evicted [OF e(1,2), of OriginCapacity]) (auto simp: prepare_registration_def first second)
    qed (use assms(2) False inv in \<open>auto intro!: busy simp: prepare_registration_def first second\<close>)
  qed
qed

lemma prepare_inv:
  assumes "pool_inv p" "prepare_registration origin p = (p', r)"
  shows "pool_inv p'"
  using assms by (rule prepare_cases) (use assms(1) in \<open>simp_all add: pool_inv_remove\<close>)

lemma prepare_limits [simp]: "bp_limits (fst (prepare_registration origin p)) = bp_limits p"
  by (simp add: prepare_registration_def case_prod_unfold split: sum.split prod.split)

lemma pool_count_single [simp]: "pool_count (Some k) [(c, e)] = (if be_origin e = k then 1 else 0)"
  by (simp add: pool_count_def of_origin_def)

lemma pool_inv_new_entry:
  assumes "pool_inv p" "pool_count (Some (be_origin e)) (bp_entries p) < bl_max_connections_per_origin (bp_limits p)"
    "length (bp_entries p) < bl_max_connections (bp_limits p)" "hm_get (bp_entries p) c = None" "entry_ok (c, e)"
  shows "pool_inv (p\<lparr> bp_next_connection_id := nxt, bp_entries := hm_insert c e (bp_entries p) \<rparr>)"
  using assms by (auto simp: pool_inv_def hm_insert_new map_of_eq_None_iff)

text \<open>Registering always returns; what it returns is settled by the room that was made.\<close>

lemma register_returns:
  assumes "pool_inv p" "prepare_registration origin p = (p1, r)"
  shows "case r of
      Inl x \<Rightarrow> pool_register origin mode now p = Some (p1, Err x)
    | Inr rs \<Rightarrow> \<exists>c nxt. c \<noteq> 0 \<and> hm_get (bp_entries p1) c = None \<and>
        pool_register origin mode now p = Some (p1\<lparr> bp_next_connection_id := nxt,
          bp_entries := hm_insert c (fresh_entry origin mode now) (bp_entries p1) \<rparr>, Ok \<lparr> rg_connection_id = c, rg_removals = rs \<rparr>)"
proof (cases r)
  case (Inr rs)
  have "bl_max_connections (bp_limits p) < 2 ^ 64" using assms(1) by (simp add: pool_inv_def limits_ok_def)
  moreover have "length (bp_entries p1) < bl_max_connections (bp_limits p)"
    using assms by (rule prepare_cases) (use Inr in simp_all)
  ultimately obtain t where "hm_get (bp_entries p1) t = None" "t \<noteq> 0" using free_id_exists [of "bp_entries p1"] by auto
  then obtain c nxt where "next_available_connection_id (\<lambda>c. hm_get (bp_entries p1) c \<noteq> None) (bp_next_connection_id p1) = Some (c, nxt)"
    "hm_get (bp_entries p1) c = None" "c \<noteq> 0"
    using next_id_found [of "\<lambda>c. hm_get (bp_entries p1) c \<noteq> None" t "bp_next_connection_id p1"] by auto
  then show ?thesis using assms(2) Inr by (auto simp: pool_register_def)
qed (use assms(2) in \<open>simp add: pool_register_def\<close>)

lemma register_inv:
  assumes "pool_inv p"
  shows "\<exists>p' r. pool_register origin mode now p = Some (p', r) \<and> pool_inv p'"
proof -
  obtain p1 r where pr: "prepare_registration origin p = (p1, r)" by fastforce
  have inv: "pool_inv p1" using prepare_inv assms pr .
  show ?thesis
  proof (cases r)
    case (Inr rs)
    with register_returns [OF assms pr, of mode now] obtain c nxt where c: "c \<noteq> 0" "hm_get (bp_entries p1) c = None"
      "pool_register origin mode now p = Some (p1\<lparr> bp_next_connection_id := nxt,
          bp_entries := hm_insert c (fresh_entry origin mode now) (bp_entries p1) \<rparr>, Ok \<lparr> rg_connection_id = c, rg_removals = rs \<rparr>)"
      by auto
    have "bp_limits p1 = bp_limits p" using prepare_limits [of origin p] pr by simp
    moreover have "pool_count (Some origin) (bp_entries p1) < bl_max_connections_per_origin (bp_limits p) \<and>
        length (bp_entries p1) < bl_max_connections (bp_limits p)"
      using assms pr by (rule prepare_cases) (use Inr in simp_all)
    ultimately show ?thesis using c pool_inv_new_entry [OF inv] by (auto simp: entry_ok_def)
  qed (use register_returns [OF assms pr, of mode now] inv in auto)
qed

lemma acquire_inv: "pool_inv p \<Longrightarrow> pool_inv (fst (pool_acquire origin now p))"
proof (cases "min_by_key acquire_key (filter (\<lambda>(c, e). be_origin e = origin \<and> entry_available e) (bp_entries p))")
  case (Some x)
  assume inv: "pool_inv p"
  obtain c e where x: "x = (c, e)" by fastforce
  have e: "(c, e) \<in> set (bp_entries p)" "entry_available e" using min_by_key_in [OF Some] x by auto
  then have "hm_get (bp_entries p) c = Some e" using inv by (simp add: pool_inv_def)
  with inv e Some x pool_inv_entry [OF inv this] show ?thesis
    by (auto simp: pool_acquire_def entry_ok_def entry_available_def intro!: pool_inv_update)
qed (simp add: pool_acquire_def)

lemma release_inv:
  assumes "pool_inv p"
  shows "pool_inv (fst (pool_release c now p))"
proof (cases "hm_get (bp_entries p) c")
  case (Some e)
  note pool_inv_entry [OF assms Some]
  with Some assms show ?thesis
    by (auto simp: pool_release_def Let_def remove_from_eq delete_update_same entry_ok_def pool_inv_remove
      intro!: pool_inv_update)
qed (simp add: pool_release_def assms)

lemma goaway_inv:
  assumes "pool_inv p"
  shows "pool_inv (fst (mark_goaway c p))"
proof (cases "hm_get (bp_entries p) c")
  case (Some e)
  note pool_inv_entry [OF assms Some]
  with Some assms show ?thesis
    by (auto simp: mark_goaway_def remove_from_eq entry_ok_def pool_inv_remove intro!: pool_inv_update)
qed (simp add: mark_goaway_def assms)

lemma pool_step_safe:
  assumes "pool_inv p"
  shows "\<exists>p' a. pool_step i p = Some (p', a) \<and> pool_inv p'"
proof (cases i)
  case (Register origin mode now)
  then show ?thesis using register_inv [OF assms, of origin mode now] by (auto simp: pool_step_def)
next
  case (Prepare origin)
  then show ?thesis
    using prepare_inv [OF assms, of origin] by (cases "prepare_registration origin p") (simp add: pool_step_def)
qed (use assms acquire_inv [OF assms] release_inv [OF assms] goaway_inv [OF assms] in
    \<open>simp_all add: pool_step_def apsnd_def map_prod_def case_prod_unfold pool_disconnected_def remove_from_eq
      pool_inv_remove invalidate_policy_def prune_idle_def pool_inv_remove_all\<close>)

interpretation pool_machine: guarded_machine pool_inv pool_step
  by unfold_locales (rule pool_step_safe)

lemma pool_new_inv:
  assumes "pool_limits_new m k t = Ok limits" "0 < k" "m < 2 ^ 64"
  shows "pool_inv (pool_new limits)"
  using assms by (auto simp: pool_limits_new_def pool_inv_def pool_new_def limits_ok_def pool_count_def split: if_splits)

section \<open>What the operations do to one connection\<close>

lemma fold_min_le:
  fixes key :: "'a \<Rightarrow> 'k::linorder"
  shows "z = a \<or> z \<in> set ys \<Longrightarrow> key (foldl (\<lambda>m y. if key y < key m then y else m) a ys) \<le> key z"
proof (induction ys arbitrary: a z)
  case (Cons b ys)
  let ?a = "if key b < key a then b else a"
  have "key (foldl (\<lambda>m y. if key y < key m then y else m) ?a ys) \<le> key ?a" by (rule Cons.IH) simp
  moreover have "key ?a \<le> key a" "key ?a \<le> key b" by auto
  ultimately show ?case using Cons.IH [of z ?a] Cons.prems by auto
qed simp

lemma min_by_key_le: "min_by_key key xs = Some x \<Longrightarrow> y \<in> set xs \<Longrightarrow> key x \<le> key y"
  by (cases xs) (auto simp: min_by_key_def intro: fold_min_le)

lemma remove_all_get:
  "hm_get (bp_entries (fst (remove_all cs reason p))) c = (if c \<in> set cs then None else hm_get (bp_entries p) c)"
  by (induction cs arbitrary: p) (auto simp: remove_from_eq case_prod_unfold)

lemma acquire_chosen:
  assumes "pool_inv p" "pool_acquire origin now p = (p', Some l)"
  obtains e where "hm_get (bp_entries p) (bs_connection_id l) = Some e" "be_origin e = origin" "bs_origin l = origin"
    "entry_available e"
    "\<And>c' e'. (c', e') \<in> set (bp_entries p) \<Longrightarrow> be_origin e' = origin \<Longrightarrow> entry_available e' \<Longrightarrow>
       be_active_streams e \<le> be_active_streams e'"
    "p' = p\<lparr> bp_entries := hm_insert (bs_connection_id l)
       (e\<lparr> be_active_streams := be_active_streams e + 1, be_last_activity := now \<rparr>) (bp_entries p) \<rparr>"
proof -
  let ?xs = "filter (\<lambda>(c, e). be_origin e = origin \<and> entry_available e) (bp_entries p)"
  obtain c e where m: "min_by_key acquire_key ?xs = Some (c, e)"
    using assms(2) by (auto simp: pool_acquire_def split: option.splits)
  have e: "(c, e) \<in> set (bp_entries p)" "be_origin e = origin" "entry_available e" using min_by_key_in [OF m] by auto
  have "be_active_streams e \<le> be_active_streams e'"
    if "(c', e') \<in> set (bp_entries p)" "be_origin e' = origin" "entry_available e'" for c' e'
  proof -
    have "acquire_key (c, e) \<le> acquire_key (c', e')" by (rule min_by_key_le [OF m]) (use that in auto)
    then show ?thesis by (auto simp: acquire_key_def)
  qed
  with that [of e] m e assms show thesis by (auto simp: pool_acquire_def pool_inv_def)
qed

end
