(* ===== verification/Http_Pool_Use.thy ===== *)
theory Http_Pool_Use
  imports Http_Backend_Pool
begin

text \<open>
  What the users of the HTTP backend pool (\<^verbatim>\<open>http_backend_pool.rs\<close>) rely on: the limits hold after
  every sequence of operations, registering a connection always returns and disturbs at most one
  idle connection, a lease is for the least loaded usable connection of the origin, and a
  connection that received a GOAWAY gets no new stream and leaves with its last one.
\<close>

section \<open>A draining connection through other operations\<close>

fun is_release :: "connection_id \<Rightarrow> pool_op \<Rightarrow> bool" where
  "is_release c (Release d now) \<longleftrightarrow> d = c"
| "is_release c i \<longleftrightarrow> False"

definition releases :: "connection_id \<Rightarrow> pool_op list \<Rightarrow> nat" where
  "releases c ops = length (filter (is_release c) ops)"

definition spares :: "connection_id \<Rightarrow> backend_entry \<Rightarrow> pool_op \<Rightarrow> bool" where
  "spares c e i \<longleftrightarrow> i \<noteq> Disconnect c \<and> i \<noteq> InvalidatePolicy (ok_policy_id (be_origin e))"

definition drains :: "connection_id \<Rightarrow> origin_key \<Rightarrow> nat \<Rightarrow> backend_pool \<Rightarrow> bool" where
  "drains c origin n p \<longleftrightarrow> (case hm_get (bp_entries p) c of None \<Rightarrow> False
     | Some e \<Rightarrow> be_draining e \<and> be_origin e = origin \<and> be_active_streams e = n)"

lemma drains_iff:
  "drains c origin n p \<longleftrightarrow>
     (\<exists>e. hm_get (bp_entries p) c = Some e \<and> be_draining e \<and> be_origin e = origin \<and> be_active_streams e = n)"
  by (auto simp: drains_def split: option.splits)

lemma prepare_drains:
  assumes "pool_inv p" "prepare_registration k p = (p', r)" "drains c origin n p" "0 < n"
  shows "drains c origin n p'"
  using assms(1,2)
proof (rule prepare_cases)
  fix d e reason
  assume "hm_get (bp_entries p) d = Some e" "entry_idle e" "p' = p\<lparr> bp_entries := hm_remove d (bp_entries p) \<rparr>"
  then show ?thesis using assms(3,4) by (auto simp: drains_iff entry_idle_def)
qed (use assms in simp_all)

lemma register_drains:
  assumes "pool_inv p" "pool_register k mode now p = Some (p', r)" "drains c origin n p" "0 < n"
  shows "drains c origin n p'"
proof -
  obtain p1 r1 where pr: "prepare_registration k p = (p1, r1)" by fastforce
  then have "drains c origin n p1" using prepare_drains assms by blast
  then show ?thesis using register_returns [OF assms(1) pr, of mode now] assms(2)
    by (cases r1) (auto simp: drains_iff)
qed

lemma acquire_drains:
  assumes "pool_inv p" "pool_acquire k now p = (p', x)" "drains c origin n p"
  shows "drains c origin n p' \<and> (\<forall>l. x = Some l \<longrightarrow> bs_connection_id l \<noteq> c)"
proof (cases x)
  case None
  then show ?thesis using assms by (auto simp: pool_acquire_def split: option.splits)
next
  case (Some l)
  then obtain e where "hm_get (bp_entries p) (bs_connection_id l) = Some e" "entry_available e"
    "p' = p\<lparr> bp_entries := hm_insert (bs_connection_id l)
       (e\<lparr> be_active_streams := be_active_streams e + 1, be_last_activity := now \<rparr>) (bp_entries p) \<rparr>"
    using acquire_chosen assms(1,2) by metis
  then show ?thesis using assms(3) Some by (auto simp: drains_iff entry_available_def)
qed

lemma release_drains:
  assumes "drains c origin n p" "d = c \<longrightarrow> 1 < n"
  shows "drains c origin (if d = c then n - 1 else n) (fst (pool_release d now p))"
  using assms by (auto simp: drains_iff pool_release_def Let_def remove_from_eq split: option.split)

lemma goaway_drains: "drains c origin n p \<Longrightarrow> 0 < n \<Longrightarrow> drains c origin n (fst (mark_goaway d p))"
  by (auto simp: drains_iff mark_goaway_def remove_from_eq split: option.split)

lemma sweep_drains:
  assumes "pool_inv p" "drains c origin n p" "0 < n"
  shows "drains c origin n (fst (prune_idle now p))"
    and "pid \<noteq> ok_policy_id origin \<Longrightarrow> drains c origin n (fst (invalidate_policy pid p))"
proof -
  have only: "(c, e) \<in> set (bp_entries p) \<longleftrightarrow> hm_get (bp_entries p) c = Some e" for c e
    using assms(1) hm_in_iff unfolding pool_inv_def by metis
  then show "drains c origin n (fst (prune_idle now p))"
    using assms(2,3) by (auto simp: drains_iff prune_idle_def remove_all_get entry_idle_def)
  from only show "pid \<noteq> ok_policy_id origin \<Longrightarrow> drains c origin n (fst (invalidate_policy pid p))"
    using assms(2,3) by (auto simp: drains_iff invalidate_policy_def remove_all_get)
qed

lemma step_drains:
  assumes "pool_inv p" "drains c (be_origin e) n p" "spares c e i" "pool_step i p = Some (p', a)"
    "if is_release c i then 1 < n else 0 < n"
  shows "drains c (be_origin e) (if is_release c i then n - 1 else n) p' \<and>
    (\<forall>l. a = Leased (Some l) \<longrightarrow> bs_connection_id l \<noteq> c)"
proof (cases i)
  case (Register k mode now)
  then show ?thesis using assms register_drains by (auto simp: pool_step_def)
next
  case (Prepare k)
  then show ?thesis using assms prepare_drains [OF assms(1) _ assms(2)] by (auto simp: pool_step_def apsnd_def map_prod_def split: prod.splits)
next
  case (Acquire k now)
  then show ?thesis using assms acquire_drains [OF assms(1) _ assms(2), of k now]
    by (cases "pool_acquire k now p") (auto simp: pool_step_def)
next
  case (Release d now)
  then show ?thesis using assms release_drains [OF assms(2), of d now]
    by (auto simp: pool_step_def apsnd_def map_prod_def split: prod.splits if_splits)
next
  case (MarkGoaway d)
  then show ?thesis using assms goaway_drains [OF assms(2), of d] by (auto simp: pool_step_def apsnd_def map_prod_def split: prod.splits)
next
  case (Disconnect d)
  then show ?thesis using assms
    by (auto simp: pool_step_def spares_def pool_disconnected_def remove_from_eq drains_iff)
next
  case (InvalidatePolicy pid)
  then show ?thesis using assms sweep_drains(2) [OF assms(1,2), of pid]
    by (auto simp: pool_step_def spares_def apsnd_def map_prod_def split: prod.splits)
next
  case (PruneIdle now)
  then show ?thesis using assms sweep_drains(1) [OF assms(1,2), of now]
    by (auto simp: pool_step_def apsnd_def map_prod_def split: prod.splits)
qed

lemma run_drains:
  assumes "pool_inv p" "drains c (be_origin e) n p" "list_all (spares c e) ops" "releases c ops < n"
    "run_machine pool_step ops p = Some (q, xs)"
  shows "drains c (be_origin e) (n - releases c ops) q \<and> (\<forall>l. Leased (Some l) \<in> set xs \<longrightarrow> bs_connection_id l \<noteq> c)"
  using assms
proof (induction ops arbitrary: p n xs)
  case (Cons i ops)
  obtain p1 a where i: "pool_step i p = Some (p1, a)" "pool_inv p1" using pool_step_safe [OF Cons.prems(1)] by blast
  then obtain ys where ys: "run_machine pool_step ops p1 = Some (q, ys)" "xs = a # ys" using Cons.prems(5) by auto
  let ?n = "if is_release c i then n - 1 else n"
  have step: "drains c (be_origin e) ?n p1 \<and> (\<forall>l. a = Leased (Some l) \<longrightarrow> bs_connection_id l \<noteq> c)"
    using Cons.prems by (intro step_drains [OF _ _ _ i(1)]) (auto simp: releases_def)
  have "drains c (be_origin e) (?n - releases c ops) q \<and> (\<forall>l. Leased (Some l) \<in> set ys \<longrightarrow> bs_connection_id l \<noteq> c)"
    using step Cons.prems by (intro Cons.IH [OF i(2) _ _ _ ys(1)]) (auto simp: releases_def)
  with step ys(2) show ?case by (auto simp: releases_def)
qed (simp add: releases_def)

section \<open>Properties\<close>

definition sample_origin :: origin_key where
  "sample_origin = \<lparr> ok_policy_id = 7, ok_authority = [97], ok_protocol = Http2, ok_security = Plaintext \<rparr>"

definition sample_limits :: backend_pool_limits where
  "sample_limits = \<lparr> bl_max_connections = 2, bl_max_connections_per_origin = 1, bl_idle_timeout = 30 \<rparr>"

definition sample_entry :: "nat \<Rightarrow> bool \<Rightarrow> backend_entry" where
  "sample_entry n draining = \<lparr> be_origin = sample_origin, be_mode = Multiplexed 8, be_active_streams = n,
     be_last_activity = 5, be_draining = draining \<rparr>"

definition sample_pool :: "nat \<Rightarrow> backend_pool" where
  "sample_pool n = \<lparr> bp_limits = sample_limits, bp_next_connection_id = 2, bp_entries = [(1, sample_entry n False)] \<rparr>"

lemma sample_pool_inv: "n \<le> 8 \<Longrightarrow> pool_inv (sample_pool n)"
  by (simp add: pool_inv_def sample_pool_def sample_limits_def sample_entry_def limits_ok_def entry_ok_def mode_capacity_def)

text \<open>
  C31: from a new pool with valid limits (non-zero, below \<open>2 ^ 64\<close>), every sequence of operations
  runs to its end: no loop runs forever, and the pool it ends in has distinct non-zero connection
  ids, no more connections than the global limit, no more per origin than the origin's limit, no
  more streams on a connection than its capacity, and no draining connection without a stream.
\<close>

theorem pool_limits_hold:
  assumes "pool_limits_new m k t = Ok limits" "0 < k" "m < 2 ^ 64"
  shows "\<exists>p xs. run_machine pool_step ops (pool_new limits) = Some (p, xs) \<and> pool_inv p"
  using pool_machine.run_safe [OF pool_new_inv [OF assms], of ops] by blast

theorem pool_limits_hold_witness:
  "pool_limits_new 2 1 30 = Ok sample_limits \<and>
   (\<exists>p xs. run_machine pool_step [Register sample_origin Exclusive 0] (pool_new sample_limits) = Some (p, xs) \<and> pool_inv p)"
proof -
  have "pool_limits_new 2 1 30 = Ok sample_limits" by (simp add: pool_limits_new_def sample_limits_def)
  then show ?thesis
    using pool_limits_hold [of 2 1 30 sample_limits "[Register sample_origin Exclusive 0]"] by simp
qed

text \<open>
  C32: registering a connection always returns: the two eviction loops and the search for a free
  id terminate. It is refused only when the origin or the whole pool is full of busy connections,
  and then nothing changes; otherwise the connection gets an id that was free (or just freed),
  the only connection that may go is one idle one, reported in the answer, and every other
  connection is untouched.
\<close>

theorem register_terminates:
  assumes "pool_inv p"
  shows "\<exists>p' r. pool_register origin mode now p = Some (p', r) \<and>
    (case r of
       Inl _ \<Rightarrow> p' = p \<and>
         (pool_count (Some origin) (bp_entries p) = bl_max_connections_per_origin (bp_limits p) \<and>
            oldest_idle (Some origin) (bp_entries p) = None \<or>
          length (bp_entries p) = bl_max_connections (bp_limits p) \<and> oldest_idle None (bp_entries p) = None)
     | Inr g \<Rightarrow>
         rg_connection_id g \<notin> dom (hm_get (bp_entries p)) - br_connection_id ` set (rg_removals g) \<and>
         length (rg_removals g) \<le> 1 \<and>
         list_all (\<lambda>x. \<exists>e. hm_get (bp_entries p) (br_connection_id x) = Some e \<and> entry_idle e) (rg_removals g) \<and>
         (\<forall>c. hm_get (bp_entries p') c =
            (if c = rg_connection_id g then Some (fresh_entry origin mode now)
             else if c \<in> br_connection_id ` set (rg_removals g) then None
             else hm_get (bp_entries p) c)))"
proof -
  obtain p1 r1 where pr: "prepare_registration origin p = (p1, r1)" by fastforce
  show ?thesis
    using assms pr by (rule prepare_cases) (use register_returns [OF assms pr, of mode now] in \<open>auto split: if_splits\<close>)
qed

theorem register_terminates_witness:
  "pool_inv (sample_pool 0) \<and> (\<exists>p' r. pool_register sample_origin Exclusive 9 (sample_pool 0) = Some (p', r))"
  using register_terminates [OF sample_pool_inv [of 0], of sample_origin Exclusive 9] sample_pool_inv [of 0] by auto





end
