(* ===== verification/Hostname.thy ===== *)
theory Hostname
  imports Rust_Net
begin

text \<open>
  Host names of public routes (\<^verbatim>\<open>linklake-server/src/http_route_catalog.rs\<close>,
  \<open>normalize_hostname\<close>), as the HTTP and TLS routes and the SNI reader use them. The main lemma is
  that the result of the normalisation is a fixed point of it, so that a stored name and a name
  read from the wire can be compared as texts.
\<close>

section \<open>Normalisation\<close>

datatype hostname_error = InvalidHostname

definition to_ascii_lowercase :: "str \<Rightarrow> str" where
  "to_ascii_lowercase = map (\<lambda>c. if 65 \<le> c \<and> c \<le> 90 then c + 32 else c)"

function pop_dots :: "str \<Rightarrow> str" where
  "pop_dots value = (if value \<noteq> [] \<and> last value = 46 then pop_dots (butlast value) else value)"
  by pat_completeness auto
termination by (relation "measure length") auto

declare pop_dots.simps [simp del]

definition strip_port :: "str \<Rightarrow> str" where
  "strip_port value =
     (case rsplit_once 58 value of
        None \<Rightarrow> value
      | Some (host, port) \<Rightarrow>
          if 58 \<notin> set host \<and> (case parse_uint 65535 port of None \<Rightarrow> False | Some p \<Rightarrow> p \<noteq> 0) then host else value)"

definition label_ok :: "str \<Rightarrow> bool" where
  "label_ok label \<longleftrightarrow> label \<noteq> [] \<and> len label \<le> 63 \<and> hd label \<noteq> 45 \<and> last label \<noteq> 45 \<and>
     all_bytes (\<lambda>b. byte_is_alphanumeric b \<or> b = 45) label"

definition normalize_hostname :: "str \<Rightarrow> hostname_error + str" where
  "normalize_hostname value =
     (let value = to_ascii_lowercase (trim value)
      in if \<not> (value \<noteq> [] \<and> len value \<le> 253 \<and> \<not> contains_str [47, 47] value \<and> 47 \<notin> set value \<and>
               64 \<notin> set value \<and> \<not> list_ex is_whitespace value)
         then Err InvalidHostname
         else let value = pop_dots (strip_port value)
           in if \<not> (46 \<in> set value \<and> parse_ipv4 value = None \<and> parse_ipv6 value = None)
              then Err InvalidHostname
              else if list_all label_ok (split_on 46 value) then Ok value else Err InvalidHostname)"

section \<open>The result is a fixed point\<close>

lemma pop_dots_prefix: "\<exists>r. v = pop_dots v @ r"
proof (induction v rule: pop_dots.induct)
  case (1 v)
  show ?case
  proof (cases "v \<noteq> [] \<and> last v = 46")
    case True
    with 1 obtain r where "butlast v = pop_dots (butlast v) @ r" by blast
    with True show ?thesis by (metis append_assoc append_butlast_last_id pop_dots.simps)
  qed (subst pop_dots.simps, auto)
qed

lemma pop_dots_idem: "pop_dots (pop_dots v) = pop_dots v"
proof (induction v rule: pop_dots.induct)
  case (1 v)
  show ?case
  proof (cases "v \<noteq> [] \<and> last v = 46")
    case True
    with 1 show ?thesis by (metis pop_dots.simps)
  next
    case False
    then have "pop_dots v = v" by (subst pop_dots.simps) auto
    then show ?thesis by simp
  qed
qed

lemma strip_port_prefix: "\<exists>r. v = strip_port v @ r"
  by (auto simp: strip_port_def rsplit_once_Some split: option.split)

lemma to_ascii_lowercase_idem: "to_ascii_lowercase (to_ascii_lowercase s) = to_ascii_lowercase s"
  by (simp add: to_ascii_lowercase_def)

lemma to_ascii_lowercase_append: "to_ascii_lowercase (a @ b) = to_ascii_lowercase a @ to_ascii_lowercase b"
  by (simp add: to_ascii_lowercase_def)

lemma valid_str_lower: "valid_str s \<Longrightarrow> valid_str (to_ascii_lowercase s)"
  by (auto simp: valid_str_def list_all_iff to_ascii_lowercase_def is_scalar_def)

definition host_char :: "nat \<Rightarrow> bool" where
  "host_char c \<longleftrightarrow> 48 \<le> c \<and> c \<le> 57 \<or> 65 \<le> c \<and> c \<le> 90 \<or> 97 \<le> c \<and> c \<le> 122 \<or> c = 45"

lemma label_chars:
  assumes "valid_str s" "label_ok s" "c \<in> set s"
  shows "host_char c"
proof -
  have "all_bytes (\<lambda>b. byte_is_alphanumeric b \<or> b = 45) s \<longleftrightarrow>
      list_all (\<lambda>c. c < 0x80 \<and> (byte_is_alphanumeric (of_nat c) \<or> of_nat c = (45 :: u8))) s"
    by (rule all_bytes_ascii [OF assms(1)]) (auto simp: byte_is_alphanumeric_def byte_is_digit_def is_digit_def)
  with assms(2,3) have "c < 0x80" "byte_is_alphanumeric (of_nat c) \<or> of_nat c = (45 :: u8)"
    by (auto simp: label_ok_def list_all_iff)
  moreover from this have "unat (of_nat c :: u8) = c" by (simp add: unat_small_byte)
  moreover have "of_nat c = (45 :: u8) \<Longrightarrow> unat (of_nat c :: u8) = 45" by simp
  ultimately show ?thesis
    by (auto simp: byte_is_alphanumeric_def byte_is_digit_def is_digit_def host_char_def)
qed

lemma hostname_chars:
  assumes "valid_str v" "list_all label_ok (split_on 46 v)" "c \<in> set v"
  shows "c = 46 \<or> host_char c"
proof (rule ccontr)
  assume c: "\<not> ?thesis"
  have "c \<in> set (join [46] ps) \<Longrightarrow> c \<noteq> 46 \<Longrightarrow> \<exists>p \<in> set ps. c \<in> set p" for ps
    by (induction "[46 :: nat]" ps rule: join.induct) auto
  then obtain p where p: "p \<in> set (split_on 46 v)" "c \<in> set p" using c assms(3) by (metis join_split_on)
  then have "valid_str p" using assms(1) split_on_pieces [OF p(1)] by (auto simp: valid_str_def list_all_iff)
  with p assms(2) c label_chars show False by (auto simp: list_all_iff)
qed

lemma normalize_hostname_fixed:
  assumes "valid_str s" "normalize_hostname s = Ok h"
  shows "normalize_hostname h = Ok h"
proof -
  define v where "v = to_ascii_lowercase (trim s)"
  have ok: "len v \<le> 253" "h = pop_dots (strip_port v)" "46 \<in> set h" "parse_ipv4 h = None" "parse_ipv6 h = None"
    "list_all label_ok (split_on 46 h)"
    using assms(2) by (auto simp: normalize_hostname_def Let_def v_def [symmetric] split: if_splits)
  obtain r1 r2 where "strip_port v = h @ r1" "v = strip_port v @ r2"
    using pop_dots_prefix strip_port_prefix ok(2) by metis
  then have v: "v = h @ r1 @ r2" by simp
  have "valid_str v" using assms(1) trim_set [of s] by (auto simp: v_def valid_str_def list_all_iff intro!: valid_str_lower [unfolded valid_str_def list_all_iff])
  then have "valid_str h" using v by (simp add: valid_str_def)
  then have chars: "c \<in> set h \<Longrightarrow> c = 46 \<or> host_char c" for c using hostname_chars ok(6) by blast
  have lower: "to_ascii_lowercase h = h"
    using to_ascii_lowercase_idem [of "trim s"] v by (simp add: v_def [symmetric] to_ascii_lowercase_append) (simp add: to_ascii_lowercase_def)
  have ws: "list_all (\<lambda>c. \<not> is_whitespace c) h"
    using chars by (fastforce simp: list_all_iff host_char_def is_whitespace_def)
  then have "trim h = h" by (rule trim_id)
  have no: "58 \<notin> set h" "47 \<notin> set h" "64 \<notin> set h" using chars by (fastforce simp: host_char_def)+
  then have port: "strip_port h = h" by (simp add: strip_port_def rsplit_once_None [THEN iffD2])
  have slash: "\<not> contains_str [47, 47] h" using no(2)
    by (induction h) (auto simp: starts_with_def)
  have "h \<noteq> []" "len h \<le> 253" using ok(1,3) v by auto
  with lower ws \<open>trim h = h\<close> no port slash ok(3-6) show ?thesis
    by (simp add: normalize_hostname_def Let_def pop_dots_idem [of "strip_port v", folded ok(2)]
      list_ex_iff list_all_iff)
qed

end
