(* ===== verification/Sni_Tunnel.thy ===== *)
theory Sni_Tunnel
  imports Hostname
begin

text \<open>
  Reading the server name of a TLS connection without terminating it
  (\<^verbatim>\<open>linklake-server/src/sni_tunnel.rs\<close>): the ClientHello parser over a byte slice with a cursor,
  and the reader that collects handshake records from the stream. A stream is the list of the
  bytes it will still deliver; reading past its end is the error \<open>UnexpectedEof\<close>. The places where
  Rust would panic (\<open>unwrap\<close>, a subtraction below zero) are the value \<open>Panicked\<close>.
\<close>

section \<open>Cursor reads\<close>

datatype sni_error =
  UnexpectedEof | InvalidRecord | ClientHelloTooLarge | NotClientHello | LengthOverflow | Truncated
| InvalidCipherList | InvalidCompressionList | TrailingBytes | InvalidSniListLength | NotUtf8
| BadHostname hostname_error | NoSniHostname | Panicked

definition MAX_TLS_RECORD_BYTES :: nat where "MAX_TLS_RECORD_BYTES = 18432"
definition MAX_CLIENT_HELLO_BYTES :: nat where "MAX_CLIENT_HELLO_BYTES = 64 * 1024"

definition take_at :: "bytes \<Rightarrow> nat \<Rightarrow> nat \<Rightarrow> sni_error + (bytes \<times> nat)" where
  "take_at input cursor n =
     (case checked_add cursor n of
        None \<Rightarrow> Err LengthOverflow
      | Some e \<Rightarrow> if e \<le> length input then Ok (slice cursor e input, e) else Err Truncated)"

definition first_unwrap :: "bytes \<Rightarrow> sni_error + u8" where
  "first_unwrap bs = (case bs of [] \<Rightarrow> Err Panicked | b # _ \<Rightarrow> Ok b)"

definition read_u16_at :: "bytes \<Rightarrow> nat \<Rightarrow> sni_error + (nat \<times> nat)" where
  "read_u16_at input cursor = and_then (take_at input cursor 2) (\<lambda>(value, cursor). Ok (be_decode value, cursor))"

definition read_u8_at :: "bytes \<Rightarrow> nat \<Rightarrow> sni_error + (nat \<times> nat)" where
  "read_u8_at input cursor =
     and_then (take_at input cursor 1) (\<lambda>(value, cursor).
     and_then (first_unwrap value) (\<lambda>b. Ok (unat b, cursor)))"

lemma take_at_ok: "take_at input cursor n = Ok (v, e) \<longleftrightarrow>
    cursor + n \<le> usize_max \<and> e = cursor + n \<and> e \<le> length input \<and> v = slice cursor e input"
  by (auto simp: take_at_def checked_add_def split: option.splits)

lemma read_u16_at_ok: "read_u16_at input cursor = Ok (v, e) \<Longrightarrow> e = cursor + 2 \<and> e \<le> length input"
  by (auto simp: read_u16_at_def and_then_ok_iff take_at_ok)

lemma read_u8_at_ok: "read_u8_at input cursor = Ok (v, e) \<Longrightarrow> e = cursor + 1 \<and> e \<le> length input"
  by (auto simp: read_u8_at_def and_then_ok_iff take_at_ok)

section \<open>The ClientHello parser\<close>

definition host_of_name :: "bytes \<Rightarrow> sni_error + str" where
  "host_of_name name =
     and_then (ok_or (from_utf8 name) NotUtf8) (\<lambda>name. map_err BadHostname (normalize_hostname name))"

text \<open>The loop over the names of a server-name list; \<open>None\<close> when it ends without a host name.\<close>

function sni_names :: "bytes \<Rightarrow> nat \<Rightarrow> sni_error + str option" where
  "sni_names value cursor =
     (if cursor < length value then
        case read_u8_at value cursor of Inl e \<Rightarrow> Err e | Inr (name_type, cursor1) \<Rightarrow>
        case read_u16_at value cursor1 of Inl e \<Rightarrow> Err e | Inr (name_length, cursor2) \<Rightarrow>
        case take_at value cursor2 name_length of Inl e \<Rightarrow> Err e | Inr (name, cursor3) \<Rightarrow>
          if name_type = 0 then and_then (host_of_name name) (\<lambda>h. Ok (Some h))
          else sni_names value cursor3
      else Ok None)"
  by pat_completeness auto
termination
  by (relation "measure (\<lambda>(value, cursor). length value - cursor)")
     (auto simp: take_at_ok dest!: read_u8_at_ok read_u16_at_ok)

text \<open>The loop over the extensions.\<close>

function sni_extensions :: "bytes \<Rightarrow> nat \<Rightarrow> sni_error + str" where
  "sni_extensions extensions cursor =
     (if cursor < length extensions then
        case read_u16_at extensions cursor of Inl e \<Rightarrow> Err e | Inr (kind, cursor1) \<Rightarrow>
        case read_u16_at extensions cursor1 of Inl e \<Rightarrow> Err e | Inr (n, cursor2) \<Rightarrow>
        case take_at extensions cursor2 n of Inl e \<Rightarrow> Err e | Inr (value, cursor3) \<Rightarrow>
          if kind \<noteq> 0 then sni_extensions extensions cursor3
          else
            case read_u16_at value 0 of Inl e \<Rightarrow> Err e | Inr (list_length, sni_cursor) \<Rightarrow>
            if length value < 2 then Err Panicked
            else if list_length \<noteq> length value - 2 then Err InvalidSniListLength
            else case sni_names value sni_cursor of
              Inl e \<Rightarrow> Err e
            | Inr (Some h) \<Rightarrow> Ok h
            | Inr None \<Rightarrow> sni_extensions extensions cursor3
      else Err NoSniHostname)"
  by pat_completeness auto
termination
  by (relation "measure (\<lambda>(extensions, cursor). length extensions - cursor)")
     (auto simp: take_at_ok dest!: read_u8_at_ok read_u16_at_ok)

declare sni_names.simps [simp del] sni_extensions.simps [simp del]

definition parse_client_hello_sni :: "bytes \<Rightarrow> sni_error + str" where
  "parse_client_hello_sni hello =
     and_then (take_at hello 0 (2 + 32)) (\<lambda>(_, cursor).
     and_then (read_u8_at hello cursor) (\<lambda>(session_length, cursor).
     and_then (take_at hello cursor session_length) (\<lambda>(_, cursor).
     and_then (read_u16_at hello cursor) (\<lambda>(cipher_length, cursor).
     and_then (check (cipher_length \<ge> 2 \<and> cipher_length mod 2 = 0) InvalidCipherList) (\<lambda>_.
     and_then (take_at hello cursor cipher_length) (\<lambda>(_, cursor).
     and_then (read_u8_at hello cursor) (\<lambda>(compression_length, cursor).
     and_then (check (compression_length \<noteq> 0) InvalidCompressionList) (\<lambda>_.
     and_then (take_at hello cursor compression_length) (\<lambda>(_, cursor).
     and_then (read_u16_at hello cursor) (\<lambda>(extensions_length, cursor).
     and_then (take_at hello cursor extensions_length) (\<lambda>(extensions, cursor).
     and_then (check (cursor = length hello) TrailingBytes) (\<lambda>_.
     sni_extensions extensions 0))))))))))))"

section \<open>Reading the records\<close>

definition read_exact :: "bytes \<Rightarrow> nat \<Rightarrow> sni_error + (bytes \<times> bytes)" where
  "read_exact stream n = (if n \<le> length stream then Ok (take n stream, drop n stream) else Err UnexpectedEof)"

lemma read_exact_ok: "read_exact s n = Ok (v, r) \<Longrightarrow> s = v @ r \<and> length v = n"
  by (auto simp: read_exact_def split: if_splits)

text \<open>One turn of the loop reads one record; it goes on while the handshake message is incomplete.\<close>

definition read_record :: "nat \<Rightarrow> bytes \<Rightarrow> sni_error + (bytes \<times> bytes \<times> bytes)" where
  "read_record wire_len stream =
     and_then (read_exact stream 5) (\<lambda>(header, stream).
     let record_length = be_decode (drop 3 header)
     in and_then (check (header ! 0 = 22 \<and> header ! 1 = 3 \<and> record_length \<noteq> 0 \<and>
          record_length \<le> MAX_TLS_RECORD_BYTES) InvalidRecord) (\<lambda>_.
        and_then (check (wire_len + 5 + record_length \<le> MAX_CLIENT_HELLO_BYTES + 5 * 8) ClientHelloTooLarge) (\<lambda>_.
        and_then (read_exact stream record_length) (\<lambda>(payload, stream). Ok (header, payload, stream)))))"

lemma read_record_ok:
  assumes "read_record w s = Ok (header, payload, rest)"
  shows "s = header @ payload @ rest \<and> length header = 5 \<and> payload \<noteq> [] \<and>
    w + length (header @ payload) \<le> MAX_CLIENT_HELLO_BYTES + 5 * 8"
  using assms by (fastforce simp: read_record_def Let_def and_then_ok_iff and_then_check dest!: read_exact_ok split: if_splits)

function read_client_hello_loop :: "bytes \<Rightarrow> bytes \<Rightarrow> bytes \<Rightarrow> sni_error + ((str \<times> bytes) \<times> bytes)" where
  "read_client_hello_loop wire handshake stream =
     (case read_record (length wire) stream of
        Inl e \<Rightarrow> Err e
      | Inr (header, payload, stream') \<Rightarrow>
          let wire = wire @ header @ payload; handshake = handshake @ payload
          in if length handshake < 4 then read_client_hello_loop wire handshake stream'
             else if handshake ! 0 \<noteq> 1 then Err NotClientHello
             else let n = be_decode (slice 1 4 handshake)
               in if n > MAX_CLIENT_HELLO_BYTES then Err ClientHelloTooLarge
                  else if length handshake < 4 + n then read_client_hello_loop wire handshake stream'
                  else and_then (parse_client_hello_sni (slice 4 (4 + n) handshake)) (\<lambda>hostname.
                         Ok ((hostname, wire), stream')))"
  by pat_completeness auto
termination
  by (relation "measure (\<lambda>(wire, handshake, stream). length stream)") (auto dest!: read_record_ok)

declare read_client_hello_loop.simps [simp del]

definition read_client_hello_sni :: "bytes \<Rightarrow> sni_error + ((str \<times> bytes) \<times> bytes)" where
  "read_client_hello_sni stream = read_client_hello_loop [] [] stream"

section \<open>No panic, nothing lost\<close>

text \<open>A result is settled when it is not a panic and its value, if any, has a given property.\<close>

definition settled :: "('a \<Rightarrow> bool) \<Rightarrow> sni_error + 'a \<Rightarrow> bool" where
  "settled P r \<longleftrightarrow> (case r of Inl e \<Rightarrow> e \<noteq> Panicked | Inr x \<Rightarrow> P x)"

lemma settled_simps [simp]: "settled P (Inl e) \<longleftrightarrow> e \<noteq> Panicked" "settled P (Inr x) \<longleftrightarrow> P x"
  by (simp_all add: settled_def)

lemma settled_and_then [intro]:
  "settled (\<lambda>_. True) r \<Longrightarrow> (\<And>x. r = Inr x \<Longrightarrow> settled P (f x)) \<Longrightarrow> settled P (and_then r f)"
  by (cases r) auto

lemma settled_check [simp]: "e \<noteq> Panicked \<Longrightarrow> settled (\<lambda>_. True) (check b e)"
  by (simp add: check_def)

lemma take_at_settled [simp]: "settled (\<lambda>_. True) (take_at input cursor n)"
  by (simp add: take_at_def split: option.split)

lemma read_u16_at_settled [simp]: "settled (\<lambda>_. True) (read_u16_at input cursor)"
  by (auto simp: read_u16_at_def)

lemma read_u8_at_settled [simp]: "settled (\<lambda>_. True) (read_u8_at input cursor)"
proof -
  have "take_at input cursor 1 = Ok (v, e) \<Longrightarrow> v \<noteq> []" for v e
    by (auto simp: take_at_ok slice_def)
  then have "take_at input cursor 1 = Ok (v, e) \<Longrightarrow> first_unwrap v = Ok (hd v)" for v e
    by (cases v) (auto simp: first_unwrap_def)
  then show ?thesis by (auto simp: read_u8_at_def)
qed

definition is_normal :: "str \<Rightarrow> bool" where
  "is_normal h \<longleftrightarrow> normalize_hostname h = Ok h"

lemma host_of_name_settled: "settled is_normal (host_of_name name)"
proof (cases "from_utf8 name")
  case (Some s)
  then have "valid_str s" using as_bytes_from_utf8 by blast
  with Some show ?thesis using normalize_hostname_fixed [of s]
    by (cases "normalize_hostname s") (auto simp: host_of_name_def is_normal_def)
qed (simp add: host_of_name_def)

lemma settled_case [intro]:
  "settled (\<lambda>_. True) r \<Longrightarrow> (\<And>x. r = Inr x \<Longrightarrow> settled P (f x)) \<Longrightarrow>
     settled P (case r of Inl e \<Rightarrow> Err e | Inr x \<Rightarrow> f x)"
  by (cases r) auto

lemma settled_weaken: "settled P r \<Longrightarrow> (\<And>x. P x \<Longrightarrow> Q x) \<Longrightarrow> settled Q r"
  by (cases r) auto

lemma sni_names_settled: "settled (\<lambda>h. case h of None \<Rightarrow> True | Some h \<Rightarrow> is_normal h) (sni_names vs cursor)"
proof (induction vs cursor rule: sni_names.induct)
  case (1 vs cursor)
  have "settled (\<lambda>h. case h of None \<Rightarrow> True | Some h \<Rightarrow> is_normal h) (and_then (host_of_name name) (\<lambda>h. Ok (Some h)))" for name
    using host_of_name_settled [of name] by (cases "host_of_name name") auto
  with 1 show ?case by (subst sni_names.simps) (auto simp: case_prod_unfold intro!: settled_case)
qed

lemma settledD: "settled P r \<Longrightarrow> r = Inl e \<Longrightarrow> e \<noteq> Panicked" "settled P r \<Longrightarrow> r = Inr x \<Longrightarrow> P x"
  by simp_all

lemma sni_extensions_settled: "settled is_normal (sni_extensions extensions cursor)"
proof (induction extensions cursor rule: sni_extensions.induct)
  case (1 extensions cursor)
  have long: "read_u16_at v 0 = Ok (n, c) \<Longrightarrow> \<not> length v < 2" for v n c using read_u16_at_ok [of v 0 n c] by simp
  show ?case
    using 1
    by (simp add: sni_extensions.simps [of extensions cursor] long split: sum.split prod.split option.split)
       (auto dest: settledD [OF take_at_settled] settledD [OF read_u16_at_settled] settledD(1) [OF sni_names_settled]
         settledD(2) [OF sni_names_settled, where x = "Some h" for h] long)
qed

lemma parse_settled: "settled is_normal (parse_client_hello_sni hello)"
  unfolding parse_client_hello_sni_def by (auto intro!: settled_and_then sni_extensions_settled)

lemma read_record_settled: "settled (\<lambda>_. True) (read_record w s)"
  unfolding read_record_def by (auto simp: read_exact_def Let_def intro!: settled_and_then)

definition hello_ok :: "bytes \<Rightarrow> (str \<times> bytes) \<times> bytes \<Rightarrow> bool" where
  "hello_ok s r \<longleftrightarrow> is_normal (fst (fst r)) \<and> length (snd (fst r)) \<le> MAX_CLIENT_HELLO_BYTES + 5 * 8 \<and>
     snd (fst r) @ snd r = s"

lemma read_loop_settled:
  "length wire \<le> MAX_CLIENT_HELLO_BYTES + 5 * 8 \<Longrightarrow>
   settled (hello_ok (wire @ stream)) (read_client_hello_loop wire handshake stream)"
proof (induction wire handshake stream rule: read_client_hello_loop.induct)
  case (1 wire handshake stream)
  show ?case
  proof (cases "read_record (length wire) stream")
    case (Inl e)
    then show ?thesis using read_record_settled [of "length wire" stream]
      by (subst read_client_hello_loop.simps) simp
  next
    case (Inr x)
    obtain hd pl rest where x: "x = (hd, pl, rest)" by (cases x)
    note rec = read_record_ok [OF Inr [unfolded x]]
    let ?w = "wire @ hd @ pl" and ?h = "handshake @ pl"
    have short: "length ?h < 4 \<Longrightarrow> settled (hello_ok (wire @ stream)) (read_client_hello_loop ?w ?h rest)"
      using 1(1) [OF Inr, of hd "(pl, rest)" pl rest ?w ?h] x rec by simp
    have more: "\<not> length ?h < 4 \<Longrightarrow> ?h ! 0 = 1 \<Longrightarrow> \<not> be_decode (slice 1 4 ?h) > MAX_CLIENT_HELLO_BYTES \<Longrightarrow>
        length ?h < 4 + be_decode (slice 1 4 ?h) \<Longrightarrow> settled (hello_ok (wire @ stream)) (read_client_hello_loop ?w ?h rest)"
      using 1(2) [OF Inr, of hd "(pl, rest)" pl rest ?w ?h "be_decode (slice 1 4 ?h)"] x rec by simp
    have last: "settled (hello_ok (wire @ stream)) (and_then (parse_client_hello_sni hello) (\<lambda>h. Ok ((h, ?w), rest)))" for hello
      using parse_settled [of hello] rec by (cases "parse_client_hello_sni hello") (auto simp: hello_ok_def)
    show ?thesis
      by (subst read_client_hello_loop.simps) (use short more last in \<open>simp add: Inr x Let_def del: append_assoc\<close>)
  qed
qed

end
