(* ===== verification/Sni_Reading.thy ===== *)
theory Sni_Reading
  imports Sni_Tunnel
begin

text \<open>
  What the SNI reader (\<^verbatim>\<open>linklake-server/src/sni_tunnel.rs\<close>) reads: ClientHello messages are written
  by an encoder that follows the TLS format, cut into handshake records at any places, and the
  reader gets back the normalised host name and exactly the bytes of the records. For arbitrary
  streams it never panics and never loses or invents a byte.
\<close>

section \<open>The wire format\<close>

definition put_u16 :: "nat \<Rightarrow> bytes" where
  "put_u16 n = be_encode 2 n"

fun put_name :: "u8 \<times> bytes \<Rightarrow> bytes" where
  "put_name (t, name) = t # put_u16 (length name) @ name"

definition put_server_names :: "(u8 \<times> bytes) list \<Rightarrow> bytes" where
  "put_server_names names = put_u16 (length (concat (map put_name names))) @ concat (map put_name names)"

fun put_extension :: "nat \<times> bytes \<Rightarrow> bytes" where
  "put_extension (kind, v) = put_u16 kind @ put_u16 (length v) @ v"

record client_hello =
  ch_head :: bytes
  ch_session :: bytes
  ch_ciphers :: bytes
  ch_compression :: bytes
  ch_extensions :: "(nat \<times> bytes) list"

definition put_hello :: "client_hello \<Rightarrow> bytes" where
  "put_hello c =
     ch_head c @ [of_nat (length (ch_session c))] @ ch_session c @
     put_u16 (length (ch_ciphers c)) @ ch_ciphers c @
     [of_nat (length (ch_compression c))] @ ch_compression c @
     (let e = concat (map put_extension (ch_extensions c)) in put_u16 (length e) @ e)"

definition hello_wf :: "client_hello \<Rightarrow> bool" where
  "hello_wf c \<longleftrightarrow> length (ch_head c) = 34 \<and> length (ch_session c) < 256 \<and>
     2 \<le> length (ch_ciphers c) \<and> even (length (ch_ciphers c)) \<and> length (ch_ciphers c) < 65536 \<and>
     0 < length (ch_compression c) \<and> length (ch_compression c) < 256 \<and>
     length (concat (map put_extension (ch_extensions c))) < 65536 \<and>
     list_all (\<lambda>(kind, v). kind < 65536) (ch_extensions c)"

definition put_message :: "client_hello \<Rightarrow> bytes" where
  "put_message c = 1 # be_encode 3 (length (put_hello c)) @ put_hello c"

definition put_record :: "u8 \<Rightarrow> bytes \<Rightarrow> bytes" where
  "put_record minor payload = [22, 3, minor] @ put_u16 (length payload) @ payload"

section \<open>Reads at a position\<close>

lemma take_at_mid:
  assumes "cursor = length pre" "n = length v" "length (pre @ v @ post) \<le> usize_max"
  shows "take_at (pre @ v @ post) cursor n = Ok (v, cursor + n)"
  using assms by (simp add: take_at_ok slice_def)

lemma read_u16_mid:
  assumes "cursor = length pre" "k < 65536" "length (pre @ put_u16 k @ post) \<le> usize_max"
  shows "read_u16_at (pre @ put_u16 k @ post) cursor = Ok (k, cursor + 2)"
  using take_at_mid [OF assms(1) _ assms(3), of 2] assms(2)
  by (simp add: read_u16_at_def put_u16_def be_decode_encode)

lemma read_u8_mid:
  assumes "cursor = length pre" "length (pre @ b # post) \<le> usize_max"
  shows "read_u8_at (pre @ b # post) cursor = Ok (unat b, cursor + 1)"
  using take_at_mid [OF assms(1), of 1 "[b]" post] assms(2) by (simp add: read_u8_at_def first_unwrap_def)

lemma length_put_u16 [simp]: "length (put_u16 n) = 2"
  by (simp add: put_u16_def)

section \<open>Names and extensions\<close>

lemma sni_names_step:
  assumes "cursor = length pre" "length name < 65536" "length (pre @ put_name (t, name) @ post) \<le> usize_max"
  shows "sni_names (pre @ put_name (t, name) @ post) cursor =
    (if t = 0 then and_then (host_of_name name) (\<lambda>h. Ok (Some h))
     else sni_names (pre @ put_name (t, name) @ post) (length (pre @ put_name (t, name))))"
proof -
  have 1: "read_u8_at (pre @ t # put_u16 (length name) @ name @ post) cursor = Ok (unat t, cursor + 1)"
    using assms by (intro read_u8_mid) auto
  have 2: "read_u16_at ((pre @ [t]) @ put_u16 (length name) @ name @ post) (cursor + 1) = Ok (length name, cursor + 3)"
    using assms read_u16_mid [of "cursor + 1" "pre @ [t]" "length name" "name @ post"] by simp
  have 3: "take_at ((pre @ t # put_u16 (length name)) @ name @ post) (cursor + 3) (length name) = Ok (name, cursor + 3 + length name)"
    using assms by (intro take_at_mid) auto
  show ?thesis
    using assms(1) 1 2 3
    by (subst sni_names.simps) (simp add: unsigned_eq_0_iff numeral_3_eq_3 add.commute add.left_commute)
qed

lemma sni_names_found:
  assumes "cursor = length pre" "list_all (\<lambda>(t, n). t \<noteq> 0 \<and> length n < 65536) skipped" "length name < 65536"
    "length (pre @ concat (map put_name skipped) @ put_name (0, name) @ post) \<le> usize_max"
  shows "sni_names (pre @ concat (map put_name skipped) @ put_name (0, name) @ post) cursor =
    and_then (host_of_name name) (\<lambda>h. Ok (Some h))"
  using assms
proof (induction skipped arbitrary: pre cursor)
  case Nil
  then show ?case using sni_names_step [of cursor pre name 0 post] by simp
next
  case (Cons x skipped)
  obtain t n where x: "x = (t, n)" by fastforce
  let ?rest = "concat (map put_name skipped) @ put_name (0, name) @ post"
  have "sni_names (pre @ put_name (t, n) @ ?rest) cursor = sni_names (pre @ put_name (t, n) @ ?rest) (length (pre @ put_name (t, n)))"
    using sni_names_step [of cursor pre n t ?rest] Cons.prems x by simp
  then show ?case using Cons.IH [of "length (pre @ put_name (t, n))" "pre @ put_name (t, n)"] Cons.prems x by simp
qed

lemma sni_extensions_step:
  assumes "cursor = length pre" "kind < 65536" "length v < 65536" "length (pre @ put_extension (kind, v) @ post) \<le> usize_max"
  shows "sni_extensions (pre @ put_extension (kind, v) @ post) cursor =
    (if kind \<noteq> 0 then sni_extensions (pre @ put_extension (kind, v) @ post) (length (pre @ put_extension (kind, v)))
     else case read_u16_at v 0 of Inl e \<Rightarrow> Err e | Inr (list_length, sni_cursor) \<Rightarrow>
       if length v < 2 then Err Panicked
       else if list_length \<noteq> length v - 2 then Err InvalidSniListLength
       else case sni_names v sni_cursor of Inl e \<Rightarrow> Err e | Inr (Some h) \<Rightarrow> Ok h
         | Inr None \<Rightarrow> sni_extensions (pre @ put_extension (kind, v) @ post) (length (pre @ put_extension (kind, v))))"
proof -
  let ?e = "pre @ put_extension (kind, v) @ post"
  have 1: "read_u16_at ?e cursor = Ok (kind, cursor + 2)"
    using assms read_u16_mid [of cursor pre kind "put_u16 (length v) @ v @ post"] by simp
  have 2: "read_u16_at ?e (cursor + 2) = Ok (length v, cursor + 4)"
    using assms read_u16_mid [of "cursor + 2" "pre @ put_u16 kind" "length v" "v @ post"] by simp
  have 3: "take_at ?e (cursor + 4) (length v) = Ok (v, cursor + 4 + length v)"
    using assms take_at_mid [of "cursor + 4" "pre @ put_u16 kind @ put_u16 (length v)" "length v" v post] by simp
  have len: "length (pre @ put_extension (kind, v)) = cursor + 4 + length v" "cursor < length ?e"
    using assms(1) by simp_all
  show ?thesis
    unfolding len(1) by (subst sni_extensions.simps) (simp only: 1 2 3 len(2) if_True sum.case prod.case)
qed

lemma sni_extensions_found:
  assumes "cursor = length pre" "list_all (\<lambda>(k, v). k \<noteq> 0 \<and> k < 65536 \<and> length v < 65536) before"
    "list_all (\<lambda>(t, n). t \<noteq> 0 \<and> length n < 65536) skipped" "length name < 65536"
    "v = put_server_names (skipped @ (0, name) # others)" "length v < 65536"
    "length (pre @ concat (map put_extension before) @ put_extension (0, v) @ post) \<le> usize_max"
  shows "sni_extensions (pre @ concat (map put_extension before) @ put_extension (0, v) @ post) cursor = host_of_name name"
  using assms(1,2,7)
proof (induction before arbitrary: pre cursor)
  case Nil
  let ?names = "concat (map put_name skipped) @ put_name (0, name) @ concat (map put_name others)"
  have v: "v = put_u16 (length ?names) @ ?names" using assms(5) by (simp add: put_server_names_def)
  have small: "length v \<le> usize_max" using assms(6) by (simp add: usize_max_def)
  have "read_u16_at v 0 = Ok (length ?names, 2)"
    using read_u16_mid [of 0 "[]" "length ?names" ?names] assms(6) small v by simp
  moreover have "sni_names v 2 = and_then (host_of_name name) (\<lambda>h. Ok (Some h))"
    using sni_names_found [of 2 "put_u16 (length ?names)" skipped name "concat (map put_name others)"] assms(3,4) small v
    by simp
  moreover have "length v = length ?names + 2" using v by simp
  ultimately show ?case
    using sni_extensions_step [of cursor pre 0 v post] Nil assms(6) by (cases "host_of_name name") auto
next
  case (Cons x before)
  obtain k u where x: "x = (k, u)" by fastforce
  let ?rest = "concat (map put_extension before) @ put_extension (0, v) @ post"
  have "sni_extensions (pre @ put_extension (k, u) @ ?rest) cursor =
      sni_extensions (pre @ put_extension (k, u) @ ?rest) (length (pre @ put_extension (k, u)))"
    using sni_extensions_step [of cursor pre k u ?rest] Cons.prems x by simp
  then show ?case using Cons.IH [of "length (pre @ put_extension (k, u))" "pre @ put_extension (k, u)"] Cons.prems x by simp
qed

section \<open>The whole message\<close>

lemma byte_roundtrip: "n < 256 \<Longrightarrow> unat (of_nat n :: u8) = n"
  by (simp add: unat_of_nat)

lemma parse_put_hello:
  assumes "hello_wf c"
  shows "parse_client_hello_sni (put_hello c) = sni_extensions (concat (map put_extension (ch_extensions c))) 0"
proof -
  let ?h = "put_hello c" and ?e = "concat (map put_extension (ch_extensions c))"
  let ?s = "ch_session c" and ?c = "ch_ciphers c" and ?m = "ch_compression c"
  have wf: "length (ch_head c) = 34" "length ?s < 256" "2 \<le> length ?c" "even (length ?c)" "length ?c < 65536"
    "0 < length ?m" "length ?m < 256" "length ?e < 65536"
    using assms by (auto simp: hello_wf_def)
  have h: "?h = ch_head c @ of_nat (length ?s) # ?s @ put_u16 (length ?c) @ ?c @ of_nat (length ?m) # ?m @ put_u16 (length ?e) @ ?e"
    by (simp add: put_hello_def Let_def)
  have len: "length ?h = 40 + length ?s + length ?c + length ?m + length ?e" unfolding h using wf(1) by simp
  then have small: "length ?h \<le> usize_max" using wf by (simp add: usize_max_def)
  let ?q = "length ?s" and ?r = "length ?c" and ?t = "length ?m"
  define t5 where "t5 = of_nat ?t # ?m @ put_u16 (length ?e) @ ?e"
  define t3 where "t3 = put_u16 ?r @ ?c @ t5"
  have h3: "?h = (ch_head c @ of_nat ?q # ?s) @ t3" unfolding h t3_def t5_def by simp
  have h5: "?h = (ch_head c @ of_nat ?q # ?s @ put_u16 ?r @ ?c) @ t5" unfolding h t5_def by simp
  have r1: "take_at ?h 0 34 = Ok (ch_head c, 34)"
    using take_at_mid [of 0 "[]" 34 "ch_head c" "of_nat ?q # ?s @ t3"] wf(1) small h3 by simp
  have r2: "read_u8_at ?h 34 = Ok (?q, 35)"
    using read_u8_mid [of 34 "ch_head c" "of_nat ?q" "?s @ t3"] wf(1,2) small h3 by (simp add: byte_roundtrip)
  have r3: "take_at ?h 35 ?q = Ok (?s, 35 + ?q)"
    using take_at_mid [of 35 "ch_head c @ [of_nat ?q]" ?q ?s t3] wf(1) small h3 by simp
  have r4: "read_u16_at ?h (35 + ?q) = Ok (?r, 37 + ?q)"
    using read_u16_mid [of "35 + ?q" "ch_head c @ of_nat ?q # ?s" ?r "?c @ t5"] wf(1,5) small h3 by (simp add: t3_def)
  have r5: "take_at ?h (37 + ?q) ?r = Ok (?c, 37 + ?q + ?r)"
    using take_at_mid [of "37 + ?q" "ch_head c @ of_nat ?q # ?s @ put_u16 ?r" ?r ?c t5] wf(1) small h5 by simp
  have r6: "read_u8_at ?h (37 + ?q + ?r) = Ok (?t, 38 + ?q + ?r)"
    using read_u8_mid [of "37 + ?q + ?r" "ch_head c @ of_nat ?q # ?s @ put_u16 ?r @ ?c" "of_nat ?t" "?m @ put_u16 (length ?e) @ ?e"]
      wf(1,7) small h5 by (simp add: t5_def byte_roundtrip)
  have r7: "take_at ?h (38 + ?q + ?r) ?t = Ok (?m, 38 + ?q + ?r + ?t)"
    using take_at_mid [of "38 + ?q + ?r" "ch_head c @ of_nat ?q # ?s @ put_u16 ?r @ ?c @ [of_nat ?t]" ?t ?m "put_u16 (length ?e) @ ?e"]
      wf(1) small h5 by (simp add: t5_def)
  have r8: "read_u16_at ?h (38 + ?q + ?r + ?t) = Ok (length ?e, 40 + ?q + ?r + ?t)"
    using read_u16_mid [of "38 + ?q + ?r + ?t" "ch_head c @ of_nat ?q # ?s @ put_u16 ?r @ ?c @ of_nat ?t # ?m" "length ?e" ?e]
      wf(1,8) small h5 by (simp add: t5_def)
  have r9: "take_at ?h (40 + ?q + ?r + ?t) (length ?e) = Ok (?e, length ?h)"
    using take_at_mid [of "40 + ?q + ?r + ?t" "ch_head c @ of_nat ?q # ?s @ put_u16 ?r @ ?c @ of_nat ?t # ?m @ put_u16 (length ?e)" "length ?e" ?e "[]"]
      wf(1) small h5 len by (simp add: t5_def)
  have "parse_client_hello_sni ?h = and_then (check (length ?h = length ?h) TrailingBytes) (\<lambda>_. sni_extensions ?e 0)"
    unfolding parse_client_hello_sni_def using wf(3,4,6)
    by (simp only: r1 r2 r3 r4 r5 r6 r7 r8 r9 and_then_simps prod.case numeral_plus_numeral add_num_simps
      and_then_check even_iff_mod_2_eq_zero if_True simp_thms) simp
  then show ?thesis by simp
qed

section \<open>Cut into records\<close>

definition record_ok :: "u8 \<times> bytes \<Rightarrow> bool" where
  "record_ok x \<longleftrightarrow> snd x \<noteq> [] \<and> length (snd x) \<le> MAX_TLS_RECORD_BYTES"

abbreviation put_records :: "(u8 \<times> bytes) list \<Rightarrow> bytes" where
  "put_records rs \<equiv> concat (map (\<lambda>(minor, payload). put_record minor payload) rs)"

lemma read_put_record:
  assumes "record_ok (minor, payload)" "w + length (put_record minor payload) \<le> MAX_CLIENT_HELLO_BYTES + 5 * 8"
  shows "read_record w (put_record minor payload @ rest) = Ok ([22, 3, minor] @ put_u16 (length payload), payload, rest)"
proof -
  let ?h = "[22, 3, minor] @ put_u16 (length payload)"
  have bound: "length payload < 65536" using assms(1) by (simp add: record_ok_def MAX_TLS_RECORD_BYTES_def)
  have "read_exact (put_record minor payload @ rest) 5 = Ok (?h, payload @ rest)"
    by (simp add: read_exact_def put_record_def)
  moreover have "be_decode (drop 3 ?h) = length payload"
    using bound by (simp add: put_u16_def be_decode_encode)
  moreover have "read_exact (payload @ rest) (length payload) = Ok (payload, rest)" by (simp add: read_exact_def)
  moreover have "w + 5 + length payload \<le> MAX_CLIENT_HELLO_BYTES + 5 * 8" using assms(2) by (simp add: put_record_def)
  ultimately show ?thesis using assms(1) by (simp add: read_record_def Let_def record_ok_def)
qed

lemma message_prefix:
  assumes "put_message c @ extra = hs @ rest" "4 \<le> length hs" "length (put_hello c) \<le> MAX_CLIENT_HELLO_BYTES"
  shows "hs ! 0 = 1" "be_decode (slice 1 4 hs) = length (put_hello c)"
    "length (put_message c) \<le> length hs \<Longrightarrow> slice 4 (4 + length (put_hello c)) hs = put_hello c"
proof -
  let ?n = "length (put_hello c)"
  have m: "put_message c = 1 # be_encode 3 ?n @ put_hello c" by (simp add: put_message_def)
  have "hs ! 0 = (put_message c @ extra) ! 0" using assms(1,2) by (cases hs) auto
  then show "hs ! 0 = 1" by (simp add: m)
  have "slice 1 4 hs = slice 1 4 (put_message c @ extra)" using assms(1,2) by (simp add: slice_def)
  also have "\<dots> = be_encode 3 ?n" by (simp add: m slice_def)
  finally show "be_decode (slice 1 4 hs) = ?n"
    using assms(3) by (simp add: be_decode_encode MAX_CLIENT_HELLO_BYTES_def)
  assume "length (put_message c) \<le> length hs"
  then have "slice 4 (4 + ?n) hs = slice 4 (4 + ?n) (put_message c @ extra)" using assms(1) by (simp add: slice_def m)
  also have "\<dots> = put_hello c" by (simp add: m slice_def)
  finally show "slice 4 (4 + ?n) hs = put_hello c" .
qed

lemma read_loop_records:
  assumes "list_all record_ok rs" "rs \<noteq> []" "length (wire @ put_records rs) \<le> MAX_CLIENT_HELLO_BYTES + 5 * 8"
    "length (put_hello c) \<le> MAX_CLIENT_HELLO_BYTES"
    "hs @ concat (map snd rs) = put_message c @ extra"
    "length (hs @ concat (map snd (butlast rs))) < length (put_message c)"
  shows "read_client_hello_loop wire hs (put_records rs @ rest) =
    and_then (parse_client_hello_sni (put_hello c)) (\<lambda>h. Ok ((h, wire @ put_records rs), rest))"
  using assms
proof (induction rs arbitrary: wire hs)
  case (Cons r rs)
  obtain minor p where r: "r = (minor, p)" by fastforce
  let ?hd = "[22, 3, minor] @ put_u16 (length p)" and ?w = "wire @ put_record minor p" and ?h = "hs @ p"
  have rec: "read_record (length wire) (put_records (r # rs) @ rest) = Ok (?hd, p, put_records rs @ rest)"
    using read_put_record [of minor p "length wire" "put_records rs @ rest"] Cons.prems r by simp
  have w: "?w = wire @ ?hd @ p" by (simp add: put_record_def)
  have msg: "put_message c @ extra = ?h @ concat (map snd rs)" using Cons.prems(5) r by simp
  have len: "length (put_message c) = 4 + length (put_hello c)" by (simp add: put_message_def)
  have last: "rs = [] \<longleftrightarrow> length (put_message c) \<le> length ?h"
    using Cons.prems(6) r arg_cong [OF msg, of length] by (cases rs) auto
  have again: "read_client_hello_loop ?w ?h (put_records rs @ rest) =
      and_then (parse_client_hello_sni (put_hello c)) (\<lambda>h. Ok ((h, wire @ put_records (r # rs)), rest))"
    if "rs \<noteq> []"
    using Cons.IH [of ?w ?h] Cons.prems r that by (simp add: add.assoc)
  note prefix = message_prefix [OF msg _ Cons.prems(4)]
  show ?case
  proof (cases "rs = []")
    case True
    then have "4 \<le> length ?h" "length (put_message c) \<le> length ?h" using last len by auto
    then show ?thesis
      using rec prefix True r w len Cons.prems(4) by (subst read_client_hello_loop.simps) (simp add: Let_def not_less put_record_def)
  next
    case False
    then have "length ?h < 4 + length (put_hello c)" using last len by simp
    with False show ?thesis
      using rec prefix again w Cons.prems(4)
      by (subst read_client_hello_loop.simps) (auto simp add: Let_def not_less)
  qed
qed simp

section \<open>Properties\<close>

lemma length_concat_member: "x \<in> set xs \<Longrightarrow> length (f x) \<le> length (concat (map f xs))"
  by (induction xs) auto

lemma put_pieces_small:
  assumes "length (concat (map put_extension es)) < 65536" "(k, v) \<in> set es"
  shows "length v < 65536"
  using length_concat_member [OF assms(2), of put_extension] assms(1) by simp

lemma put_names_small:
  assumes "length (put_server_names names) < 65536" "(t, n) \<in> set names"
  shows "length n < 65536"
  using length_concat_member [OF assms(2), of put_name] assms(1) by (simp add: put_server_names_def)

text \<open>
  C35: whatever records a ClientHello is cut into, and whatever follows it, the reader answers with
  the first host name of its first server-name extension, checked and normalised, with exactly the
  bytes of the records as the bytes to replay, and leaves the rest of the stream unread.
\<close>

theorem sni_read_from_any_records:
  assumes "hello_wf c" "length (put_hello c) \<le> MAX_CLIENT_HELLO_BYTES"
    "ch_extensions c = before @ (0, put_server_names (skipped @ (0, name) # others)) # behind"
    "list_all (\<lambda>(kind, v). kind \<noteq> 0) before" "list_all (\<lambda>(t, n). t \<noteq> 0) skipped"
    "list_all record_ok rs" "concat (map snd rs) = put_message c @ extra"
    "length (concat (map snd (butlast rs))) < length (put_message c)"
    "length (put_records rs) \<le> MAX_CLIENT_HELLO_BYTES + 5 * 8"
  shows "read_client_hello_sni (put_records rs @ rest) =
    and_then (host_of_name name) (\<lambda>h. Ok ((h, put_records rs), rest))"
proof -
  let ?v = "put_server_names (skipped @ (0, name) # others)" and ?e = "concat (map put_extension (ch_extensions c))"
  have e: "length ?e < 65536" using assms(1) by (simp add: hello_wf_def)
  have v: "length ?v < 65536" using put_pieces_small [OF e, of 0 ?v] assms(3) by simp
  have names: "length name < 65536" "list_all (\<lambda>(t, n). t \<noteq> 0 \<and> length n < 65536) skipped"
    using put_names_small [OF v] assms(5) by (auto simp: list_all_iff)
  have before: "list_all (\<lambda>(k, v). k \<noteq> 0 \<and> k < 65536 \<and> length v < 65536) before"
    using put_pieces_small [OF e] assms(1,3,4) by (fastforce simp: list_all_iff hello_wf_def)
  have "sni_extensions ?e 0 = host_of_name name"
    using sni_extensions_found [of 0 "[]" before skipped name ?v others "concat (map put_extension behind)"]
      before names v e assms(3) by (simp add: usize_max_def)
  moreover have "rs \<noteq> []" using assms(7) by (auto simp: put_message_def)
  ultimately show ?thesis
    using read_loop_records [of rs "[]" c "[]" extra rest] assms parse_put_hello by (simp add: read_client_hello_sni_def)
qed

definition sample_hello :: client_hello where
  "sample_hello = \<lparr> ch_head = replicate 34 0, ch_session = [], ch_ciphers = [0x13, 0x01], ch_compression = [0],
     ch_extensions = [(11, [1]), (0, put_server_names [(0, [87, 46, 120])])] \<rparr>"

definition sample_records :: "(u8 \<times> bytes) list" where
  "sample_records = [(1, [1]), (3, drop 1 (put_message sample_hello))]"

lemma sample_not_ip: "parse_ipv4 [119, 46, 120] = None" "parse_ipv6 [119, 46, 120] = None"
proof -
  have digit: "digit_of radix 119 = None" for radix by (simp add: digit_of_def hex_digit_def)
  have "read_octets 0 (Suc 3) [119, 46, 120] = None"
    unfolding read_octets.simps by (simp add: read_separator_def read_number_def digit)
  then have v4: "read_ipv4_addr [119, 46, 120] = None" by (simp add: read_ipv4_addr_def)
  then show "parse_ipv4 [119, 46, 120] = None" by (simp add: parse_ipv4_def)
  have "read_groups 0 (Suc 7) [119, 46, 120] = ([], False, [119, 46, 120])"
    unfolding read_groups.simps by (simp add: read_separator_def read_number_def digit v4)
  then show "parse_ipv6 [119, 46, 120] = None" by (simp add: parse_ipv6_def read_ipv6_addr_def read_given_char_def)
qed

lemma sample_host: "host_of_name [87, 46, 120] = Ok [119, 46, 120]"
proof -
  have "trim [87, 46, 120] = [87, 46, 120]" by (simp add: text_eval)
  moreover have "pop_dots [119, 46, 120] = [119, 46, 120]" by (subst pop_dots.simps) simp
  moreover have "strip_port [119, 46, 120] = [119, 46, 120]" by (simp add: strip_port_def rsplit_once_def)
  moreover have "label_ok [119]" "label_ok [120]"
    by (simp_all add: label_ok_def byte_is_alphanumeric_def byte_is_digit_def is_digit_def text_eval)
  ultimately show ?thesis
    by (simp add: host_of_name_def normalize_hostname_def to_ascii_lowercase_def starts_with_def sample_not_ip
      is_whitespace_def utf8_char_def)
qed

theorem sni_read_from_any_records_witness:
  "read_client_hello_sni (put_records sample_records @ [9]) = Ok (([119, 46, 120], put_records sample_records), [9])"
proof -
  have "concat (map snd sample_records) = put_message sample_hello @ []"
    by (simp add: sample_records_def put_message_def)
  moreover have "hello_wf sample_hello"
    by (simp add: hello_wf_def sample_hello_def put_server_names_def put_u16_def)
  ultimately show ?thesis
    using sni_read_from_any_records [of sample_hello "[(11, [1])]" "[]" "[87, 46, 120]" "[]" "[]" sample_records "[]" "[9]"] sample_host
    by (simp add: sample_records_def record_ok_def put_message_def put_record_def put_hello_def sample_hello_def
      put_server_names_def put_u16_def MAX_CLIENT_HELLO_BYTES_def MAX_TLS_RECORD_BYTES_def Let_def)
qed

text \<open>
  C36: on every stream the reader ends without a panic; when it answers, the bytes to replay
  followed by the unread rest are the stream, there are at most \<open>64 * 1024 + 40\<close> of them, and the
  host name is in normal form, so that it can be looked up as it is.
\<close>

theorem sni_reader_total_and_lossless:
  "case read_client_hello_sni s of
     Inl e \<Rightarrow> e \<noteq> Panicked
   | Inr ((h, wire), rest) \<Rightarrow> wire @ rest = s \<and> length wire \<le> 65576 \<and> normalize_hostname h = Ok h"
  using read_loop_settled [of "[]" s "[]"]
  by (auto simp: read_client_hello_sni_def settled_def hello_ok_def is_normal_def MAX_CLIENT_HELLO_BYTES_def split: sum.splits)

end
