(* ===== verification/Ip_Text.thy ===== *)
theory Ip_Text
  imports Rust_Net
begin

text \<open>
  The texts of IP addresses as the standard library writes them (\<open>Display\<close> of \<open>Ipv4Addr\<close>,
  \<open>Ipv6Addr\<close> and \<open>IpAddr\<close>) and reads them (\<open>FromStr\<close> of \<open>IpAddr\<close>), with the round trip that the
  stored forms of address rules rest on.
\<close>

section \<open>Writing\<close>

definition hex_char :: "nat \<Rightarrow> nat" where
  "hex_char d = (if d < 10 then 48 + d else 87 + d)"

fun hex_text :: "nat \<Rightarrow> str" where
  "hex_text n = (if n < 16 then [hex_char n] else hex_text (n div 16) @ [hex_char (n mod 16)])"

declare hex_text.simps [simp del]

definition octets :: "u32 \<Rightarrow> nat list" where
  "octets a = (let n = unat a in [n div 16777216, n div 65536 mod 256, n div 256 mod 256, n mod 256])"

definition ipv4_to_string :: "u32 \<Rightarrow> str" where
  "ipv4_to_string a = join [46] (map nat_to_string (octets a))"

definition segments :: "u128 \<Rightarrow> nat list" where
  "segments a = map (\<lambda>i. unat a div 65536 ^ (7 - i) mod 65536) [0..<8]"

text \<open>The first of the longest runs of zero segments: its start and its length.\<close>

fun longest_zeroes :: "nat \<Rightarrow> nat list \<Rightarrow> nat \<times> nat \<Rightarrow> nat \<times> nat \<Rightarrow> nat \<times> nat" where
  "longest_zeroes i [] current longest = longest"
| "longest_zeroes i (s # ss) current longest =
     (if s = 0 then
        let current = (if snd current = 0 then i else fst current, snd current + 1)
        in longest_zeroes (i + 1) ss current (if snd current > snd longest then current else longest)
      else longest_zeroes (i + 1) ss (0, 0) longest)"

definition fmt_subslice :: "nat list \<Rightarrow> str" where
  "fmt_subslice gs = join [58] (map hex_text gs)"

definition ipv6_to_string :: "u128 \<Rightarrow> str" where
  "ipv6_to_string a =
     (let s = segments a
      in if take 6 s = [0, 0, 0, 0, 0, 0xFFFF]
         then [58, 58, 102, 102, 102, 102, 58] @ ipv4_to_string (of_nat (unat a mod 4294967296))
         else case longest_zeroes 0 s (0, 0) (0, 0) of (start, n) \<Rightarrow>
           if n > 1 then fmt_subslice (take start s) @ [58, 58] @ fmt_subslice (drop (start + n) s)
           else fmt_subslice s)"

definition ip_to_string :: "ip_addr \<Rightarrow> str" where
  "ip_to_string a = (case a of V4 a \<Rightarrow> ipv4_to_string a | V6 a \<Rightarrow> ipv6_to_string a)"

section \<open>Reading\<close>

definition parse_ip :: "str \<Rightarrow> ip_addr option" where
  "parse_ip s =
     (case read_ipv4_addr s of
        Some (a, r) \<Rightarrow> if r = [] then Some (V4 a) else None
      | None \<Rightarrow> map_option V6 (parse_ipv6 s))"

section \<open>Digits\<close>

lemma hex_digit_char: "d < 16 \<Longrightarrow> hex_digit (hex_char d) = Some d"
  by (auto simp: hex_digit_def hex_char_def)

lemma digit_of_sep [simp]: "digit_of radix 46 = None" "digit_of radix 58 = None"
  by (simp_all add: digit_of_def hex_digit_def)

lemma take_digits_rest:
  "r = [] \<or> digit_of radix (hd r) = None \<Longrightarrow> take_digits radix (s @ r) = (case take_digits radix s of (ds, q) \<Rightarrow> (ds, q @ r))"
proof (induction s)
  case Nil
  then show ?case by (cases r) auto
next
  case (Cons c s)
  then show ?case by (auto split: option.split prod.split)
qed

lemma take_digits_all: "list_all (\<lambda>c. digit_of radix c \<noteq> None) s \<Longrightarrow> take_digits radix s = (map (the \<circ> digit_of radix) s, [])"
  by (induction s) auto

lemma take_digits_suffix: "take_digits radix s = (ds, q) \<Longrightarrow> set q \<subseteq> set s"
  by (induction s arbitrary: ds) (auto split: option.splits prod.splits)

lemma hex_text_digits: "list_all (\<lambda>c. digit_of 16 c \<noteq> None) (hex_text n) \<and>
    foldl (\<lambda>acc d. acc * 16 + d) 0 (map (the \<circ> digit_of 16) (hex_text n)) = n \<and> hex_text n \<noteq> []"
proof (induction n rule: hex_text.induct)
  case (1 n)
  have last: "digit_of 16 (hex_char d) = Some d" if "d < 16" for d using that by (simp add: digit_of_def hex_digit_char)
  show ?case
  proof (cases "n < 16")
    case True
    then show ?thesis by (subst (1 2 3) hex_text.simps) (simp add: last)
  next
    case False
    with 1 last [of "n mod 16"] show ?thesis by (subst (1 2 3) hex_text.simps) (simp add: comp_def)
  qed
qed

lemma hex_text_length: "n < 16 ^ Suc k \<Longrightarrow> length (hex_text n) \<le> Suc k"
proof (induction k arbitrary: n)
  case 0
  then show ?case by (subst hex_text.simps) simp
next
  case (Suc k)
  have "n div 16 < 16 ^ Suc k" using Suc.prems by (simp add: less_mult_imp_div_less)
  then have "length (hex_text (n div 16)) \<le> Suc k" by (rule Suc.IH)
  then show ?case by (subst hex_text.simps) simp
qed

lemma hex_text_no_dot: "46 \<notin> set (hex_text n)" "58 \<notin> set (hex_text n)"
  using hex_text_digits [of n] by (auto simp: list_all_iff)

lemma read_hex_group:
  assumes "g < 65536" "r = [] \<or> hd r = 58"
  shows "read_number 16 4 True 65535 (hex_text g @ r) = Some (g, r)"
proof -
  have "take_digits 16 (hex_text g @ r) = (map (the \<circ> digit_of 16) (hex_text g), r)"
    using take_digits_rest [of r 16 "hex_text g"] take_digits_all [of 16 "hex_text g"] hex_text_digits [of g] assms(2) by auto
  moreover have "length (hex_text g) \<le> 4" using hex_text_length [of g 3] assms(1) by simp
  ultimately show ?thesis using hex_text_digits [of g] assms(1) by (simp add: read_number_def)
qed

text \<open>A text that is not an IPv4 address, because its first number is not followed by a dot.\<close>

lemma read_ipv4_none:
  assumes "46 \<notin> set s" "r = [] \<or> hd r = 58"
  shows "read_ipv4_addr (s @ r) = None"
proof -
  obtain ds q where q: "take_digits 10 s = (ds, q)" by fastforce
  have t: "take_digits 10 (s @ r) = (ds, q @ r)" using take_digits_rest [of r 10 s] assms(2) q by auto
  have "46 \<notin> set q" using take_digits_suffix [OF q] assms(1) by auto
  then have "read_given_char 46 (q @ r) = None"
    using assms(2) by (cases q; cases r) (auto simp: read_given_char_def)
  then have "read_octets (Suc 0) (Suc 2) (q @ r) = None" unfolding read_octets.simps by (simp add: read_separator_def)
  then have "read_octets 0 (Suc 3) (s @ r) = None"
    by (subst read_octets.simps) (use t in \<open>auto simp: read_separator_def read_number_def Let_def\<close>)
  then show ?thesis by (simp add: read_ipv4_addr_def)
qed

lemma read_ipv4_hex: "r = [] \<or> hd r = 58 \<Longrightarrow> read_ipv4_addr (hex_text g @ r) = None"
  by (rule read_ipv4_none) (simp_all add: hex_text_no_dot)

section \<open>Groups\<close>

lemma read_group_here:
  assumes "g < 65536" "r = [] \<or> hd r = 58"
  shows "read_groups 0 (Suc n) (hex_text g @ r) = (let (gs, b, r') = read_groups 1 n r in (g # gs, b, r'))"
  using assms by (simp add: read_separator_def read_hex_group read_ipv4_hex)

lemma read_group_next:
  assumes "g < 65536" "r = [] \<or> hd r = 58" "0 < i"
  shows "read_groups i (Suc n) (58 # hex_text g @ r) = (let (gs, b, r') = read_groups (Suc i) n r in (g # gs, b, r'))"
  using assms by (simp add: read_separator_def read_given_char_def read_hex_group read_ipv4_hex)

text \<open>Reading stops at the end of the text and at a second colon.\<close>

lemma read_groups_stop:
  assumes "0 < i" "r = [] \<or> take 2 r = [58, 58]"
  shows "read_groups i n r = ([], False, r)"
proof (cases n)
  case (Suc m)
  have "read_ipv4_addr (58 # t) = None" "read_number 16 4 True 65535 (58 # t) = None" for t
    using read_ipv4_none [of "[]" "58 # t"] by (simp_all add: read_number_def)
  then show ?thesis using assms Suc by (cases r; cases "tl r") (auto simp: read_separator_def read_given_char_def)
qed simp

lemma read_more_groups:
  assumes "list_all (\<lambda>g. g < 65536) gs" "length gs \<le> n" "0 < i" "r = [] \<or> take 2 r = [58, 58]"
  shows "read_groups i n (concat (map (\<lambda>g. 58 # hex_text g) gs) @ r) = (gs, False, r)"
  using assms
proof (induction gs arbitrary: i n)
  case Nil
  then show ?case by (simp add: read_groups_stop)
next
  case (Cons g gs)
  obtain m where n: "n = Suc m" using Cons.prems(2) by (cases n) auto
  let ?t = "concat (map (\<lambda>g. 58 # hex_text g) gs) @ r"
  have "?t = [] \<or> hd ?t = 58" using Cons.prems(4) by (cases gs; cases r) auto
  then have "read_groups i (Suc m) (58 # hex_text g @ ?t) = (let (gs, b, r') = read_groups (Suc i) m ?t in (g # gs, b, r'))"
    using Cons.prems by (intro read_group_next) auto
  with Cons.IH [of m "Suc i"] Cons.prems n show ?case by simp
qed

lemma fmt_subslice_Cons: "fmt_subslice (g # gs) = hex_text g @ concat (map (\<lambda>g. 58 # hex_text g) gs)"
  by (induction gs arbitrary: g) (simp_all add: fmt_subslice_def)

lemma read_fmt_subslice:
  assumes "list_all (\<lambda>g. g < 65536) gs" "length gs \<le> n" "r = [] \<or> take 2 r = [58, 58]"
  shows "read_groups 0 n (fmt_subslice gs @ r) = (gs, False, r)"
proof (cases gs)
  case Nil
  have "read_ipv4_addr r = None" "read_number 16 4 True 65535 r = None"
    using assms(3) read_ipv4_none [of "[]" r] by (cases r; auto simp: read_number_def)+
  with Nil show ?thesis by (cases n) (simp_all add: fmt_subslice_def read_separator_def)
next
  case (Cons g hs)
  then obtain m where n: "n = Suc m" using assms(2) by (cases n) auto
  let ?t = "concat (map (\<lambda>g. 58 # hex_text g) hs) @ r"
  have "?t = [] \<or> hd ?t = 58" using assms(3) by (cases hs; cases r) auto
  then have "read_groups 0 (Suc m) (hex_text g @ ?t) = (let (gs, b, r') = read_groups 1 m ?t in (g # gs, b, r'))"
    using assms Cons by (intro read_group_here) auto
  with read_more_groups [of hs m 1 r] assms Cons n show ?thesis by (simp add: fmt_subslice_Cons)
qed

section \<open>IPv4\<close>

lemma digit_of_decimal: "d < 10 \<Longrightarrow> digit_of 10 (48 + d) = Some d"
  by (simp add: digit_of_def hex_digit_def)

lemma decimal_forms:
  assumes "x < 256"
  shows "nat_to_string x = (if x < 10 then [48 + x] else if x < 100 then [48 + x div 10, 48 + x mod 10]
    else [48 + x div 100, 48 + x div 10 mod 10, 48 + x mod 10])"
proof -
  have "x < 10 \<Longrightarrow> nat_to_string x = [48 + x]" for x by (subst nat_to_string.simps) simp
  moreover from this have "10 \<le> x \<Longrightarrow> x < 100 \<Longrightarrow> nat_to_string x = [48 + x div 10, 48 + x mod 10]" for x
    by (subst nat_to_string.simps) (simp add: less_mult_imp_div_less)
  moreover from this have "100 \<le> x \<Longrightarrow> x < 1000 \<Longrightarrow> nat_to_string x = [48 + x div 100, 48 + x div 10 mod 10, 48 + x mod 10]" for x
    by (subst nat_to_string.simps) (simp add: less_mult_imp_div_less div_mult2_eq [symmetric])
  ultimately show ?thesis using assms by auto
qed

lemma read_decimal:
  assumes "x < 256" "r = [] \<or> digit_of 10 (hd r) = None"
  shows "read_number 10 3 False 255 (nat_to_string x @ r) = Some (x, r)"
proof -
  define ds where "ds = (if x < 10 then [x] else if x < 100 then [x div 10, x mod 10]
    else [x div 100, x div 10 mod 10, x mod 10])"
  have "nat_to_string x = map (\<lambda>d. 48 + d) ds" "list_all (\<lambda>d. d < 10) ds"
    using decimal_forms [OF assms(1)] assms(1) by (auto simp: ds_def less_mult_imp_div_less)
  moreover have "list_all (\<lambda>d. d < 10) ds \<Longrightarrow> take_digits 10 (map (\<lambda>d. 48 + d) ds) = (ds, [])" for ds
    by (induction ds) (auto simp: digit_of_decimal)
  ultimately have "take_digits 10 (nat_to_string x @ r) = (ds, r)" using take_digits_rest [OF assms(2)] by simp
  moreover have "x div 100 * 10 + x div 10 mod 10 = x div 10"
    using div_mult_mod_eq [of "x div 10" 10] by (simp add: div_mult2_eq [symmetric])
  then have "foldl (\<lambda>acc d. acc * 10 + d) 0 ds = x"
    using div_mult_mod_eq [of x 10] by (simp add: ds_def)
  moreover have "ds \<noteq> []" "length ds \<le> 3" "length ds > 1 \<Longrightarrow> hd ds \<noteq> 0" by (auto simp: ds_def)
  ultimately show ?thesis using assms(1) by (auto simp: read_number_def not_less)
qed

lemma read_octets_text:
  assumes "list_all (\<lambda>x. x < 256) os" "0 < i" "r = [] \<or> digit_of 10 (hd r) = None"
  shows "read_octets i (length os) (concat (map (\<lambda>x. 46 # nat_to_string x) os) @ r) = Some (os, r)"
  using assms
proof (induction os arbitrary: i)
  case (Cons x os)
  let ?t = "concat (map (\<lambda>x. 46 # nat_to_string x) os) @ r"
  have "?t = [] \<or> digit_of 10 (hd ?t) = None" using Cons.prems(3) by (cases os) auto
  then have "read_number 10 3 False 255 (nat_to_string x @ ?t) = Some (x, ?t)" using Cons.prems(1) by (intro read_decimal) auto
  with Cons.IH [of "Suc i"] Cons.prems show ?case by (simp add: read_separator_def read_given_char_def)
qed simp

lemma octets_small: "list_all (\<lambda>x. x < 256) (octets a)" and octets_length: "length (octets a) = 4"
proof -
  have "unat a < 256 * 16777216" using unsigned_less [of a] by simp
  then have "unat a div 16777216 < 256" by (rule less_mult_imp_div_less)
  then show "list_all (\<lambda>x. x < 256) (octets a)" by (simp add: octets_def Let_def)
  show "length (octets a) = 4" by (simp add: octets_def Let_def)
qed

lemma octets_value: "foldl (\<lambda>acc b. acc * 256 + b) 0 (octets a) = unat a"
proof -
  let ?n = "unat a"
  have "?n div 16777216 * 256 + ?n div 65536 mod 256 = ?n div 65536"
    using div_mult_mod_eq [of "?n div 65536" 256] by (simp add: div_mult2_eq [symmetric])
  moreover have "?n div 65536 * 256 + ?n div 256 mod 256 = ?n div 256"
    using div_mult_mod_eq [of "?n div 256" 256] by (simp add: div_mult2_eq [symmetric])
  moreover have "?n div 256 * 256 + ?n mod 256 = ?n" by (rule div_mult_mod_eq)
  ultimately show ?thesis by (simp add: octets_def Let_def)
qed

lemma join_dots: "join [46] (map nat_to_string (x # os)) = nat_to_string x @ concat (map (\<lambda>x. 46 # nat_to_string x) os)"
  by (induction os arbitrary: x) simp_all

lemma read_ipv4_text:
  assumes "r = [] \<or> digit_of 10 (hd r) = None"
  shows "read_ipv4_addr (ipv4_to_string a @ r) = Some (a, r)"
proof -
  obtain x os where os: "octets a = x # os" "length os = 3" using octets_length [of a] by (cases "octets a") auto
  let ?t = "concat (map (\<lambda>x. 46 # nat_to_string x) os) @ r"
  have "?t = [] \<or> digit_of 10 (hd ?t) = None" using os(2) by (cases os) auto
  then have "read_number 10 3 False 255 (nat_to_string x @ ?t) = Some (x, ?t)"
    using octets_small [of a] os by (intro read_decimal) auto
  moreover have "read_octets 1 3 ?t = Some (os, r)"
    using read_octets_text [of os 1 r] octets_small [of a] os assms by simp
  ultimately have "read_octets 0 (Suc 3) (ipv4_to_string a @ r) = Some (octets a, r)"
    unfolding read_octets.simps ipv4_to_string_def os(1) join_dots by (simp add: read_separator_def)
  then show ?thesis by (simp add: read_ipv4_addr_def octets_value)
qed

section \<open>IPv6\<close>

lemma segments_length [simp]: "length (segments a) = 8" and segments_small: "list_all (\<lambda>g. g < 65536) (segments a)"
  by (simp_all add: segments_def list_all_iff)

lemma base_digits: "foldl (\<lambda>acc g. acc * b + g) 0 (map (\<lambda>i. v div b ^ (n - Suc i) mod b) [0..<n]) = v mod b ^ n"
  for b v n :: nat
proof (induction n arbitrary: v)
  case (Suc n)
  have "map (\<lambda>i. v div b ^ (Suc n - Suc i) mod b) [0..<n] = map (\<lambda>i. (v div b) div b ^ (n - Suc i) mod b) [0..<n]"
    by (rule map_cong [OF refl]) (auto simp: div_mult2_eq [symmetric] Suc_diff_Suc power_Suc [symmetric] simp del: power_Suc)
  then have "map (\<lambda>i. v div b ^ (Suc n - Suc i) mod b) [0..<Suc n] = map (\<lambda>i. (v div b) div b ^ (n - Suc i) mod b) [0..<n] @ [v mod b]"
    by (simp del: map_eq_conv)
  then have "foldl (\<lambda>acc g. acc * b + g) 0 (map (\<lambda>i. v div b ^ (Suc n - Suc i) mod b) [0..<Suc n]) = ((v div b) mod b ^ n) * b + v mod b"
    by (simp only: foldl_append Suc.IH foldl.simps)
  also have "\<dots> = v mod b ^ Suc n" by (simp add: mod_mult2_eq mult.commute)
  finally show ?case .
qed simp

lemma segments_value: "groups_value (segments a) = a"
proof -
  have "unat a < 65536 ^ 8" using unsigned_less [of a] by simp
  then have "foldl (\<lambda>acc g. acc * 65536 + g) 0 (segments a) = unat a"
    using base_digits [of 65536 "unat a" 8] by (simp add: segments_def)
  then show ?thesis by (simp add: groups_value_def)
qed

text \<open>The run found is a run of zeroes.\<close>

definition zero_run :: "nat list \<Rightarrow> nat \<times> nat \<Rightarrow> bool" where
  "zero_run s x \<longleftrightarrow> fst x + snd x \<le> length s \<and> (\<forall>i < snd x. s ! (fst x + i) = 0)"

lemma longest_zeroes_run:
  assumes "zero_run s longest" "zero_run s current" "snd current \<noteq> 0 \<longrightarrow> fst current + snd current = i"
    "drop i s = t" "i \<le> length s"
  shows "zero_run s (longest_zeroes i t current longest)"
  using assms
proof (induction i t current longest rule: longest_zeroes.induct)
  case (2 i x ss current longest)
  have "i < length s" using 2(6) by (metis drop_eq_Nil linorder_not_less list.discI)
  then have i: "i < length s" "s ! i = x" "drop (i + 1) s = ss" using 2(6) Cons_nth_drop_Suc [of i s] by auto
  show ?case
  proof (cases "x = 0")
    case True
    let ?c = "(if snd current = 0 then i else fst current, snd current + 1)"
    have run: "zero_run s ?c"
      using 2(4,5) i True by (auto simp: zero_run_def less_Suc_eq)
    have "zero_run s (longest_zeroes (i + 1) ss ?c (if snd ?c > snd longest then ?c else longest))"
      using 2(5) i run 2(3) by (intro 2(1) [OF True refl]) auto
    then show ?thesis by (simp only: longest_zeroes.simps True Let_def simp_thms if_True)
  next
    case False
    have "zero_run s (longest_zeroes (i + 1) ss (0, 0) longest)"
      using i 2(3) by (intro 2(2) [OF False]) (auto simp: zero_run_def)
    with False show ?thesis by simp
  qed
qed simp

lemma zero_run_split:
  assumes "zero_run s (start, n)"
  shows "s = take start s @ replicate n 0 @ drop (start + n) s"
proof -
  have "take n (drop start s) = replicate n 0"
    using assms by (intro nth_equalityI) (auto simp: zero_run_def)
  then show ?thesis by (metis append_take_drop_id drop_drop add.commute)
qed

lemma read_compressed:
  assumes "s = segments a" "s = hs @ replicate n 0 @ ts" "1 < n" "ts' = ts"
    "read_groups 0 (7 - length hs) rest = (ts', b, [])"
  shows "parse_ipv6 (fmt_subslice hs @ [58, 58] @ rest) = Some a"
proof -
  have len: "length hs + n + length ts = 8" using arg_cong [OF assms(2), of length] assms(1) by simp
  have "list_all (\<lambda>g. g < 65536) hs" using segments_small [of a] assms(1,2) by (metis list_all_append)
  then have "read_groups 0 8 (fmt_subslice hs @ [58, 58] @ rest) = (hs, False, [58, 58] @ rest)"
    using len by (intro read_fmt_subslice) auto
  moreover have "length hs \<noteq> 8" "8 - length hs - length ts = n" using len assms(3) by auto
  moreover have "groups_value (hs @ replicate n 0 @ ts) = a" using segments_value assms(1,2) by metis
  ultimately show ?thesis using assms(4,5) by (simp add: parse_ipv6_def read_ipv6_addr_def read_given_char_def)
qed

lemma tail_parsed: "list_all (\<lambda>g. g < 65536) ts \<Longrightarrow> length ts \<le> n \<Longrightarrow> read_groups 0 n (fmt_subslice ts) = (ts, False, [])"
  using read_fmt_subslice [of ts n "[]"] by simp

lemma mapped_tail:
  assumes "6 \<le> n"
  shows "read_groups 0 n ([102, 102, 102, 102, 58] @ ipv4_to_string v) =
    ([0xFFFF, unat v div 65536, unat v mod 65536], True, [])"
proof -
  define m where "m = n - 2"
  have n: "n = Suc (Suc m)" "0 < m" using assms by (simp_all add: m_def)
  have ffff: "hex_text 0xFFFF = [102, 102, 102, 102]" by (simp add: hex_text.simps hex_char_def)
  have "read_groups 0 (Suc (Suc m)) (hex_text 0xFFFF @ 58 # ipv4_to_string v) =
      (let (gs, b, r') = read_groups 1 (Suc m) (58 # ipv4_to_string v) in (0xFFFF # gs, b, r'))"
    by (rule read_group_here) auto
  moreover have "read_groups 1 (Suc m) (58 # ipv4_to_string v) = ([unat v div 65536, unat v mod 65536], True, [])"
    using n(2) read_ipv4_text [of "[]" v] by (simp add: read_separator_def read_given_char_def)
  ultimately show ?thesis using n ffff by simp
qed

lemma parse_ipv6_to_string: "parse_ipv6 (ipv6_to_string a) = Some a"
proof (cases "take 6 (segments a) = [0, 0, 0, 0, 0, 0xFFFF]")
  case True
  let ?n = "unat a" and ?v = "of_nat (unat a mod 4294967296) :: u32"
  have low: "?n mod 4294967296 = 65536 * (?n div 65536 mod 65536) + ?n mod 65536"
    using mod_mult2_eq [of ?n 65536 65536] by simp
  have "unat ?v = ?n mod 4294967296" by (simp add: unat_of_nat)
  from trans [OF this low] have v: "unat ?v = 65536 * (?n div 65536 mod 65536) + ?n mod 65536" .
  have "drop 6 (segments a) = [?n div 65536 mod 65536, ?n mod 65536]" by (simp add: segments_def upt_conv_Cons)
  also have "\<dots> = [unat ?v div 65536, unat ?v mod 65536]" unfolding v by simp
  finally have rest: "drop 6 (segments a) = [unat ?v div 65536, unat ?v mod 65536]" .
  have five: "replicate 5 (0 :: nat) = [0, 0, 0, 0, 0]" by code_simp
  have "segments a = take 6 (segments a) @ drop 6 (segments a)" by simp
  then have "segments a = [] @ replicate 5 0 @ [0xFFFF, unat ?v div 65536, unat ?v mod 65536]"
    unfolding True rest by (simp add: five)
  from read_compressed [OF refl this _ refl mapped_tail] have
    "parse_ipv6 (fmt_subslice [] @ [58, 58] @ [102, 102, 102, 102, 58] @ ipv4_to_string ?v) = Some a" by simp
  then show ?thesis using True by (simp add: ipv6_to_string_def fmt_subslice_def)
next
  case False
  let ?s = "segments a"
  obtain start n where run: "longest_zeroes 0 ?s (0, 0) (0, 0) = (start, n)" by fastforce
  then have zero: "zero_run ?s (start, n)" using longest_zeroes_run [of ?s "(0, 0)" "(0, 0)" 0] by (simp add: zero_run_def)
  show ?thesis
  proof (cases "1 < n")
    case True
    have le: "start + n \<le> 8" using zero by (simp add: zero_run_def)
    have "list_all (\<lambda>g. g < 65536) (drop (start + n) ?s)"
      using segments_small [of a] by (metis append_take_drop_id list_all_append)
    then have "read_groups 0 (7 - length (take start ?s)) (fmt_subslice (drop (start + n) ?s)) = (drop (start + n) ?s, False, [])"
      using le True by (intro tail_parsed) auto
    from read_compressed [OF refl zero_run_split [OF zero] True refl this] show ?thesis
      using False run True by (simp add: ipv6_to_string_def Let_def)
  next
    case short: False
    have "read_groups 0 8 (fmt_subslice ?s) = (?s, False, [])" using tail_parsed [of ?s 8] segments_small by simp
    then show ?thesis
      using False run short segments_value [of a] by (simp add: ipv6_to_string_def Let_def parse_ipv6_def read_ipv6_addr_def)
  qed
qed

lemma ipv4_not_ipv6: "read_ipv4_addr s = Some x \<Longrightarrow> parse_ipv6 s = None"
proof -
  assume "read_ipv4_addr s = Some x"
  then have "read_groups 0 (Suc 7) s = ([unat (fst x) div 65536, unat (fst x) mod 65536], True, snd x)"
    unfolding read_groups.simps by (simp add: read_separator_def case_prod_unfold)
  then show ?thesis by (simp add: parse_ipv6_def read_ipv6_addr_def)
qed

lemma parse_ip_to_string: "parse_ip (ip_to_string a) = Some a"
proof (cases a)
  case (V4 v)
  then show ?thesis using read_ipv4_text [of "[]" v] by (simp add: parse_ip_def ip_to_string_def)
next
  case (V6 v)
  have "read_ipv4_addr (ipv6_to_string v) = None" using ipv4_not_ipv6 parse_ipv6_to_string [of v] by (metis option.distinct(1) option.exhaust)
  then show ?thesis using V6 by (simp add: parse_ip_def ip_to_string_def parse_ipv6_to_string)
qed

end
