(* ===== verification/Traffic_Control.thy ===== *)
theory Traffic_Control
  imports Ip_Text
begin

text \<open>
  Traffic controls of forwarding policies (\<^verbatim>\<open>linklake-server/src/traffic_control.rs\<close>): source
  address rules, connection rate, daily quota and schedule. The three SQLite tables are maps keyed
  by their primary keys; a transaction is a function to an error, which leaves the tables as they
  were, or to the new tables. Lists in JSON columns are written and read by the JSON library, which
  is a parameter. Seconds, byte counts and limits are natural numbers within their Rust types.
\<close>

section \<open>Data\<close>

datatype traffic_policy_kind = Tcp | Udp | Http | Sni | Secret | Socks5 | HttpProxy | PortGroup

definition kind_as_str :: "traffic_policy_kind \<Rightarrow> str" where
  "kind_as_str k =
     (case k of
        Tcp \<Rightarrow> lit ''tcp'' | Udp \<Rightarrow> lit ''udp'' | Http \<Rightarrow> lit ''http'' | Sni \<Rightarrow> lit ''sni''
      | Secret \<Rightarrow> lit ''secret'' | Socks5 \<Rightarrow> lit ''socks5'' | HttpProxy \<Rightarrow> lit ''http_proxy''
      | PortGroup \<Rightarrow> lit ''port_group'')"

datatype traffic_error =
  JsonError | InvalidQuery | TooManyCidrs | AddressError | PrefixError | InvalidPrefix | InvalidRate
| InvalidQuota | InvalidWeekday | IncompleteWindow | InvalidMinute | NilEventId | IdentityMismatch
| NotReadBack | InvalidKind

definition kind_parse :: "str \<Rightarrow> traffic_error + traffic_policy_kind" where
  "kind_parse s =
     (if s = lit ''tcp'' then Ok Tcp else if s = lit ''udp'' then Ok Udp else if s = lit ''http'' then Ok Http
      else if s = lit ''sni'' then Ok Sni else if s = lit ''secret'' then Ok Secret
      else if s = lit ''socks5'' then Ok Socks5
      else if s = lit ''http_proxy'' \<or> s = lit ''http-proxy'' then Ok HttpProxy
      else if s = lit ''port_group'' \<or> s = lit ''ports'' then Ok PortGroup
      else Err InvalidKind)"

record traffic_settings =
  ts_allowed_cidrs :: "str list"
  ts_denied_cidrs :: "str list"
  ts_max_connections_per_minute :: "nat option"
  ts_daily_quota_bytes :: "nat option"
  ts_active_weekdays_utc :: "nat list"
  ts_start_minute_utc :: "nat option"
  ts_end_minute_utc :: "nat option"
  ts_enabled :: bool

record traffic_usage_event =
  ue_event_id :: uuid
  ue_kind :: traffic_policy_kind
  ue_policy_id :: uuid
  ue_bytes :: nat

record traffic_control_record =
  cr_kind :: traffic_policy_kind
  cr_policy_id :: uuid
  cr_settings :: traffic_settings
  cr_used_today_bytes :: nat
  cr_updated_unix_seconds :: nat

datatype traffic_decision = Allowed | SourceDenied | OutsideSchedule | RateLimited | QuotaExceeded

section \<open>Tables\<close>

datatype sqlite_value = SqlNull | SqlInteger int | SqlReal | SqlText str | SqlBlob bytes

record traffic_row =
  ct_allowed_cidrs :: str
  ct_denied_cidrs :: str
  ct_max_connections_per_minute :: "nat option"
  ct_daily_quota_bytes :: sqlite_value
  ct_active_weekdays_utc :: str
  ct_start_minute_utc :: "nat option"
  ct_end_minute_utc :: "nat option"
  ct_enabled :: bool
  ct_updated_unix_seconds :: nat

record usage_event_row =
  er_kind :: str
  er_policy_id :: uuid
  er_bytes :: str
  er_utc_day :: nat

record traffic_db =
  td_controls :: "(traffic_policy_kind \<times> uuid, traffic_row) hashmap"
  td_daily_usage :: "(traffic_policy_kind \<times> uuid \<times> nat, sqlite_value) hashmap"
  td_usage_events :: "(uuid, usage_event_row) hashmap"

record traffic_catalog =
  tc_database :: traffic_db
  tc_connection_windows :: "(traffic_policy_kind \<times> uuid, nat list) hashmap"

text \<open>The JSON library on lists of texts and of bytes.\<close>

record traffic_json =
  tj_texts :: "str list \<Rightarrow> str"
  tj_parse_texts :: "str \<Rightarrow> str list option"
  tj_bytes :: "nat list \<Rightarrow> str"
  tj_parse_bytes :: "str \<Rightarrow> nat list option"

definition traffic_json_ok :: "traffic_json \<Rightarrow> bool" where
  "traffic_json_ok js \<longleftrightarrow> (\<forall>xs. tj_parse_texts js (tj_texts js xs) = Some xs) \<and>
     (\<forall>xs. tj_parse_bytes js (tj_bytes js xs) = Some xs)"

definition catalog_open :: "traffic_db \<Rightarrow> traffic_catalog" where
  "catalog_open db = \<lparr> tc_database = db, tc_connection_windows = [] \<rparr>"

section \<open>Byte counts in the database\<close>

definition encode_sqlite_u64 :: "nat \<Rightarrow> sqlite_value" where
  "encode_sqlite_u64 v = (if v < 2 ^ 63 then SqlInteger (int v) else SqlBlob (be_encode 8 v))"

definition decode_sqlite_u64 :: "sqlite_value \<Rightarrow> traffic_error + nat" where
  "decode_sqlite_u64 v =
     (case v of
        SqlInteger i \<Rightarrow> if 0 \<le> i then Ok (nat i) else Err InvalidQuery
      | SqlBlob bs \<Rightarrow> if length bs = 8 then Ok (be_decode bs) else Err InvalidQuery
      | _ \<Rightarrow> Err InvalidQuery)"

definition utc_day :: "nat \<Rightarrow> nat" where
  "utc_day now = now div 86400"

definition traffic_usage :: "traffic_policy_kind \<Rightarrow> uuid \<Rightarrow> nat \<Rightarrow> traffic_db \<Rightarrow> traffic_error + nat" where
  "traffic_usage kind policy_id day db =
     (case hm_get (td_daily_usage db) (kind, policy_id, day) of
        None \<Rightarrow> decode_sqlite_u64 (SqlInteger 0)
      | Some v \<Rightarrow> decode_sqlite_u64 v)"

section \<open>Address rules\<close>

record cidr =
  ci_address :: ip_addr
  ci_prefix :: nat

definition is_ipv4 :: "ip_addr \<Rightarrow> bool" where
  "is_ipv4 a = (case a of V4 _ \<Rightarrow> True | V6 _ \<Rightarrow> False)"

definition cidr_normalized :: "cidr \<Rightarrow> str" where
  "cidr_normalized c = ip_to_string (ci_address c) @ [47] @ nat_to_string (ci_prefix c)"

definition parse_cidr :: "str \<Rightarrow> traffic_error + cidr" where
  "parse_cidr value =
     (case split_once 47 (trim value) of
        Some (address, prefix) \<Rightarrow>
          and_then (ok_or (parse_ip address) AddressError) (\<lambda>address.
          and_then (ok_or (parse_uint 255 prefix) PrefixError) (\<lambda>prefix.
          and_then (check (prefix \<le> (if is_ipv4 address then 32 else 128)) InvalidPrefix) (\<lambda>_.
          Ok \<lparr> ci_address = address, ci_prefix = prefix \<rparr>)))
      | None \<Rightarrow>
          and_then (ok_or (parse_ip (trim value)) AddressError) (\<lambda>address.
          Ok \<lparr> ci_address = address, ci_prefix = (if is_ipv4 address then 32 else 128) \<rparr>))"

definition cidr_matches :: "str \<Rightarrow> ip_addr \<Rightarrow> bool" where
  "cidr_matches value source =
     (case parse_cidr value of
        Inl _ \<Rightarrow> False
      | Inr cidr \<Rightarrow>
          (case (ci_address cidr, source) of
             (V4 network, V4 source) \<Rightarrow>
               let mask = (if ci_prefix cidr = 0 then 0 else push_bit (32 - ci_prefix cidr) (- 1))
               in and network mask = and source mask
           | (V6 network, V6 source) \<Rightarrow>
               let mask = (if ci_prefix cidr = 0 then 0 else push_bit (128 - ci_prefix cidr) (- 1))
               in and network mask = and source mask
           | _ \<Rightarrow> False))"

definition normalize_cidrs :: "str list \<Rightarrow> traffic_error + str list" where
  "normalize_cidrs values = map_result (\<lambda>value. and_then (parse_cidr value) (\<lambda>c. Ok (cidr_normalized c))) values"

section \<open>Settings\<close>

definition validate_settings :: "traffic_settings \<Rightarrow> traffic_error + unit" where
  "validate_settings request =
     and_then (check (length (ts_allowed_cidrs request) \<le> 64 \<and> length (ts_denied_cidrs request) \<le> 64) TooManyCidrs) (\<lambda>_.
     and_then (normalize_cidrs (ts_allowed_cidrs request)) (\<lambda>_.
     and_then (normalize_cidrs (ts_denied_cidrs request)) (\<lambda>_.
     and_then (check (case ts_max_connections_per_minute request of None \<Rightarrow> True | Some v \<Rightarrow> 1 \<le> v \<and> v \<le> 1000000) InvalidRate) (\<lambda>_.
     and_then (check (case ts_daily_quota_bytes request of None \<Rightarrow> True | Some v \<Rightarrow> v \<ge> 1024) InvalidQuota) (\<lambda>_.
     and_then (check (list_all (\<lambda>v. v \<le> 6) (ts_active_weekdays_utc request)) InvalidWeekday) (\<lambda>_.
     and_then (check ((ts_start_minute_utc request = None) = (ts_end_minute_utc request = None)) IncompleteWindow) (\<lambda>_.
     check ((case ts_start_minute_utc request of None \<Rightarrow> True | Some v \<Rightarrow> v < 1440) \<and>
            (case ts_end_minute_utc request of None \<Rightarrow> True | Some v \<Rightarrow> v < 1440)) InvalidMinute)))))))"

definition normalized_settings :: "traffic_settings \<Rightarrow> traffic_error + traffic_settings" where
  "normalized_settings request =
     and_then (validate_settings request) (\<lambda>_.
     and_then (normalize_cidrs (ts_allowed_cidrs request)) (\<lambda>allowed_cidrs.
     and_then (normalize_cidrs (ts_denied_cidrs request)) (\<lambda>denied_cidrs.
     Ok (request\<lparr> ts_allowed_cidrs := allowed_cidrs, ts_denied_cidrs := denied_cidrs,
       ts_active_weekdays_utc := remdups_adj (sort (ts_active_weekdays_utc request)) \<rparr>))))"

definition schedule_allows :: "traffic_settings \<Rightarrow> nat \<Rightarrow> bool" where
  "schedule_allows settings now =
     (let weekday = (now div 86400 + 3) mod 7
      in if ts_active_weekdays_utc settings \<noteq> [] \<and> weekday \<notin> set (ts_active_weekdays_utc settings) then False
         else case (ts_start_minute_utc settings, ts_end_minute_utc settings) of
           (Some start, Some end) \<Rightarrow>
             (let minute = now mod 86400 div 60
              in if start = end then True
                 else if start < end then start \<le> minute \<and> minute < end
                 else minute \<ge> start \<or> minute < end)
         | _ \<Rightarrow> True)"

section \<open>Operations\<close>

definition traffic_get ::
  "traffic_json \<Rightarrow> traffic_policy_kind \<Rightarrow> uuid \<Rightarrow> nat \<Rightarrow> traffic_db \<Rightarrow> traffic_error + traffic_control_record option" where
  "traffic_get js kind policy_id now db =
     (case hm_get (td_controls db) (kind, policy_id) of
        None \<Rightarrow> Ok None
      | Some row \<Rightarrow>
          and_then (if ct_daily_quota_bytes row = SqlNull then Ok None
                    else and_then (decode_sqlite_u64 (ct_daily_quota_bytes row)) (\<lambda>q. Ok (Some q))) (\<lambda>quota.
          and_then (ok_or (tj_parse_texts js (ct_allowed_cidrs row)) JsonError) (\<lambda>allowed.
          and_then (ok_or (tj_parse_texts js (ct_denied_cidrs row)) JsonError) (\<lambda>denied.
          and_then (ok_or (tj_parse_bytes js (ct_active_weekdays_utc row)) JsonError) (\<lambda>weekdays.
          and_then (traffic_usage kind policy_id (utc_day now) db) (\<lambda>used.
          Ok (Some \<lparr> cr_kind = kind, cr_policy_id = policy_id,
            cr_settings = \<lparr> ts_allowed_cidrs = allowed, ts_denied_cidrs = denied,
              ts_max_connections_per_minute = ct_max_connections_per_minute row, ts_daily_quota_bytes = quota,
              ts_active_weekdays_utc = weekdays, ts_start_minute_utc = ct_start_minute_utc row,
              ts_end_minute_utc = ct_end_minute_utc row, ts_enabled = ct_enabled row \<rparr>,
            cr_used_today_bytes = used, cr_updated_unix_seconds = ct_updated_unix_seconds row \<rparr>)))))))"

definition settings_row :: "traffic_json \<Rightarrow> traffic_settings \<Rightarrow> nat \<Rightarrow> traffic_row" where
  "settings_row js s now =
     \<lparr> ct_allowed_cidrs = tj_texts js (ts_allowed_cidrs s), ct_denied_cidrs = tj_texts js (ts_denied_cidrs s),
       ct_max_connections_per_minute = ts_max_connections_per_minute s,
       ct_daily_quota_bytes = (case ts_daily_quota_bytes s of None \<Rightarrow> SqlNull | Some q \<Rightarrow> encode_sqlite_u64 q),
       ct_active_weekdays_utc = tj_bytes js (ts_active_weekdays_utc s),
       ct_start_minute_utc = ts_start_minute_utc s, ct_end_minute_utc = ts_end_minute_utc s,
       ct_enabled = ts_enabled s, ct_updated_unix_seconds = now \<rparr>"

definition traffic_upsert ::
  "traffic_json \<Rightarrow> traffic_policy_kind \<Rightarrow> uuid \<Rightarrow> traffic_settings \<Rightarrow> nat \<Rightarrow> traffic_catalog \<Rightarrow>
     traffic_catalog \<times> (traffic_error + traffic_control_record)" where
  "traffic_upsert js kind policy_id request now c =
     (case normalized_settings request of
        Inl e \<Rightarrow> (c, Err e)
      | Inr settings \<Rightarrow>
          let db = (tc_database c)\<lparr> td_controls :=
                hm_insert (kind, policy_id) (settings_row js settings now) (td_controls (tc_database c)) \<rparr>;
              c = c\<lparr> tc_database := db,
                tc_connection_windows := hm_remove (kind, policy_id) (tc_connection_windows c) \<rparr>
          in (c, and_then (traffic_get js kind policy_id now db) (\<lambda>r. ok_or r NotReadBack)))"

definition traffic_delete :: "traffic_policy_kind \<Rightarrow> uuid \<Rightarrow> traffic_catalog \<Rightarrow> traffic_catalog \<times> bool" where
  "traffic_delete kind policy_id c =
     (c\<lparr> tc_connection_windows := hm_remove (kind, policy_id) (tc_connection_windows c),
         tc_database := (tc_database c)\<lparr> td_controls := hm_remove (kind, policy_id) (td_controls (tc_database c)) \<rparr> \<rparr>,
      hm_get (td_controls (tc_database c)) (kind, policy_id) \<noteq> None)"

definition reset_runtime_state :: "traffic_catalog \<Rightarrow> traffic_catalog" where
  "reset_runtime_state c = c\<lparr> tc_connection_windows := [] \<rparr>"

fun expire_window :: "nat \<Rightarrow> nat list \<Rightarrow> nat list" where
  "expire_window now [] = []"
| "expire_window now (timestamp # window) =
     (if saturating_add timestamp 60 \<le> now then expire_window now window else timestamp # window)"

definition source_denied :: "traffic_settings \<Rightarrow> ip_addr \<Rightarrow> bool" where
  "source_denied settings source \<longleftrightarrow>
     list_ex (\<lambda>cidr. cidr_matches cidr source) (ts_denied_cidrs settings) \<or>
     ts_allowed_cidrs settings \<noteq> [] \<and> \<not> list_ex (\<lambda>cidr. cidr_matches cidr source) (ts_allowed_cidrs settings)"

definition traffic_authorize ::
  "traffic_json \<Rightarrow> traffic_policy_kind \<Rightarrow> uuid \<Rightarrow> ip_addr \<Rightarrow> nat \<Rightarrow> traffic_catalog \<Rightarrow>
     traffic_catalog \<times> (traffic_error + traffic_decision)" where
  "traffic_authorize js kind policy_id source now c =
     (case traffic_get js kind policy_id now (tc_database c) of
        Inl e \<Rightarrow> (c, Err e)
      | Inr None \<Rightarrow> (c, Ok Allowed)
      | Inr (Some record) \<Rightarrow>
          let settings = cr_settings record
          in if \<not> ts_enabled settings then (c, Ok Allowed)
             else if source_denied settings source then (c, Ok SourceDenied)
             else if \<not> schedule_allows settings now then (c, Ok OutsideSchedule)
             else if (case ts_daily_quota_bytes settings of None \<Rightarrow> False | Some quota \<Rightarrow> cr_used_today_bytes record \<ge> quota)
             then (c, Ok QuotaExceeded)
             else case ts_max_connections_per_minute settings of
               None \<Rightarrow> (c, Ok Allowed)
             | Some limit \<Rightarrow>
                 let window = expire_window now
                       (case hm_get (tc_connection_windows c) (kind, policy_id) of None \<Rightarrow> [] | Some w \<Rightarrow> w);
                     full = length window \<ge> limit
                 in (c\<lparr> tc_connection_windows := hm_insert (kind, policy_id)
                        (if full then window else window @ [now]) (tc_connection_windows c) \<rparr>,
                     Ok (if full then RateLimited else Allowed)))"

definition record_usage_event :: "traffic_usage_event \<Rightarrow> nat \<Rightarrow> traffic_db \<Rightarrow> traffic_error + traffic_db" where
  "record_usage_event event now db =
     (if is_nil (ue_event_id event) then Err NilEventId
      else
        let inserted = (hm_get (td_usage_events db) (ue_event_id event) = None);
            row = \<lparr> er_kind = kind_as_str (ue_kind event), er_policy_id = ue_policy_id event,
              er_bytes = nat_to_string (ue_bytes event), er_utc_day = utc_day now \<rparr>;
            stored = (case hm_get (td_usage_events db) (ue_event_id event) of None \<Rightarrow> row | Some r \<Rightarrow> r)
        in if \<not> (er_kind stored = kind_as_str (ue_kind event) \<and> er_policy_id stored = ue_policy_id event \<and>
                 er_bytes stored = nat_to_string (ue_bytes event))
           then Err IdentityMismatch
           else if inserted then
             and_then (traffic_usage (ue_kind event) (ue_policy_id event) (utc_day now) db) (\<lambda>used.
             Ok (db\<lparr> td_usage_events := hm_insert (ue_event_id event) row (td_usage_events db),
                  td_daily_usage := hm_insert (ue_kind event, ue_policy_id event, utc_day now)
                    (encode_sqlite_u64 (saturating_add used (ue_bytes event))) (td_daily_usage db) \<rparr>))
           else Ok db)"

end
