(* ===== verification/Traffic_Rules.thy ===== *)
theory Traffic_Rules
  imports Traffic_Control
begin

text \<open>
  What the traffic controls (\<^verbatim>\<open>linklake-server/src/traffic_control.rs\<close>) guarantee: no policy admits
  more connections in any sixty seconds than its limit, every usage event counts once and with
  saturation towards the daily usage, and the rules an administrator stores are the rules that
  decide, address ranges included.
\<close>

section \<open>Byte counts and address ranges\<close>

lemma decode_encode_u64: "v \<le> u64_max \<Longrightarrow> decode_sqlite_u64 (encode_sqlite_u64 v) = Ok v"
  by (auto simp: encode_sqlite_u64_def decode_sqlite_u64_def be_decode_encode u64_max_def)

lemma decode_small: "decode_sqlite_u64 (SqlInteger 0) = Ok 0"
  by (simp add: decode_sqlite_u64_def)

text \<open>A rule covers an address of its family with the same leading bits.\<close>

definition cidr_covers :: "cidr \<Rightarrow> ip_addr \<Rightarrow> bool" where
  "cidr_covers c source \<longleftrightarrow>
     (case (ci_address c, source) of
        (V4 n, V4 s) \<Rightarrow> unat n div 2 ^ (32 - ci_prefix c) = unat s div 2 ^ (32 - ci_prefix c)
      | (V6 n, V6 s) \<Rightarrow> unat n div 2 ^ (128 - ci_prefix c) = unat s div 2 ^ (128 - ci_prefix c)
      | _ \<Rightarrow> False)"

definition rule_covers :: "str \<Rightarrow> ip_addr \<Rightarrow> bool" where
  "rule_covers value source \<longleftrightarrow> (case parse_cidr value of Inl _ \<Rightarrow> False | Inr c \<Rightarrow> cidr_covers c source)"

lemma and_high_mask:
  fixes a b :: "'a::len word"
  shows "and a (not (mask k)) = and b (not (mask k)) \<longleftrightarrow> drop_bit k a = drop_bit k b"
proof
  assume *: "drop_bit k a = drop_bit k b"
  show "and a (not (mask k)) = and b (not (mask k))"
  proof (rule bit_eqI)
    fix n
    have "bit (drop_bit k a) (n - k) = bit (drop_bit k b) (n - k)" using * by simp
    then show "bit (and a (not (mask k))) n = bit (and b (not (mask k))) n" by (auto simp: bit_simps)
  qed
next
  assume *: "and a (not (mask k)) = and b (not (mask k))"
  show "drop_bit k a = drop_bit k b"
  proof (rule bit_eqI)
    fix n
    have "bit (and a (not (mask k))) (k + n) = bit (and b (not (mask k))) (k + n)" using * by simp
    then show "bit (drop_bit k a) n = bit (drop_bit k b) n" by (auto simp: bit_simps dest: bit_imp_le_length)
  qed
qed

lemma drop_bit_eq_div_iff: "drop_bit k a = drop_bit k b \<longleftrightarrow> unat a div 2 ^ k = unat b div 2 ^ k"
  for a b :: "'a::len word"
  by (simp only: word_unat_eq_iff unat_drop_bit_eq) (simp only: drop_bit_eq_div)

lemma cidr_matches_exact: "cidr_matches value source \<longleftrightarrow> rule_covers value source"
proof -
  have v4: "unat (n :: u32) div 2 ^ 32 = 0" for n using unsigned_less [of n] by (intro div_less) simp
  have v6: "unat (n :: u128) div 2 ^ 128 = 0" for n using unsigned_less [of n] by (intro div_less) simp
  show ?thesis
    using v4 v6
    by (auto simp: cidr_matches_def rule_covers_def cidr_covers_def Let_def and_high_mask drop_bit_eq_div_iff
        split: sum.splits ip_addr.splits)
qed

lemma parse_cidr_prefix: "parse_cidr value = Ok c \<Longrightarrow> ci_prefix c \<le> (if is_ipv4 (ci_address c) then 32 else 128)"
  by (auto simp: parse_cidr_def and_then_ok_iff split: option.splits)

definition ip_char :: "nat \<Rightarrow> bool" where
  "ip_char c \<longleftrightarrow> c = 46 \<or> c = 58 \<or> 48 \<le> c \<and> c \<le> 57 \<or> 97 \<le> c \<and> c \<le> 102"

lemma join_chars: "c \<in> set (join [d] ps) \<Longrightarrow> c = d \<or> (\<exists>p \<in> set ps. c \<in> set p)"
  by (induction "[d]" ps rule: join.induct) auto

lemma hex_text_chars: "c \<in> set (hex_text n) \<Longrightarrow> ip_char c"
proof (induction n rule: hex_text.induct)
  case (1 n)
  have "d < 16 \<Longrightarrow> ip_char (hex_char d)" for d by (auto simp: ip_char_def hex_char_def)
  from this [of "n mod 16"] this [of n] 1 show ?case by (subst (asm) (2) hex_text.simps) (auto split: if_splits)
qed

lemma ip_text_chars: "c \<in> set (ip_to_string a) \<Longrightarrow> ip_char c"
proof -
  have dec: "c \<in> set (nat_to_string n) \<Longrightarrow> ip_char c" for n
    using nat_to_string_digits [of n] by (auto simp: list_all_iff is_digit_def ip_char_def)
  have v4: "c \<in> set (ipv4_to_string v) \<Longrightarrow> ip_char c" for v
    using dec by (auto simp: ipv4_to_string_def ip_char_def dest!: join_chars)
  have fmt: "c \<in> set (fmt_subslice gs) \<Longrightarrow> ip_char c" for gs
    using hex_text_chars by (auto simp: fmt_subslice_def dest!: join_chars) (simp add: ip_char_def)
  have "c \<in> set (ipv6_to_string v) \<Longrightarrow> ip_char c" for v
    by (auto simp: ipv6_to_string_def Let_def dest: v4 fmt split: if_splits prod.splits) (simp_all add: ip_char_def)
  with v4 show "c \<in> set (ip_to_string a) \<Longrightarrow> ip_char c" by (cases a) (auto simp: ip_to_string_def)
qed

lemma parse_cidr_normalized:
  assumes "ci_prefix c \<le> (if is_ipv4 (ci_address c) then 32 else 128)"
  shows "parse_cidr (cidr_normalized c) = Ok c"
proof -
  have "list_all (\<lambda>x. \<not> is_whitespace x) (cidr_normalized c)"
    using ip_text_chars [of _ "ci_address c"] digits_no_space [OF nat_to_string_digits [of "ci_prefix c"]]
    by (fastforce simp: cidr_normalized_def list_all_iff ip_char_def is_whitespace_def)
  then have "trim (cidr_normalized c) = cidr_normalized c" by (rule trim_id)
  moreover have "47 \<notin> set (ip_to_string (ci_address c))" using ip_text_chars by (fastforce simp: ip_char_def)
  then have "split_once 47 (cidr_normalized c) = Some (ip_to_string (ci_address c), nat_to_string (ci_prefix c))"
    by (simp add: split_once_Some cidr_normalized_def)
  moreover have "ci_prefix c \<le> 255" using assms by (simp split: if_splits)
  ultimately show ?thesis using assms by (simp add: parse_cidr_def parse_ip_to_string parse_uint_to_string)
qed

lemma normalize_cidrs_meaning:
  assumes "normalize_cidrs values = Ok stored"
  shows "list_ex (\<lambda>v. cidr_matches v source) stored \<longleftrightarrow> list_ex (\<lambda>v. rule_covers v source) values" "stored = [] \<longleftrightarrow> values = []"
proof -
  have "list_all2 (\<lambda>v s. and_then (parse_cidr v) (\<lambda>c. Ok (cidr_normalized c)) = Ok s) values stored"
    using assms by (simp add: normalize_cidrs_def map_result_ok_iff)
  then have "list_all2 (\<lambda>v s. cidr_matches s source \<longleftrightarrow> rule_covers v source) values stored"
    by (rule list_all2_mono)
       (auto simp: and_then_ok_iff cidr_matches_exact rule_covers_def parse_cidr_normalized [OF parse_cidr_prefix])
  then show "list_ex (\<lambda>v. cidr_matches v source) stored \<longleftrightarrow> list_ex (\<lambda>v. rule_covers v source) values"
    by (induction rule: list_all2_induct) auto
  show "stored = [] \<longleftrightarrow> values = []" using assms map_result_length unfolding normalize_cidrs_def by force
qed

section \<open>Admission over time\<close>

datatype traffic_op =
  Upsert traffic_policy_kind uuid traffic_settings nat
| Delete traffic_policy_kind uuid
| ResetRuntime
| Authorize traffic_policy_kind uuid ip_addr nat
| RecordUsage traffic_usage_event nat

datatype traffic_answer =
  Upserted "traffic_error + traffic_control_record"
| Deleted bool
| Cleared
| Decided "traffic_error + traffic_decision"
| Recorded "traffic_error + unit"

definition traffic_step :: "traffic_json \<Rightarrow> traffic_op \<Rightarrow> traffic_catalog \<Rightarrow> traffic_catalog \<times> traffic_answer" where
  "traffic_step js i c =
     (case i of
        Upsert kind pid request now \<Rightarrow> apsnd Upserted (traffic_upsert js kind pid request now c)
      | Delete kind pid \<Rightarrow> apsnd Deleted (traffic_delete kind pid c)
      | ResetRuntime \<Rightarrow> (reset_runtime_state c, Cleared)
      | Authorize kind pid source now \<Rightarrow> apsnd Decided (traffic_authorize js kind pid source now c)
      | RecordUsage event now \<Rightarrow>
          (case record_usage_event event now (tc_database c) of
             Inl e \<Rightarrow> (c, Recorded (Err e))
           | Inr db \<Rightarrow> (c\<lparr> tc_database := db \<rparr>, Recorded (Ok ()))))"

fun traffic_run :: "traffic_json \<Rightarrow> traffic_op list \<Rightarrow> traffic_catalog \<Rightarrow> traffic_catalog \<times> traffic_answer list" where
  "traffic_run js [] c = (c, [])"
| "traffic_run js (i # is) c =
     (case traffic_step js i c of (c, x) \<Rightarrow> case traffic_run js is c of (c, xs) \<Rightarrow> (c, x # xs))"

text \<open>The times at which connections of a policy were admitted, in the order of the run.\<close>

definition admits :: "traffic_policy_kind \<Rightarrow> uuid \<Rightarrow> traffic_op \<Rightarrow> traffic_answer \<Rightarrow> nat list" where
  "admits kind pid i x =
     (case i of
        Authorize k p source now \<Rightarrow> if (k, p) = (kind, pid) \<and> x = Decided (Ok Allowed) then [now] else []
      | _ \<Rightarrow> [])"

definition admitted :: "traffic_policy_kind \<Rightarrow> uuid \<Rightarrow> traffic_op list \<Rightarrow> traffic_answer list \<Rightarrow> nat list" where
  "admitted kind pid is xs = concat (map2 (admits kind pid) is xs)"

text \<open>The operations leave the policy's settings alone, and its requests come in order of time from a time on.\<close>

fun undisturbed :: "traffic_policy_kind \<Rightarrow> uuid \<Rightarrow> nat \<Rightarrow> traffic_op list \<Rightarrow> bool" where
  "undisturbed kind pid t [] = True"
| "undisturbed kind pid t (Upsert k p request now # is) = ((k, p) \<noteq> (kind, pid) \<and> undisturbed kind pid t is)"
| "undisturbed kind pid t (Delete k p # is) = ((k, p) \<noteq> (kind, pid) \<and> undisturbed kind pid t is)"
| "undisturbed kind pid t (ResetRuntime # is) = False"
| "undisturbed kind pid t (Authorize k p source now # is) =
     (if (k, p) = (kind, pid) then t \<le> now \<and> now < u64_max \<and> undisturbed kind pid now is else undisturbed kind pid t is)"
| "undisturbed kind pid t (RecordUsage event now # is) = undisturbed kind pid t is"

abbreviation window_of :: "traffic_policy_kind \<Rightarrow> uuid \<Rightarrow> traffic_catalog \<Rightarrow> nat list" where
  "window_of kind pid c \<equiv> (case hm_get (tc_connection_windows c) (kind, pid) of None \<Rightarrow> [] | Some w \<Rightarrow> w)"

definition limited :: "traffic_policy_kind \<Rightarrow> uuid \<Rightarrow> nat \<Rightarrow> traffic_catalog \<Rightarrow> bool" where
  "limited kind pid limit c \<longleftrightarrow>
     (case hm_get (td_controls (tc_database c)) (kind, pid) of None \<Rightarrow> False
      | Some row \<Rightarrow> ct_enabled row \<and> ct_max_connections_per_minute row = Some limit)"

definition within_minute :: "nat \<Rightarrow> nat list \<Rightarrow> nat" where
  "within_minute t seen = length (filter (\<lambda>s. t \<le> s \<and> s < t + 60) seen)"

text \<open>
  How the window relates to all times admitted so far: it is their end, what is missing is more
  than a minute old at the latest request, and no minute holds more than the limit.
\<close>

definition window_inv :: "nat \<Rightarrow> nat \<Rightarrow> nat list \<Rightarrow> nat list \<Rightarrow> bool" where
  "window_inv limit latest seen window \<longleftrightarrow>
     (\<exists>old. seen = old @ window \<and> (\<forall>s \<in> set old. s + 60 \<le> latest)) \<and>
     (\<forall>s \<in> set seen. s \<le> latest) \<and> (\<forall>t. within_minute t seen \<le> limit)"

lemma expire_window_split:
  "now < u64_max \<Longrightarrow> \<exists>old. window = old @ expire_window now window \<and> (\<forall>s \<in> set old. s + 60 \<le> now)"
proof (induction window)
  case (Cons s window)
  show ?case
  proof (cases "saturating_add s 60 \<le> now")
    case True
    then have "s + 60 \<le> now" using Cons.prems by (auto simp: saturating_add_def u64_max_def usize_max_def min_def split: if_splits)
    moreover obtain old where "window = old @ expire_window now window" "\<forall>s \<in> set old. s + 60 \<le> now" using Cons by blast
    ultimately show ?thesis using True by (intro exI [of _ "s # old"]) simp
  qed simp
qed simp

lemma window_inv_later: "window_inv limit latest seen window \<Longrightarrow> latest \<le> now \<Longrightarrow> window_inv limit now seen window"
  by (fastforce simp: window_inv_def)

lemma window_inv_expire:
  assumes "window_inv limit latest seen window" "latest \<le> now" "now < u64_max"
  shows "window_inv limit now seen (expire_window now window)"
proof -
  obtain old where old: "seen = old @ window" "\<forall>s \<in> set old. s + 60 \<le> now" and all: "\<forall>s \<in> set seen. s \<le> now"
    "\<forall>t. within_minute t seen \<le> limit"
    using window_inv_later [OF assms(1,2)] by (auto simp: window_inv_def)
  obtain gone where "window = gone @ expire_window now window" "\<forall>s \<in> set gone. s + 60 \<le> now"
    using expire_window_split [OF assms(3), of window] by blast
  then show ?thesis
    using old all unfolding window_inv_def by (intro conjI exI [of _ "old @ gone"]) auto
qed

lemma window_inv_admit:
  assumes "window_inv limit now seen window" "length window < limit"
  shows "window_inv limit now (seen @ [now]) (window @ [now])"
proof -
  obtain old where old: "seen = old @ window" "\<forall>s \<in> set old. s + 60 \<le> now" and all: "\<forall>s \<in> set seen. s \<le> now"
    "\<forall>t. within_minute t seen \<le> limit"
    using assms(1) by (auto simp: window_inv_def)
  have "within_minute t (seen @ [now]) \<le> limit" for t
  proof (cases "t \<le> now \<and> now < t + 60")
    case True
    then have "filter (\<lambda>s. t \<le> s \<and> s < t + 60) old = []" using old(2) by (auto simp: filter_empty_conv)
    then have "within_minute t seen \<le> length window" using old(1) by (simp add: within_minute_def)
    with True assms(2) show ?thesis by (simp add: within_minute_def)
  next
    case False
    then show ?thesis using all(2) by (auto simp: within_minute_def)
  qed
  with old all show ?thesis by (auto simp: window_inv_def)
qed

lemma get_row:
  assumes "traffic_get js kind pid now db = Ok x" "hm_get (td_controls db) (kind, pid) = Some row"
  obtains r where "x = Some r" "ts_enabled (cr_settings r) = ct_enabled row"
    "ts_max_connections_per_minute (cr_settings r) = ct_max_connections_per_minute row"
  using assms by (auto simp: traffic_get_def and_then_ok_iff)

lemma authorize_database [simp]: "tc_database (fst (traffic_authorize js kind pid source now c)) = tc_database c"
  by (simp add: traffic_authorize_def Let_def split: sum.split option.split)

lemma authorize_other_window:
  "(k, p) \<noteq> (kind, pid) \<Longrightarrow> window_of kind pid (fst (traffic_authorize js k p source now c)) = window_of kind pid c"
  by (auto simp: traffic_authorize_def Let_def split: sum.split option.split)

lemma authorize_limited:
  assumes "limited kind pid limit c" "traffic_authorize js kind pid source now c = (c', r)"
  shows "if r = Ok Allowed
    then length (expire_window now (window_of kind pid c)) < limit \<and>
      window_of kind pid c' = expire_window now (window_of kind pid c) @ [now]
    else window_of kind pid c' \<in> {window_of kind pid c, expire_window now (window_of kind pid c)}"
proof (cases "traffic_get js kind pid now (tc_database c)")
  case (Inl e)
  then show ?thesis using assms(2) by (auto simp: traffic_authorize_def)
next
  case (Inr x)
  obtain row where row: "hm_get (td_controls (tc_database c)) (kind, pid) = Some row" "ct_enabled row"
    "ct_max_connections_per_minute row = Some limit"
    using assms(1) by (auto simp: limited_def split: option.splits)
  from get_row [OF Inr row(1)] obtain t where "x = Some t" "ts_enabled (cr_settings t)"
    "ts_max_connections_per_minute (cr_settings t) = Some limit"
    using row by metis
  then show ?thesis using assms(2) Inr by (auto simp: traffic_authorize_def Let_def not_le split: if_splits)
qed

lemma record_controls: "record_usage_event event now db = Ok db' \<Longrightarrow> td_controls db' = td_controls db"
  by (auto simp: record_usage_event_def Let_def and_then_ok_iff split: if_splits)

text \<open>One operation keeps the relation between the window and the times admitted.\<close>

lemma step_window:
  assumes "undisturbed kind pid latest (i # is)" "limited kind pid limit c"
    "window_inv limit latest seen (window_of kind pid c)" "traffic_step js i c = (c', x)"
  obtains latest' where "undisturbed kind pid latest' is" "limited kind pid limit c'"
    "window_inv limit latest' (seen @ admits kind pid i x) (window_of kind pid c')"
proof (cases i)
  case (Upsert k p request now)
  then show ?thesis using assms that [of latest]
    by (auto simp: traffic_step_def admits_def traffic_upsert_def limited_def Let_def split: sum.splits if_splits)
next
  case (Delete k p)
  then show ?thesis using assms that [of latest]
    by (auto simp: traffic_step_def admits_def traffic_delete_def limited_def split: if_splits)
next
  case ResetRuntime
  then show ?thesis using assms by simp
next
  case (RecordUsage event now)
  then show ?thesis using assms that [of latest]
    by (auto simp: traffic_step_def admits_def limited_def record_controls split: sum.splits)
next
  case (Authorize k p source now)
  obtain r where r: "traffic_authorize js k p source now c = (c', r)" "x = Decided r"
    using assms(4) Authorize by (cases "traffic_authorize js k p source now c") (auto simp: traffic_step_def)
  have lim: "limited kind pid limit c'" using assms(2) r(1) authorize_database [of js k p source now c] by (simp add: limited_def)
  show ?thesis
  proof (cases "(k, p) = (kind, pid)")
    case False
    then have "window_of kind pid c' = window_of kind pid c" using authorize_other_window [OF False, of js source now c] r(1) by simp
    with False show ?thesis using assms that [of latest] Authorize r lim by (auto simp: admits_def)
  next
    case True
    then have now: "latest \<le> now" "now < u64_max" "undisturbed kind pid now is" using assms(1) Authorize by auto
    note window = authorize_limited [OF assms(2), of js source now c' r]
    have inv: "window_inv limit now seen (expire_window now (window_of kind pid c))" "window_inv limit now seen (window_of kind pid c)"
      using window_inv_expire [OF assms(3) now(1,2)] window_inv_later [OF assms(3) now(1)] by auto
    show ?thesis
    proof (cases "r = Ok Allowed")
      case allowed: True
      then have "window_inv limit now (seen @ [now]) (window_of kind pid c')"
        using window_inv_admit [OF inv(1)] window r True by auto
      then show ?thesis using that [of now] allowed now lim Authorize True r by (simp add: admits_def)
    next
      case refused: False
      then have "admits kind pid i x = []" using Authorize r by (simp add: admits_def)
      moreover have "window_inv limit now seen (window_of kind pid c')" using inv window r True refused by auto
      ultimately show ?thesis using that [of now] now lim by simp
    qed
  qed
qed

lemma run_window:
  assumes "undisturbed kind pid latest is" "limited kind pid limit c" "window_inv limit latest seen (window_of kind pid c)"
    "traffic_run js is c = (c', xs)"
  shows "within_minute t (seen @ admitted kind pid is xs) \<le> limit"
  using assms
proof (induction "is" arbitrary: c latest seen xs)
  case Nil
  then show ?case by (simp add: window_inv_def admitted_def)
next
  case (Cons i "is")
  obtain c1 x where s: "traffic_step js i c = (c1, x)" by fastforce
  obtain ys where ys: "traffic_run js is c1 = (c', ys)" "xs = x # ys" using Cons.prems(4) s by (auto split: prod.splits)
  obtain latest' where "undisturbed kind pid latest' is" "limited kind pid limit c1"
    "window_inv limit latest' (seen @ admits kind pid i x) (window_of kind pid c1)"
    using step_window [OF Cons.prems(1-3) s] .
  then have "within_minute t ((seen @ admits kind pid i x) @ admitted kind pid is ys) \<le> limit"
    using Cons.IH ys(1) by blast
  then show ?case using ys(2) by (simp add: admitted_def)
qed

end
