(* ===== verification/Traffic_Usage.thy ===== *)
theory Traffic_Usage
  imports Traffic_Rules
begin

text \<open>
  The daily usage of policies and the decisions taken from stored settings
  (\<^verbatim>\<open>linklake-server/src/traffic_control.rs\<close>), with the properties of the traffic controls.
\<close>

section \<open>Usage of a day\<close>

text \<open>The events that count: of each non-nil id the first, with the day it was recorded on.\<close>

fun first_events :: "traffic_op list \<Rightarrow> (traffic_usage_event \<times> nat) list \<Rightarrow> (traffic_usage_event \<times> nat) list" where
  "first_events [] seen = seen"
| "first_events (RecordUsage e now # is) seen =
     (if is_nil (ue_event_id e) \<or> ue_event_id e \<in> (ue_event_id \<circ> fst) ` set seen then first_events is seen
      else first_events is (seen @ [(e, utc_day now)]))"
| "first_events (_ # is) seen = first_events is seen"

definition day_total :: "traffic_policy_kind \<Rightarrow> uuid \<Rightarrow> nat \<Rightarrow> (traffic_usage_event \<times> nat) list \<Rightarrow> nat" where
  "day_total kind pid day seen =
     sum_list (map (\<lambda>(e, d). if (ue_kind e, ue_policy_id e, d) = (kind, pid, day) then ue_bytes e else 0) seen)"

definition event_row :: "traffic_usage_event \<times> nat \<Rightarrow> uuid \<times> usage_event_row" where
  "event_row x = (ue_event_id (fst x), \<lparr> er_kind = kind_as_str (ue_kind (fst x)), er_policy_id = ue_policy_id (fst x),
     er_bytes = nat_to_string (ue_bytes (fst x)), er_utc_day = snd x \<rparr>)"

definition usage_inv :: "(traffic_usage_event \<times> nat) list \<Rightarrow> traffic_db \<Rightarrow> bool" where
  "usage_inv seen db \<longleftrightarrow> td_usage_events db = map event_row seen \<and>
     (\<forall>kind pid day. traffic_usage kind pid day db = Ok (min u64_max (day_total kind pid day seen)))"

lemma known_event: "map_of (map event_row seen) i = None \<longleftrightarrow> i \<notin> (ue_event_id \<circ> fst) ` set seen"
  by (force simp: map_of_eq_None_iff event_row_def image_iff)

lemma record_new_event:
  assumes "usage_inv seen db" "\<not> is_nil (ue_event_id e)" "ue_event_id e \<notin> (ue_event_id \<circ> fst) ` set seen"
  shows "\<exists>db'. record_usage_event e now db = Ok db' \<and> usage_inv (seen @ [(e, utc_day now)]) db'"
proof -
  have new: "hm_get (td_usage_events db) (ue_event_id e) = None" using assms by (simp add: usage_inv_def known_event)
  have used: "traffic_usage kind pid day db = Ok (min u64_max (day_total kind pid day seen))" for kind pid day
    using assms(1) by (simp add: usage_inv_def)
  let ?t = "saturating_add (min u64_max (day_total (ue_kind e) (ue_policy_id e) (utc_day now) seen)) (ue_bytes e)"
  let ?db = "db\<lparr> td_usage_events := hm_insert (ue_event_id e) (snd (event_row (e, utc_day now))) (td_usage_events db),
    td_daily_usage := hm_insert (ue_kind e, ue_policy_id e, utc_day now) (encode_sqlite_u64 ?t) (td_daily_usage db) \<rparr>"
  have "record_usage_event e now db = Ok ?db"
    using assms(2) new used by (simp add: record_usage_event_def event_row_def Let_def)
  moreover have "td_usage_events ?db = map event_row (seen @ [(e, utc_day now)])"
    using assms(1) new by (simp add: hm_insert_new usage_inv_def event_row_def)
  moreover have "traffic_usage kind pid day ?db = Ok (min u64_max (day_total kind pid day (seen @ [(e, utc_day now)])))" for kind pid day
  proof (cases "(kind, pid, day) = (ue_kind e, ue_policy_id e, utc_day now)")
    case True
    have "?t \<le> u64_max" by (simp add: saturating_add_def usize_max_def u64_max_def)
    with True show ?thesis
      by (simp add: traffic_usage_def decode_encode_u64 day_total_def saturating_add_def usize_max_def u64_max_def)
  next
    case False
    then show ?thesis using used [of kind pid day] by (auto simp: traffic_usage_def day_total_def)
  qed
  ultimately show ?thesis by (auto simp: usage_inv_def)
qed

lemma record_known_event:
  assumes "usage_inv seen db" "is_nil (ue_event_id e) \<or> ue_event_id e \<in> (ue_event_id \<circ> fst) ` set seen"
    "record_usage_event e now db = Ok db'"
  shows "db' = db"
proof -
  have "hm_get (td_usage_events db) (ue_event_id e) \<noteq> None \<or> is_nil (ue_event_id e)"
    using assms(1,2) known_event [of seen "ue_event_id e"] by (auto simp: usage_inv_def)
  then show ?thesis using assms(3) by (auto simp: record_usage_event_def Let_def split: if_splits option.splits)
qed

lemma usage_inv_tables:
  "td_usage_events db' = td_usage_events db \<Longrightarrow> td_daily_usage db' = td_daily_usage db \<Longrightarrow> usage_inv seen db' = usage_inv seen db"
  by (simp add: usage_inv_def traffic_usage_def)

lemma run_usage: "usage_inv seen (tc_database c) \<Longrightarrow> usage_inv (first_events is seen) (tc_database (fst (traffic_run js is c)))"
proof (induction "is" arbitrary: seen c)
  case (Cons i "is")
  obtain c1 x where s: "traffic_step js i c = (c1, x)" by fastforce
  have run: "fst (traffic_run js (i # is) c) = fst (traffic_run js is c1)" using s by (simp add: case_prod_unfold)
  show ?case
  proof (cases i)
    case (RecordUsage e now)
    show ?thesis
    proof (cases "is_nil (ue_event_id e) \<or> ue_event_id e \<in> (ue_event_id \<circ> fst) ` set seen")
      case True
      then have "tc_database c1 = tc_database c"
        using s RecordUsage record_known_event [OF Cons.prems True] by (auto simp: traffic_step_def split: sum.splits)
      then show ?thesis using Cons.IH [of seen c1] Cons.prems run RecordUsage True by simp
    next
      case False
      then obtain db' where "record_usage_event e now (tc_database c) = Ok db'" "usage_inv (seen @ [(e, utc_day now)]) db'"
        using record_new_event [OF Cons.prems] by blast
      then show ?thesis using Cons.IH [of "seen @ [(e, utc_day now)]" c1] s run RecordUsage False by (auto simp: traffic_step_def)
    qed
  next
    case (Upsert k p request now)
    then have "td_usage_events (tc_database c1) = td_usage_events (tc_database c)" "td_daily_usage (tc_database c1) = td_daily_usage (tc_database c)"
      using s by (auto simp: traffic_step_def traffic_upsert_def Let_def split: sum.splits)
    from usage_inv_tables [OF this, of seen] show ?thesis using Cons.IH [of seen c1] Cons.prems run Upsert by simp
  next
    case (Delete k p)
    then have "td_usage_events (tc_database c1) = td_usage_events (tc_database c)" "td_daily_usage (tc_database c1) = td_daily_usage (tc_database c)"
      using s by (auto simp: traffic_step_def traffic_delete_def)
    from usage_inv_tables [OF this, of seen] show ?thesis using Cons.IH [of seen c1] Cons.prems run Delete by simp
  next
    case ResetRuntime
    then show ?thesis using Cons.IH [of seen c1] s Cons.prems run by (auto simp: traffic_step_def reset_runtime_state_def)
  next
    case (Authorize k p source now)
    then have "tc_database c1 = tc_database c" using s authorize_database [of js k p source now c]
      by (cases "traffic_authorize js k p source now c") (simp add: traffic_step_def)
    then show ?thesis using Cons.IH [of seen c1] Cons.prems run Authorize by simp
  qed
qed simp

section \<open>Reading back what was stored\<close>

lemma encode_not_null: "encode_sqlite_u64 v \<noteq> SqlNull"
  by (simp add: encode_sqlite_u64_def)

lemma get_stored:
  assumes "traffic_json_ok js" "hm_get (td_controls db) (kind, pid) = Some (settings_row js s now)"
    "case ts_daily_quota_bytes s of None \<Rightarrow> True | Some v \<Rightarrow> v \<le> u64_max"
    "traffic_usage kind pid (utc_day later) db = Ok used"
  shows "traffic_get js kind pid later db = Ok (Some \<lparr> cr_kind = kind, cr_policy_id = pid, cr_settings = s,
    cr_used_today_bytes = used, cr_updated_unix_seconds = now \<rparr>)"
  using assms by (cases "ts_daily_quota_bytes s")
    (simp_all add: traffic_get_def settings_row_def traffic_json_ok_def encode_not_null decode_encode_u64)

lemma schedule_cong:
  assumes "ts_start_minute_utc a = ts_start_minute_utc b" "ts_end_minute_utc a = ts_end_minute_utc b"
    "set (ts_active_weekdays_utc a) = set (ts_active_weekdays_utc b)"
  shows "schedule_allows a now = schedule_allows b now"
proof -
  have "ts_active_weekdays_utc a = [] \<longleftrightarrow> ts_active_weekdays_utc b = []" using assms(3) by (metis set_empty)
  then show ?thesis using assms by (simp add: schedule_allows_def)
qed

text \<open>The decision that an administrator's request describes.\<close>

definition requested_decision :: "traffic_settings \<Rightarrow> ip_addr \<Rightarrow> nat \<Rightarrow> nat \<Rightarrow> traffic_decision" where
  "requested_decision request source now used =
     (if \<not> ts_enabled request then Allowed
      else if list_ex (\<lambda>v. rule_covers v source) (ts_denied_cidrs request) \<or>
        ts_allowed_cidrs request \<noteq> [] \<and> \<not> list_ex (\<lambda>v. rule_covers v source) (ts_allowed_cidrs request)
      then SourceDenied
      else if \<not> schedule_allows request now then OutsideSchedule
      else if (case ts_daily_quota_bytes request of None \<Rightarrow> False | Some quota \<Rightarrow> quota \<le> used) then QuotaExceeded
      else Allowed)"

section \<open>Properties\<close>

definition empty_tables :: traffic_db where
  "empty_tables = \<lparr> td_controls = [], td_daily_usage = [], td_usage_events = [] \<rparr>"

text \<open>A JSON library for examples: texts are written with their lengths.\<close>

definition pack :: "str list \<Rightarrow> str" where
  "pack xs = concat (map (\<lambda>x. length x # x) xs)"

function unpack :: "str \<Rightarrow> str list" where
  "unpack [] = []"
| "unpack (n # s) = take n s # unpack (drop n s)"
  by pat_completeness auto
termination by (relation "measure length") auto

definition sample_json :: traffic_json where
  "sample_json = \<lparr> tj_texts = pack, tj_parse_texts = Some \<circ> unpack, tj_bytes = id, tj_parse_bytes = Some \<rparr>"

lemma sample_json_ok: "traffic_json_ok sample_json"
proof -
  have "unpack (pack xs) = xs" for xs by (induction xs) (simp_all add: pack_def)
  then show ?thesis by (simp add: traffic_json_ok_def sample_json_def)
qed

definition sample_cidr :: cidr where
  "sample_cidr = \<lparr> ci_address = V4 0x0A000000, ci_prefix = 8 \<rparr>"

definition sample_settings :: traffic_settings where
  "sample_settings = \<lparr> ts_allowed_cidrs = [], ts_denied_cidrs = [cidr_normalized sample_cidr],
     ts_max_connections_per_minute = Some 1, ts_daily_quota_bytes = None, ts_active_weekdays_utc = [],
     ts_start_minute_utc = None, ts_end_minute_utc = None, ts_enabled = True \<rparr>"

definition sample_catalog :: traffic_catalog where
  "sample_catalog = catalog_open (empty_tables\<lparr> td_controls := [((Tcp, 7), settings_row sample_json sample_settings 0)] \<rparr>)"



text \<open>
  C38: starting from empty tables, the usage of a policy on a day is the sum of the bytes of the
  events recorded for it on that day, each event id counted once however often it is delivered,
  and stops at the largest 64-bit number instead of wrapping.
\<close>

theorem usage_counts_each_event_once:
  "traffic_usage kind pid day (tc_database (fst (traffic_run js ops (catalog_open empty_tables)))) =
     Ok (min u64_max (day_total kind pid day (first_events ops [])))"
proof -
  have "usage_inv [] (tc_database (catalog_open empty_tables))"
    by (simp add: usage_inv_def catalog_open_def empty_tables_def traffic_usage_def decode_small day_total_def)
  from run_usage [OF this, of ops js] show ?thesis by (simp add: usage_inv_def)
qed



end
