(* ===== verification/Spec2Isabelle.thy ===== *)
theory Spec2Isabelle
  imports Udp_Delivery Socks5_Delivery Target_Pool Egress_Policy Port_Policy Http_Pool_Use Sni_Reading Traffic_Usage
begin

text \<open>
  Verification of LinkLake, a self-hosted tunnel server with its client agent.

  \<^bold>\<open>The program.\<close> A server accepts public TCP, UDP, HTTP, TLS and SOCKS5 traffic and forwards it
  through connections that client agents opened to it. The crate \<^verbatim>\<open>linklake-core\<close> holds what both
  sides share (datagram formats, reassembly, port expressions, target pools, egress rules), the crate
  \<^verbatim>\<open>linklake-server\<close> the server: several processes may share one database, in which they elect a
  leader and lease ports and jobs to each other.

  \<^bold>\<open>Conventions.\<close> Structs are records, enums datatypes, \<open>Result\<close> is a sum (\<open>Err\<close>, \<open>Ok\<close>), \<open>HashMap\<close> an
  association list with distinct keys. Integers are words where wrapping or bits matter and natural
  numbers with the bounds of their Rust type elsewhere. A place where Rust would panic is \<open>None\<close> or
  an error value of its own, and the properties show that it is not reached. A database transaction
  is a function to an error, which leaves the tables alone, or to an answer and the new tables.
  Clock readings, fresh UUIDs and the environment are arguments. The JSON library is a parameter
  with the round-trip law as a named hypothesis, and examples instantiate it.

  \<^bold>\<open>Foundations.\<close>
  \<^item> \<^verbatim>\<open>Prelude\<close>: machine integers, big-endian bytes, results, hash maps, and the interfaces
    \<open>codec\<close>, \<open>canonical_codec\<close>, \<open>guarded_machine\<close> (operations never panic while an invariant holds) and
    \<open>monotone_machine\<close> (and never go back in an order).
  \<^item> \<^verbatim>\<open>Rust_Strings\<close>, \<^verbatim>\<open>Rust_Net\<close>, \<^verbatim>\<open>Ip_Text\<close>: strings with their UTF-8 bytes, and the texts of numbers and
    IP addresses, read and written as the standard library does, with their round trips.

  \<^bold>\<open>Datagrams\<close> (\<^verbatim>\<open>linklake-core/src\<close>).
  \<^item> \<^verbatim>\<open>Udp_Protocol\<close> (\<^verbatim>\<open>udp_protocol.rs\<close>): the LLUD frame codec and the splitting of a datagram. The codec
    is exact, splitting succeeds exactly when it can and loses nothing (C1 to C3).
  \<^item> \<^verbatim>\<open>Udp_Reassembly\<close> (\<^verbatim>\<open>udp_reassembly.rs\<close>): the bounded reassembler; every run stays within its limits
    and counters without a panic (C4). \<^verbatim>\<open>Udp_Delivery\<close>: the fragments of a datagram in any order, repeated
    and mixed with other traffic, deliver it, and only once (C5, C6).
  \<^item> \<^verbatim>\<open>Socks5_Udp\<close> (\<^verbatim>\<open>socks5_udp.rs\<close>): the envelope codec (C7). \<^verbatim>\<open>Socks5_Fragment\<close> (\<^verbatim>\<open>socks5_fragment.rs\<close>): the
    fragment reassembler and the budget shared by many of them; \<^verbatim>\<open>Socks5_Accounting\<close>: the budget is exact
    (C8); \<^verbatim>\<open>Socks5_Delivery\<close>: what is delivered, and the one case that stalls (C9, C10).

  \<^bold>\<open>Ports, targets and egress\<close> (\<^verbatim>\<open>linklake-core/src\<close>).
  \<^item> \<^verbatim>\<open>Port_Mapping\<close> (\<^verbatim>\<open>port_mapping.rs\<close>): port groups are paired one to one and printed canonically (C11, C12).
  \<^item> \<^verbatim>\<open>Public_Ports\<close> (\<^verbatim>\<open>public_ports.rs\<close>): range lists refine sets of ports, through the interface
    \<open>port_set\<close> (C13, C14).
  \<^item> \<^verbatim>\<open>Target_Pool\<close> (\<^verbatim>\<open>target_pool.rs\<close>): parsed pools are sound and selection follows the weights (C15, C16).
  \<^item> \<^verbatim>\<open>Egress_Policy\<close> (\<^verbatim>\<open>egress_policy.rs\<close>): the classification of addresses is exact and IPv6 forms do
    not bypass it (C17, C18).

  \<^bold>\<open>High availability\<close> (\<^verbatim>\<open>linklake-server/src\<close>).
  \<^item> \<^verbatim>\<open>Ha_Coordination\<close> (\<^verbatim>\<open>ha_coordination.rs\<close>), \<^verbatim>\<open>Port_Ownership\<close> (\<^verbatim>\<open>public_port_ownership.rs\<close>), \<^verbatim>\<open>Job_Leases\<close>
    (\<^verbatim>\<open>job_leases.rs\<close>): the transactions. \<^verbatim>\<open>Ha_System\<close>: any interleaving of them keeps the invariant and
    never takes back a fencing token. \<^verbatim>\<open>Ha_Leadership\<close> and \<^verbatim>\<open>Ha_Leases\<close>: fencing, election and exclusive
    leases (C19 to C23).
  \<^item> \<^verbatim>\<open>Target_Health\<close> (\<^verbatim>\<open>target_health.rs\<close>): health states refine their hysteresis rule (C24, C25).
  \<^item> \<^verbatim>\<open>Ha_Runtime\<close> (\<^verbatim>\<open>ha_runtime.rs\<close>): the process around the transactions, and the cluster as a step
    relation; \<^verbatim>\<open>Ha_Cluster\<close>: no split brain, accepted configurations open, timely heartbeats keep the
    leadership (C26 to C28).
  \<^item> \<^verbatim>\<open>Port_Policy\<close> (\<^verbatim>\<open>public_port_policy.rs\<close>): dynamic ports are allowed ports, and the search for one is
    complete (C29, C30).

  \<^bold>\<open>Traffic\<close> (\<^verbatim>\<open>linklake-server/src\<close>).
  \<^item> \<^verbatim>\<open>Http_Backend_Pool\<close> (\<^verbatim>\<open>http_backend_pool.rs\<close>): the pool of backend connections; \<^verbatim>\<open>Http_Pool_Use\<close>: its limits
    hold after all operations, registering terminates, leases go to the least loaded connection, and a
    connection that was told to go away drains (C31 to C34).
  \<^item> \<^verbatim>\<open>Hostname\<close> (\<^verbatim>\<open>http_route_catalog.rs\<close>, \<open>normalize_hostname\<close>), \<^verbatim>\<open>Sni_Tunnel\<close> (\<^verbatim>\<open>sni_tunnel.rs\<close>): the reader of TLS
    server names; \<^verbatim>\<open>Sni_Reading\<close>: it reads every ClientHello however it is cut into records, never panics
    and never loses a byte (C35, C36).
  \<^item> \<^verbatim>\<open>Traffic_Control\<close> (\<^verbatim>\<open>traffic_control.rs\<close>): source rules, connection rate, quota and schedule;
    \<^verbatim>\<open>Traffic_Rules\<close> and \<^verbatim>\<open>Traffic_Usage\<close>: the rate holds in every minute, usage counts every event once, and
    the stored rules are the requested ones (C37 to C39).

  \<^bold>\<open>Loops.\<close> No definition uses fuel. Loops over data are structural or have a measure. Two loops
  could run forever: the search for a free connection id (\<open>next_available_connection_id\<close>) and the advance over
  contiguous SOCKS5 fragments (\<open>advance_contiguous\<close>); they are partial functions whose non-termination is
  \<open>None\<close>, and the lemmas show that they return in every reachable state: fewer connections than ids, and
  sequence numbers of at most 127.

  \<^bold>\<open>Not modelled.\<close> Sockets, tasks and process control (\<^verbatim>\<open>main.rs\<close> of server and client, the tunnel data
  planes, probes), cryptography, certificates and ACME, the PostgreSQL and migration texts, backup
  archives and the self-update of binaries, because their behaviour is that of the operating system,
  of third-party crates or of the database engine; the catalogues of policies, tunnels, routes and
  fleets, alerting and notifications, which are SQL queries over JSON columns; and the user
  interfaces. The SQLite branch of the coordination stores is modelled; their PostgreSQL branch runs the same
  steps under row locks. Log messages and metrics are left out everywhere.
\<close>

end
